(* ===== verification/HT_Prelude.thy ===== *)
theory HT_Prelude
  imports Main "HOL-Library.Word"
begin

text \<open>
  Shared vocabulary of the development: names for the C integer types, the error-or-value
  composition used by every fallible routine, and the generic facts about byte lists that the
  encoders, the decoders and the instruction builders share.
\<close>

unbundle bit_operations_syntax

section \<open>C integer types\<close>

type_synonym u8 = "8 word"
type_synonym u16 = "16 word"
type_synonym u32 = "32 word"
type_synonym u64 = "64 word"
type_synonym bytes = "8 word list"

named_theorems codec_simps \<open>unfoldings of the byte-level loads, stores and headers\<close>
named_theorems outcome_simps \<open>inversion of the error-or-value composition\<close>

lemma unat_u8_less: "unat (c :: u8) < 256"
  using unsigned_less [of c] by simp

lemma unat_u16_less: "unat (h :: u16) < 65536"
  using unsigned_less [of h] by simp

lemma unat_u32_less: "unat (w :: u32) < 4294967296"
  using unsigned_less [of w] by simp

lemma unat_u64_less: "unat (w :: u64) < 2 ^ 64"
  using unsigned_less [of w] by simp

lemma unat_of_nat_u64: "n < 2 ^ 64 \<Longrightarrow> unat (word_of_nat n :: u64) = n"
  by (simp add: unsigned_of_nat take_bit_nat_eq_self)

lemma upt_from_01: "2 \<le> n \<Longrightarrow> [0..<n] = 0 # 1 # [2..<n]"
  by (simp add: upt_conv_Cons numeral_2_eq_2)

text \<open>A property of all words below a bound follows from its finitely many instances.\<close>

lemma small_word_exhaust:
  assumes "unat w < m" "\<forall>k\<in>set [0..<m]. P (word_of_nat k :: 'a::len word)"
  shows "P w"
proof -
  from assms(1) have "unat w \<in> set [0..<m]" by simp
  with assms(2) have "P (word_of_nat (unat w))" by (rule bspec)
  then show ?thesis by simp
qed

lemma word_range_exhaust:
  assumes "word_of_nat m \<le> w" "w \<le> word_of_nat n" "unat (word_of_nat m :: 'a word) = m"
    "unat (word_of_nat n :: 'a word) = n" "\<forall>k\<in>set [m..<Suc n]. P (word_of_nat k :: 'a::len word)"
  shows "P w"
proof -
  from assms(1-4) have "unat w \<in> set [m..<Suc n]" by (auto simp: word_le_nat_alt)
  with assms(5) have "P (word_of_nat (unat w))" by (rule bspec)
  then show ?thesis by simp
qed

section \<open>Bytes of a little-endian word\<close>

text \<open>
  The host is little-endian: \<open>le_word\<close> is the value that a load of the listed bytes yields,
  \<open>le_bytes n w\<close> the \<open>n\<close> bytes that a store of \<open>w\<close> writes.
\<close>

definition le_word :: "bytes \<Rightarrow> 'a::len word" where
  "le_word bs = foldr (\<lambda>b acc. ucast b OR push_bit 8 acc) bs 0"

definition le_bytes :: "nat \<Rightarrow> 'a::len word \<Rightarrow> bytes" where
  "le_bytes n w = map (\<lambda>i. ucast (drop_bit (8 * i) w)) [0..<n]"

text \<open>The \<open>n\<close> bytes from an offset on.\<close>

definition piece :: "bytes \<Rightarrow> nat \<Rightarrow> nat \<Rightarrow> bytes" where
  "piece b off n = take n (drop off b)"

lemma piece_eqI:
  assumes "off + length src \<le> length b" "\<forall>x<length src. b ! (off + x) = src ! x"
  shows "piece b off (length src) = src"
  using assms by (intro nth_equalityI) (simp_all add: piece_def)

lemma bit_le_word:
  "bit (le_word bs :: 'a::len word) n \<longleftrightarrow> n < LENGTH('a) \<and> n < 8 * length bs \<and> bit (bs ! (n div 8)) (n mod 8)"
proof (induction bs arbitrary: n)
  case Nil then show ?case by (simp add: le_word_def)
next
  case (Cons b bs)
  have step: "bit (le_word (b # bs) :: 'a word) n \<longleftrightarrow>
     n < LENGTH('a) \<and> (bit b n \<or> 8 \<le> n \<and> bit (le_word bs :: 'a word) (n - 8))"
    by (auto simp: le_word_def bit_simps dest: bit_imp_le_length)
  show ?case
  proof (cases "n < 8")
    case True
    then show ?thesis by (simp add: step)
  next
    case False
    then have *: "n div 8 = Suc ((n - 8) div 8)" "n mod 8 = (n - 8) mod 8" by (simp_all add: le_div_geq le_mod_geq)
    from False have b: "\<not> bit b n" using bit_imp_le_length [of b n] by auto
    have l: "n - 8 < LENGTH('a)" if "n < LENGTH('a)" using that by simp
    have m: "n - 8 < 8 * length bs \<longleftrightarrow> n < 8 + 8 * length bs" using False by arith
    show ?thesis unfolding step Cons.IH m * using False b l by auto
  qed
qed

lemma nth_le_bytes: "i < n \<Longrightarrow> le_bytes n w ! i = ucast (drop_bit (8 * i) w)"
  by (simp add: le_bytes_def)

lemma length_le_bytes [simp]: "length (le_bytes n w) = n"
  by (simp add: le_bytes_def)

lemma le_word_le_bytes:
  assumes "LENGTH('a) = 8 * n"
  shows "le_word (le_bytes n (w :: 'a::len word)) = w"
proof (rule bit_eqI)
  fix k :: nat
  have *: "k < 8 * n \<Longrightarrow> k div 8 < n" by linarith
  have "bit (le_word (le_bytes n w) :: 'a word) k \<longleftrightarrow> k < 8 * n \<and> bit w (8 * (k div 8) + k mod 8)"
    using * by (auto simp: bit_le_word nth_le_bytes bit_simps assms)
  then show "bit (le_word (le_bytes n w) :: 'a word) k = bit w k"
    using assms bit_imp_le_length [of w k] by auto
qed

lemma le_bytes_le_word:
  assumes "LENGTH('a) = 8 * n" "length bs = n"
  shows "le_bytes n (le_word bs :: 'a::len word) = bs"
proof (rule nth_equalityI)
  fix i assume i: "i < length (le_bytes n (le_word bs :: 'a word))"
  show "le_bytes n (le_word bs :: 'a word) ! i = bs ! i"
  proof (rule bit_eqI)
    fix k
    show "bit (le_bytes n (le_word bs :: 'a word) ! i) k = bit (bs ! i) k"
    proof (cases "k < 8")
      case True
      then have "(8 * i + k) div 8 = i" "(8 * i + k) mod 8 = k" by simp_all
      then show ?thesis using True i assms
        by (simp add: nth_le_bytes bit_simps bit_le_word) 
    next
      case False
      then have "\<not> bit (c :: u8) k" for c using bit_imp_le_length [of c k] by auto
      then show ?thesis by simp
    qed
  qed
qed (simp add: assms)

text \<open>Reversing the bytes of a word, bit by bit and byte by byte.\<close>

lemma le_bytes_reversed:
  assumes "LENGTH('a) = 8 * k"
    and "list_all (\<lambda>n. bit y n \<longleftrightarrow> bit x (8 * (k - 1 - n div 8) + n mod 8)) [0..<8 * k]"
  shows "le_bytes k (y :: 'a::len word) = rev (le_bytes k (x :: 'a word))"
proof (rule nth_equalityI)
  fix i assume "i < length (le_bytes k y)"
  then have i: "i < k" by simp
  show "le_bytes k y ! i = rev (le_bytes k x) ! i"
  proof (rule bit_eqI)
    fix j :: nat
    show "bit (le_bytes k y ! i) j = bit (rev (le_bytes k x) ! i) j"
    proof (cases "j < 8")
      case True
      with i have "8 * i + j \<in> set [0..<8 * k]" by simp
      then have "bit y (8 * i + j) \<longleftrightarrow> bit x (8 * (k - 1 - (8 * i + j) div 8) + (8 * i + j) mod 8)"
        using assms(2) unfolding list_all_iff by blast
      then show ?thesis using True i
        by (simp add: rev_nth nth_le_bytes bit_simps)
    next
      case False
      then have "\<not> bit (c :: u8) j" for c using bit_imp_le_length [of c j] by auto
      then show ?thesis by simp
    qed
  qed
qed simp

section \<open>Error-or-value results\<close>

text \<open>
  A fallible routine returns \<open>Inl\<close> of an error or \<open>Inr\<close> of its value; \<open>rbind\<close> runs the
  rest of the routine on the value and stops at the first error, as the C code does.
\<close>

definition rbind :: "'e + 'a \<Rightarrow> ('a \<Rightarrow> 'e + 'b) \<Rightarrow> 'e + 'b" where
  "rbind m f = (case m of Inl e \<Rightarrow> Inl e | Inr x \<Rightarrow> f x)"

lemma rbind_Inl [simp]: "rbind (Inl e) f = Inl e"
  by (simp add: rbind_def)

lemma rbind_Inr [simp]: "rbind (Inr x) f = f x"
  by (simp add: rbind_def)

lemma rbind_eq_Inr [outcome_simps]:
  "rbind m f = Inr y \<longleftrightarrow> (\<exists>x. m = Inr x \<and> f x = Inr y)"
  by (cases m) auto

lemma rbind_eq_Inl [outcome_simps]:
  "rbind m f = Inl e \<longleftrightarrow> m = Inl e \<or> (\<exists>x. m = Inr x \<and> f x = Inl e)"
  by (cases m) auto

lemma rbind_pair_eq_Inr [outcome_simps]:
  "rbind m (\<lambda>(x, d). f x d) = Inr y \<longleftrightarrow> (\<exists>x d. m = Inr (x, d) \<and> f x d = Inr y)"
  by (cases m) (auto split: prod.splits)

lemma rbind_assoc: "rbind (rbind m f) g = rbind m (\<lambda>x. rbind (f x) g)"
  by (cases m) auto

lemma rbind_cong [fundef_cong]:
  "m = m' \<Longrightarrow> (\<And>x. m' = Inr x \<Longrightarrow> f x = g x) \<Longrightarrow> rbind m f = rbind m' g"
  by (cases m') auto

text \<open>
  The loop \<^verbatim>\<open>for (i = 0; i < n; i++)\<close> over a state, stopped by the first error: \<open>for_loop i n\<close>
  runs the body for the indices from \<open>i\<close> on, \<open>n\<close> times.
\<close>

fun for_loop :: "nat \<Rightarrow> nat \<Rightarrow> (nat \<Rightarrow> 's \<Rightarrow> 'e + 's) \<Rightarrow> 's \<Rightarrow> 'e + 's" where
  "for_loop i 0 f s = Inr s"
| "for_loop i (Suc n) f s = rbind (f i s) (\<lambda>s. for_loop (Suc i) n f s)"

lemma for_loop_cong [fundef_cong]:
  assumes "i = j" "m = n" "s = t" "\<And>k u. j \<le> k \<Longrightarrow> k < j + n \<Longrightarrow> f k u = g k u"
  shows "for_loop i m f s = for_loop j n g t"
  unfolding assms(1-3) using assms(4)
  by (induction n arbitrary: j t) (simp_all cong: rbind_cong)

section \<open>Copying the highest bit down\<close>

text \<open>Every bit of \<open>y\<close> says whether one of \<open>m\<close> bits of \<open>x\<close> from there on is set.\<close>

definition smeared :: "'a::len word \<Rightarrow> nat \<Rightarrow> 'a word \<Rightarrow> bool" where
  "smeared x m y \<longleftrightarrow> (\<forall>n. bit y n \<longleftrightarrow> (\<exists>j<m. bit x (n + j)))"

lemma smeared_double:
  assumes "smeared x m y"
  shows "smeared x (m + m) (y OR drop_bit m y)"
  unfolding smeared_def
proof
  fix n
  have "(\<exists>j<m + m. bit x (n + j)) \<longleftrightarrow> (\<exists>j<m. bit x (n + j)) \<or> (\<exists>j<m. bit x (n + m + j))"
  proof
    assume "\<exists>j<m + m. bit x (n + j)"
    then obtain j where j: "j < m + m" "bit x (n + j)" by blast
    show "(\<exists>j<m. bit x (n + j)) \<or> (\<exists>j<m. bit x (n + m + j))"
    proof (cases "j < m")
      case False
      then have "j - m < m" "n + m + (j - m) = n + j" using j(1) by auto
      with j(2) show ?thesis by metis
    qed (use j in blast)
  next
    assume "(\<exists>j<m. bit x (n + j)) \<or> (\<exists>j<m. bit x (n + m + j))"
    then show "\<exists>j<m + m. bit x (n + j)" by (metis add.assoc nat_add_left_cancel_less trans_less_add1)
  qed
  then show "bit (y OR drop_bit m y) n \<longleftrightarrow> (\<exists>j<m + m. bit x (n + j))"
    using assms by (simp add: smeared_def bit_simps add.commute [of m n])
qed

lemma smeared_1: "smeared x 1 x"
  by (auto simp: smeared_def)

end
