(* ===== verification/Atomic_Queue.thy ===== *)
theory Atomic_Queue
  imports HT_Prelude
begin

text \<open>
  The ring buffer behind the event queue (\<^verbatim>\<open>include/atomic_queue/atomic_queue.h\<close>, class
  \<^verbatim>\<open>AtomicQueue2\<close> with several producers and consumers), as it behaves when its operations do not
  overlap: a successful compare-and-exchange is an assignment, and \<open>None\<close> is an operation that
  spins for another thread. The counters are 32-bit and wrap around.
\<close>

section \<open>The operations\<close>

definition GetCacheLineIndexBits :: "nat \<Rightarrow> nat" where
  "GetCacheLineIndexBits elements_per_cache_line =
     (if elements_per_cache_line = 256 then 8 else if elements_per_cache_line = 128 then 7
      else if elements_per_cache_line = 64 then 6 else if elements_per_cache_line = 32 then 5
      else if elements_per_cache_line = 16 then 4 else if elements_per_cache_line = 8 then 3
      else if elements_per_cache_line = 4 then 2 else if elements_per_cache_line = 2 then 1 else 0)"

definition GetIndexShuffleBits :: "bool \<Rightarrow> u32 \<Rightarrow> nat \<Rightarrow> nat" where
  "GetIndexShuffleBits minimize_contention array_size elements_per_cache_line =
     (if minimize_contention then
        let bits = GetCacheLineIndexBits elements_per_cache_line;
            min_size = push_bit (bits * 2) 1
        in if array_size < min_size then 0 else bits
      else 0)"

definition remap_index_with_mix :: "nat \<Rightarrow> u32 \<Rightarrow> u32 \<Rightarrow> u32" where
  "remap_index_with_mix bits index mix = index XOR mix XOR push_bit bits mix"

definition remap_index :: "nat \<Rightarrow> u32 \<Rightarrow> u32" where
  "remap_index bits index =
     (if bits = 0 then index
      else remap_index_with_mix bits index ((index XOR drop_bit bits index) AND (push_bit bits 1 - 1)))"

fun or_equal :: "u32 \<Rightarrow> nat list \<Rightarrow> u32" where
  "or_equal x [] = x"
| "or_equal x (u # rest) = or_equal (x OR drop_bit u x) rest"

definition round_up_to_power_of_2 :: "u32 \<Rightarrow> u32" where
  "round_up_to_power_of_2 a = or_equal (a - 1) [1, 2, 4, 8, 16] + 1"

datatype slot_state = EMPTY | STORING | STORED | LOADING

text \<open>\<open>q_size\<close> and \<open>q_bits\<close> are the constants \<^verbatim>\<open>size_\<close> and \<^verbatim>\<open>SHUFFLE_BITS\<close> of the class.\<close>

record 'a queue =
  q_size :: u32
  q_bits :: nat
  q_head :: u32
  q_tail :: u32
  q_states :: "slot_state list"
  q_elements :: "'a list"

definition AtomicQueue2 :: "u32 \<Rightarrow> 'a \<Rightarrow> 'a queue" where
  "AtomicQueue2 SIZE fresh =
     (let sz = round_up_to_power_of_2 SIZE
      in \<lparr>q_size = sz, q_bits = GetIndexShuffleBits True sz 64, q_head = 0, q_tail = 0,
          q_states = replicate (unat sz) EMPTY, q_elements = replicate (unat sz) fresh\<rparr>)"

definition do_pop_any :: "nat \<Rightarrow> 'a queue \<Rightarrow> ('a \<times> 'a queue) option" where
  "do_pop_any index q =
     (if q_states q ! index = STORED then
        let q = q\<lparr>q_states := (q_states q)[index := LOADING]\<rparr>;
            element = q_elements q ! index;
            q = q\<lparr>q_states := (q_states q)[index := EMPTY]\<rparr>
        in Some (element, q)
      else None)"

definition do_push_any :: "'a \<Rightarrow> nat \<Rightarrow> 'a queue \<Rightarrow> 'a queue option" where
  "do_push_any element index q =
     (if q_states q ! index = EMPTY then
        let q = q\<lparr>q_states := (q_states q)[index := STORING]\<rparr>;
            q = q\<lparr>q_elements := (q_elements q)[index := element]\<rparr>;
            q = q\<lparr>q_states := (q_states q)[index := STORED]\<rparr>
        in Some q
      else None)"

definition slot :: "'a queue \<Rightarrow> u32 \<Rightarrow> nat" where
  "slot q ticket = unat (remap_index (q_bits q) (ticket mod q_size q))"

definition do_pop :: "u32 \<Rightarrow> 'a queue \<Rightarrow> ('a \<times> 'a queue) option" where
  "do_pop tail q = do_pop_any (slot q tail) q"

definition do_push :: "'a \<Rightarrow> u32 \<Rightarrow> 'a queue \<Rightarrow> 'a queue option" where
  "do_push element head q = do_push_any element (slot q head) q"

definition try_push :: "'a \<Rightarrow> 'a queue \<Rightarrow> (bool \<times> 'a queue) option" where
  "try_push element q =
     (let head = q_head q
      in if sint (head - q_tail q) \<ge> sint (q_size q) then Some (False, q)
         else map_option (Pair True) (do_push element head (q\<lparr>q_head := head + 1\<rparr>)))"

definition try_pop :: "'a queue \<Rightarrow> ('a option \<times> 'a queue) option" where
  "try_pop q =
     (let tail = q_tail q
      in if sint (q_head q - tail) \<le> 0 then Some (None, q)
         else map_option (map_prod Some id) (do_pop tail (q\<lparr>q_tail := tail + 1\<rparr>)))"

definition push :: "'a \<Rightarrow> 'a queue \<Rightarrow> 'a queue option" where
  "push element q = do_push element (q_head q) (q\<lparr>q_head := q_head q + 1\<rparr>)"

definition pop :: "'a queue \<Rightarrow> ('a \<times> 'a queue) option" where
  "pop q = do_pop (q_tail q) (q\<lparr>q_tail := q_tail q + 1\<rparr>)"

definition was_size :: "'a queue \<Rightarrow> u32" where
  "was_size q = word_of_int (max (sint (q_head q - q_tail q)) 0)"

definition was_empty :: "'a queue \<Rightarrow> bool" where
  "was_empty q \<longleftrightarrow> was_size q = 0"

text \<open>The signed bound is converted for the comparison.\<close>

definition was_full :: "'a queue \<Rightarrow> bool" where
  "was_full q \<longleftrightarrow> was_size q \<ge> q_size q"

definition capacity :: "'a queue \<Rightarrow> u32" where
  "capacity q = q_size q"

section \<open>Slots\<close>

lemma remap_bit:
  assumes "0 < b" "2 * b \<le> 32"
  shows "bit (remap_index b i) n \<longleftrightarrow> n < 32 \<and> bit i (if n < b then n + b else if n < 2 * b then n - b else n)"
proof -
  have mask: "(push_bit b 1 - 1 :: u32) = mask b" by (simp add: mask_eq_exp_minus_1 push_bit_eq_mult)
  show ?thesis
    using assms unfolding remap_index_def remap_index_with_mix_def mask
    by (auto simp: bit_simps add.commute dest: bit_imp_le_length)
qed

lemma remap_involution: "2 * b \<le> 32 \<Longrightarrow> remap_index b (remap_index b i) = i"
proof (cases "b = 0")
  case False
  assume b: "2 * b \<le> 32"
  with False show ?thesis by (intro bit_word_eqI) (auto simp: remap_bit)
qed (simp add: remap_index_def)

lemma remap_inject: "2 * b \<le> 32 \<Longrightarrow> remap_index b i = remap_index b j \<longleftrightarrow> i = j"
  by (metis remap_involution)

lemma remap_small:
  assumes "2 * b \<le> k" "k \<le> 32" "take_bit k i = i"
  shows "take_bit k (remap_index b i) = remap_index b i"
proof (cases "b = 0")
  case False
  have "n < k" if "bit i n" for n using assms(3) that by (metis bit_take_bit_iff)
  with False assms(1,2) show ?thesis by (intro bit_word_eqI) (auto simp: remap_bit bit_take_bit_iff)
qed (simp add: remap_index_def assms(3))

section \<open>The size of the ring\<close>

lemma smeared_steps:
  assumes "smeared x 2 y"
  shows "smeared x 32 (let y = y OR drop_bit 2 y; y = y OR drop_bit 4 y; y = y OR drop_bit 8 y in y OR drop_bit 16 y)"
  using assms smeared_double [of x 2] smeared_double [of x 4] smeared_double [of x 8] smeared_double [of x 16]
  by (simp add: Let_def del: drop_bit_or)

lemma or_equal_smears: "smeared x 32 (or_equal x [1, 2, 4, 8, 16])"
proof -
  have "smeared x (1 + 1) (x OR drop_bit 1 x)" by (rule smeared_double [OF smeared_1])
  then have "smeared x 2 (x OR drop_bit 1 x)" by (simp only: one_add_one)
  from smeared_steps [OF this] show ?thesis by (simp only: or_equal.simps Let_def)
qed

lemma top_bit:
  fixes x :: u32
  assumes "unat x < 2 ^ Suc k" "\<not> unat x < 2 ^ k"
  shows "bit x k"
proof -
  have "unat x div 2 ^ k = 1" using assms by (intro div_nat_eqI) auto
  then have "bit (unat x) k" by (simp add: bit_iff_odd)
  then show ?thesis by (simp add: bit_simps)
qed

lemma or_equal_mask:
  fixes x :: u32
  assumes "unat x < 2 ^ k" "k = 0 \<or> \<not> unat x < 2 ^ (k - 1)" "k \<le> 32"
  shows "or_equal x [1, 2, 4, 8, 16] = mask k"
proof (rule bit_word_eqI)
  fix n assume n: "n < LENGTH(32)"
  have "(\<exists>j<32. bit x (n + j)) \<longleftrightarrow> n < k"
  proof
    assume "\<exists>j<32. bit x (n + j)"
    then obtain j where "bit x (n + j)" by blast
    then have "bit (unat x) (n + j)" by (simp add: bit_simps)
    moreover have "take_bit k (unat x) = unat x" using assms(1) by (simp add: take_bit_nat_eq_self)
    ultimately have "n + j < k" by (metis bit_take_bit_iff)
    then show "n < k" by simp
  next
    assume nk: "n < k"
    then have "bit x (k - 1)" using assms(1,2) by (intro top_bit) simp_all
    with nk assms(3) show "\<exists>j<32. bit x (n + j)" by (intro exI [of _ "k - 1 - n"]) simp
  qed
  with or_equal_smears [of x] n show "bit (or_equal x [1, 2, 4, 8, 16]) n = bit (mask k :: u32) n"
    by (simp add: smeared_def bit_simps)
qed

text \<open>\<open>round_up_to_power_of_2\<close> is the least power of two that is not below its argument.\<close>

lemma round_up_least:
  assumes "0 < a" "a \<le> 0x80000000"
  obtains k where "k \<le> 31" "round_up_to_power_of_2 a = 2 ^ k" "unat a \<le> 2 ^ k"
    "\<And>m. unat a \<le> 2 ^ m \<Longrightarrow> k \<le> m"
proof -
  define k where "k = (LEAST k. unat (a - 1) < 2 ^ k)"
  have pred: "unat (a - 1) = unat a - 1" using assms(1) by (simp add: unat_minus_one)
  have bound: "unat a \<le> 2 ^ 31" using assms(2) by (simp add: word_le_nat_alt)
  have pos: "0 < unat a" using assms(1) by (simp add: word_less_nat_alt)
  have lt: "unat (a - 1) < 2 ^ m \<longleftrightarrow> unat a \<le> 2 ^ m" for m using pos pred by auto
  have "unat (a - 1) < 2 ^ 31" using lt bound by blast
  then have k: "unat (a - 1) < 2 ^ k" "k \<le> 31" unfolding k_def by (rule LeastI, rule Least_le)
  have least: "k \<le> m" if "unat (a - 1) < 2 ^ m" for m unfolding k_def using that by (rule Least_le)
  have "k = 0 \<or> \<not> unat (a - 1) < 2 ^ (k - 1)"
  proof (cases k)
    case (Suc j)
    then show ?thesis using least [of j] by auto
  qed simp
  then have "or_equal (a - 1) [1, 2, 4, 8, 16] = mask k" using k by (intro or_equal_mask) simp_all
  then have "round_up_to_power_of_2 a = 2 ^ k"
    by (simp add: round_up_to_power_of_2_def mask_eq_exp_minus_1)
  then show thesis using that [of k] k least lt by blast
qed

section \<open>The ring as a list\<close>

definition count :: "'a queue \<Rightarrow> nat" where
  "count q = unat (q_head q - q_tail q)"

definition contents :: "'a queue \<Rightarrow> 'a list" where
  "contents q = map (\<lambda>i. q_elements q ! slot q (q_tail q + word_of_nat i)) [0..<count q]"

text \<open>
  The size is a power of two for which the shuffled index stays inside, the elements between the
  counters are stored and all other slots are empty.
\<close>

definition ring_shape :: "nat \<Rightarrow> 'a queue \<Rightarrow> bool" where
  "ring_shape k q \<longleftrightarrow> k \<le> 30 \<and> q_size q = 2 ^ k \<and> 2 * q_bits q \<le> k
     \<and> length (q_states q) = 2 ^ k \<and> length (q_elements q) = 2 ^ k"

definition ring_inv :: "'a queue \<Rightarrow> bool" where
  "ring_inv q \<longleftrightarrow> (\<exists>k. ring_shape k q \<and> count q \<le> 2 ^ k
     \<and> (\<forall>i<2 ^ k. q_states q ! slot q (q_tail q + word_of_nat i) = (if i < count q then STORED else EMPTY)))"

lemma slot_take: "ring_shape k q \<Longrightarrow> slot q t = unat (remap_index (q_bits q) (take_bit k t))"
  by (simp add: slot_def ring_shape_def take_bit_eq_mod)

lemma slot_less:
  assumes "ring_shape k q"
  shows "slot q t < 2 ^ k"
proof -
  have "take_bit k (remap_index (q_bits q) (take_bit k t)) = remap_index (q_bits q) (take_bit k t)"
    using assms by (intro remap_small) (auto simp: ring_shape_def)
  then have "slot q t = take_bit k (unat (remap_index (q_bits q) (take_bit k t)))"
    by (metis slot_take [OF assms] unsigned_take_bit_eq)
  then show ?thesis by simp
qed

lemma slot_eq:
  assumes "ring_shape k q"
  shows "slot q t = slot q u \<longleftrightarrow> take_bit k t = take_bit k u"
proof -
  have "2 * q_bits q \<le> 32" using assms by (simp add: ring_shape_def)
  then show ?thesis by (simp add: slot_take [OF assms] remap_inject word_unat_eq_iff [symmetric])
qed

lemma unat_small:
  assumes "k \<le> 30" "i \<le> 2 ^ k"
  shows "unat (word_of_nat i :: u32) = i"
proof -
  have "(2 :: nat) ^ k \<le> 2 ^ 30" using assms(1) by (intro power_increasing) simp_all
  with assms show ?thesis by (simp add: unsigned_of_nat take_bit_nat_eq_self)
qed

lemma unat_slot_index: "ring_shape k q \<Longrightarrow> i \<le> 2 ^ k \<Longrightarrow> unat (word_of_nat i :: u32) = i"
  by (auto simp: ring_shape_def intro: unat_small)

lemma take_bit_offset:
  fixes t :: u32
  assumes "k \<le> 32"
  shows "unat (take_bit k (t + word_of_nat n)) = (unat t + n) mod 2 ^ k"
proof -
  have dvd: "(2 :: nat) ^ k dvd 2 ^ 32" using assms by (rule le_imp_power_dvd)
  have "unat (t + word_of_nat n) = (unat t + n) mod 2 ^ 32"
    by (simp add: unat_word_ariths unsigned_of_nat take_bit_eq_mod mod_simps)
  then have "unat (take_bit k (t + word_of_nat n)) = (unat t + n) mod 2 ^ 32 mod 2 ^ k"
    by (simp only: unsigned_take_bit_eq) (simp only: take_bit_eq_mod)
  then show ?thesis using dvd by (simp only: mod_mod_cancel)
qed

lemma slot_offset:
  assumes "ring_shape k q"
  shows "slot q (t + word_of_nat i) = slot q (u + word_of_nat j) \<longleftrightarrow> (unat t + i) mod 2 ^ k = (unat u + j) mod 2 ^ k"
proof -
  have "k \<le> 32" using assms by (simp add: ring_shape_def)
  then show ?thesis by (simp add: slot_eq [OF assms] word_unat_eq_iff take_bit_offset)
qed

lemma mod_add_inject:
  fixes a i j m :: nat
  assumes "i < m" "j < m"
  shows "(a + i) mod m = (a + j) mod m \<longleftrightarrow> i = j"
proof
  assume eq: "(a + i) mod m = (a + j) mod m"
  from assms eq show "i = j"
  proof (induction i j rule: linorder_wlog)
    case (le i j)
    then have "m dvd (a + j) - (a + i)" by (metis mod_eq_dvd_iff_nat add_left_mono)
    with le show ?case by (auto dest: dvd_imp_le)
  qed simp
qed simp

lemma slot_distinct:
  assumes "ring_shape k q" "i < 2 ^ k" "j < 2 ^ k"
  shows "slot q (t + word_of_nat i) = slot q (t + word_of_nat j) \<longleftrightarrow> i = j"
  using mod_add_inject [OF assms(2,3)] by (simp add: slot_offset [OF assms(1)])

lemma slot_wrap:
  assumes "ring_shape k q"
  shows "slot q (t + word_of_nat (2 ^ k + i)) = slot q (t + word_of_nat i)"
proof -
  have "(unat t + (2 ^ k + i)) mod 2 ^ k = (unat t + i) mod 2 ^ k" by (metis add.left_commute mod_add_self1)
  then show ?thesis unfolding slot_offset [OF assms] .
qed

lemma slot_cong [simp]:
  "slot (q\<lparr>q_head := h\<rparr>) = slot q" "slot (q\<lparr>q_tail := h\<rparr>) = slot q"
  "slot (q\<lparr>q_states := ss\<rparr>) = slot q" "slot (q\<lparr>q_elements := es\<rparr>) = slot q"
  by (simp_all add: slot_def fun_eq_iff)

text \<open>What the operations see of a ring in its invariant.\<close>

lemma ring_invD:
  assumes "ring_inv q"
  obtains k where "ring_shape k q" "count q \<le> 2 ^ k" "unat (q_size q) = 2 ^ k"
    "sint (q_head q - q_tail q) = int (count q)" "sint (q_size q) = 2 ^ k"
    "\<And>i. i < 2 ^ k \<Longrightarrow>
      q_states q ! slot q (q_tail q + word_of_nat i) = (if i < count q then STORED else EMPTY)"
proof -
  from assms obtain k where k: "ring_shape k q" "count q \<le> 2 ^ k"
    and st: "\<forall>i<2 ^ k. q_states q ! slot q (q_tail q + word_of_nat i) = (if i < count q then STORED else EMPTY)"
    by (auto simp: ring_inv_def)
  have small: "(2 :: nat) ^ k \<le> 2 ^ 30" using k(1) by (intro power_increasing) (simp_all add: ring_shape_def)
  have signed: "sint w = int (unat w)" if "unat w \<le> 2 ^ k" for w :: u32
  proof -
    have "unat w \<le> 2 ^ 30" using that small by (rule order_trans)
    then have "unat w < 2 ^ 31" by simp
    then have "int (unat w) < int (2 ^ 31)" by (simp only: of_nat_less_iff)
    then have "uint w < 2 ^ 31" by simp
    moreover have "- (2 ^ 31) \<le> uint w" by (rule order_trans [of _ 0]) simp_all
    ultimately have "signed_take_bit (LENGTH(32) - 1) (uint w) = uint w"
      by (intro signed_take_bit_int_eq_self) simp_all
    then show ?thesis unfolding sint_uint by simp
  qed
  have size: "unat (q_size q) = 2 ^ k"
    using k(1) unat_slot_index [of k q "2 ^ k"] by (simp add: ring_shape_def)
  show thesis
    by (rule that [of k])
      (use k st size signed [of "q_head q - q_tail q"] signed [of "q_size q"] in \<open>auto simp: count_def\<close>)
qed

lemma length_contents [simp]: "length (contents q) = count q"
  by (simp add: contents_def)

lemma head_slot: "q_head q = q_tail q + word_of_nat (count q)"
  by (simp add: count_def)

text \<open>The queue after a push, and after a pop.\<close>

definition pushed :: "'a \<Rightarrow> 'a queue \<Rightarrow> 'a queue" where
  "pushed x q = (let i = slot q (q_head q)
     in q\<lparr>q_head := q_head q + 1, q_elements := (q_elements q)[i := x], q_states := (q_states q)[i := STORED]\<rparr>)"

definition popped :: "'a queue \<Rightarrow> 'a queue" where
  "popped q = (let i = slot q (q_tail q)
     in q\<lparr>q_tail := q_tail q + 1, q_states := (q_states q)[i := EMPTY]\<rparr>)"

lemma slot_pushed [simp]: "slot (pushed x q) = slot q" and slot_popped [simp]: "slot (popped q) = slot q"
  by (simp_all add: pushed_def popped_def slot_def fun_eq_iff Let_def)

lemma ring_shape_pushed [simp]: "ring_shape k (pushed x q) = ring_shape k q"
  and ring_shape_popped [simp]: "ring_shape k (popped q) = ring_shape k q"
  by (simp_all add: pushed_def popped_def ring_shape_def Let_def)

lemma count_pushed:
  assumes "ring_shape k q" "count q < 2 ^ k"
  shows "count (pushed x q) = Suc (count q)"
proof -
  have "q_head (pushed x q) - q_tail (pushed x q) = word_of_nat (Suc (count q))"
    by (simp add: pushed_def Let_def count_def algebra_simps)
  then show ?thesis using assms unat_slot_index [of k q "Suc (count q)"] by (simp add: count_def)
qed

lemma count_popped:
  assumes "ring_shape k q" "count q = Suc n" "count q \<le> 2 ^ k"
  shows "count (popped q) = n"
proof -
  have "q_head q - q_tail q = word_of_nat (Suc n)" by (simp add: assms(2) [symmetric] count_def)
  then have "q_head (popped q) - q_tail (popped q) = word_of_nat n"
    by (simp add: popped_def Let_def algebra_simps)
  then show ?thesis using assms unat_slot_index [of k q n] by (simp add: count_def)
qed

lemma ring_inv_pushed:
  assumes "ring_inv q" "count q < unat (q_size q)"
  shows "ring_inv (pushed x q)" "contents (pushed x q) = contents q @ [x]"
proof -
  obtain k where k: "ring_shape k q" "count q < 2 ^ k" "unat (q_size q) = 2 ^ k"
    and st: "\<And>i. i < 2 ^ k \<Longrightarrow> q_states q ! slot q (q_tail q + word_of_nat i) = (if i < count q then STORED else EMPTY)"
    using ring_invD [OF assms(1)] assms(2) by metis
  have len: "slot q t < length (q_states q)" "slot q t < length (q_elements q)" for t
    using slot_less [OF k(1)] k(1) by (simp_all add: ring_shape_def)
  have i: "slot q (q_head q) = slot q (q_tail q + word_of_nat i) \<longleftrightarrow> count q = i" if "i < 2 ^ k" for i
    using slot_distinct [OF k(1) k(2) that] by (simp add: head_slot)
  have "q_states (pushed x q) ! slot q (q_tail q + word_of_nat i) = (if i < Suc (count q) then STORED else EMPTY)"
    if "i < 2 ^ k" for i
    using that st i len by (auto simp: pushed_def Let_def nth_list_update)
  moreover have tail: "q_tail (pushed x q) = q_tail q" by (simp add: pushed_def Let_def)
  ultimately show "ring_inv (pushed x q)"
    using k count_pushed [OF k(1,2), of x] by (auto simp: ring_inv_def intro!: exI [of _ k])
  have "q_elements (pushed x q) ! slot q (q_tail q + word_of_nat i)
      = (if i = count q then x else q_elements q ! slot q (q_tail q + word_of_nat i))" if "i < Suc (count q)" for i
    using that k(2) i [of i] len by (auto simp: pushed_def Let_def nth_list_update)
  then show "contents (pushed x q) = contents q @ [x]"
    unfolding contents_def count_pushed [OF k(1,2)] slot_pushed tail by simp
qed

lemma ring_inv_popped:
  assumes "ring_inv q" "count q = Suc n"
  shows "ring_inv (popped q)" "contents q = q_elements q ! slot q (q_tail q) # contents (popped q)"
proof -
  obtain k where k: "ring_shape k q" "count q \<le> 2 ^ k" "unat (q_size q) = 2 ^ k"
    and st: "\<And>i. i < 2 ^ k \<Longrightarrow> q_states q ! slot q (q_tail q + word_of_nat i) = (if i < count q then STORED else EMPTY)"
    using ring_invD [OF assms(1)] by metis
  note cnt = count_popped [OF k(1) assms(2) k(2)]
  have len: "slot q t < length (q_states q)" for t
    using slot_less [OF k(1)] k(1) by (simp add: ring_shape_def)
  have succ: "q_tail (popped q) + word_of_nat i = q_tail q + word_of_nat (Suc i)" for i
    by (simp add: popped_def Let_def algebra_simps)
  have "q_states (popped q) ! slot q (q_tail q + word_of_nat (Suc i)) = (if i < n then STORED else EMPTY)"
    if "i < 2 ^ k" for i
  proof (cases "Suc i < 2 ^ k")
    case True
    then have "slot q (q_tail q) \<noteq> slot q (q_tail q + word_of_nat (Suc i))"
      using slot_distinct [OF k(1), of 0 "Suc i" "q_tail q"] by simp
    then show ?thesis using st [OF True] assms(2) by (simp add: popped_def Let_def)
  next
    case False
    with that have last: "Suc i = 2 ^ k + 0" by simp
    have "slot q (q_tail q + word_of_nat (Suc i)) = slot q (q_tail q)"
      using slot_wrap [OF k(1), of "q_tail q" 0] unfolding last by simp
    then show ?thesis using False that len assms(2) k(2) by (simp add: popped_def Let_def)
  qed
  then show "ring_inv (popped q)"
    using k cnt assms(2) by (auto simp: ring_inv_def succ intro!: exI [of _ k])
  show "contents q = q_elements q ! slot q (q_tail q) # contents (popped q)"
    unfolding contents_def cnt assms(2) succ slot_popped
    by (simp add: upt_conv_Cons map_Suc_upt [symmetric] popped_def Let_def del: upt_Suc)
qed

text \<open>The operations of the code are these transitions, and none of them spins.\<close>

lemma do_push_pushed:
  assumes "ring_inv q" "count q < unat (q_size q)"
  shows "do_push x (q_head q) (q\<lparr>q_head := q_head q + 1\<rparr>) = Some (pushed x q)"
proof -
  obtain k where k: "count q < 2 ^ k"
    and st: "\<And>i. i < 2 ^ k \<Longrightarrow> q_states q ! slot q (q_tail q + word_of_nat i) = (if i < count q then STORED else EMPTY)"
    using ring_invD [OF assms(1)] assms(2) by metis
  have "q_states q ! slot q (q_head q) = EMPTY" using st [OF k] by (simp add: head_slot)
  then show ?thesis by (simp add: do_push_def do_push_any_def pushed_def Let_def)
qed

lemma try_push_ring:
  assumes "ring_inv q"
  shows "try_push x q = Some (if count q < unat (q_size q) then (True, pushed x q) else (False, q))"
proof -
  obtain k where k: "unat (q_size q) = 2 ^ k" "sint (q_head q - q_tail q) = int (count q)" "sint (q_size q) = 2 ^ k"
    using ring_invD [OF assms] by metis
  have "sint (q_head q - q_tail q) \<ge> sint (q_size q) \<longleftrightarrow> \<not> count q < unat (q_size q)"
    unfolding k by (simp add: not_less)
  then show ?thesis using do_push_pushed [OF assms] by (simp add: try_push_def)
qed

lemma push_ring:
  assumes "ring_inv q"
  shows "push x q = (if count q < unat (q_size q) then Some (pushed x q) else None)"
proof (cases "count q < unat (q_size q)")
  case False
  obtain k where k: "ring_shape k q" "count q = 2 ^ k" "0 < count q"
    and st: "\<And>i. i < 2 ^ k \<Longrightarrow> q_states q ! slot q (q_tail q + word_of_nat i) = (if i < count q then STORED else EMPTY)"
    using ring_invD [OF assms] False by (metis le_antisym not_le zero_less_power zero_less_numeral)
  have "slot q (q_head q) = slot q (q_tail q)"
    using slot_wrap [OF k(1), of "q_tail q" 0] by (simp add: head_slot k(2))
  then have "q_states q ! slot q (q_head q) = STORED" using st [of 0] k by simp
  with False show ?thesis by (simp add: push_def do_push_def do_push_any_def)
qed (simp add: push_def do_push_pushed [OF assms])

lemma try_pop_ring:
  assumes "ring_inv q"
  shows "try_pop q = Some (case contents q of [] \<Rightarrow> (None, q) | x # _ \<Rightarrow> (Some x, popped q))"
proof -
  obtain k where st: "\<And>i. i < 2 ^ k \<Longrightarrow> q_states q ! slot q (q_tail q + word_of_nat i) = (if i < count q then STORED else EMPTY)"
    and k: "sint (q_head q - q_tail q) = int (count q)" "count q \<le> 2 ^ k"
    using ring_invD [OF assms] by metis
  show ?thesis
  proof (cases "count q")
    case 0
    then have "contents q = []" by (simp flip: length_0_conv)
    with 0 show ?thesis by (simp add: try_pop_def k)
  next
    case (Suc n)
    then have "q_states q ! slot q (q_tail q) = STORED" using st [of 0] by simp
    with Suc ring_inv_popped(2) [OF assms Suc] show ?thesis
      by (simp add: try_pop_def k do_pop_def do_pop_any_def popped_def Let_def)
  qed
qed

lemma was_size_ring:
  assumes "ring_inv q"
  shows "unat (was_size q) = count q" "was_empty q \<longleftrightarrow> count q = 0" "was_full q \<longleftrightarrow> count q = unat (q_size q)"
proof -
  obtain k where k: "ring_shape k q" "count q \<le> 2 ^ k" "sint (q_head q - q_tail q) = int (count q)"
    "unat (q_size q) = 2 ^ k"
    using ring_invD [OF assms] by metis
  have "was_size q = word_of_nat (count q)" by (simp add: was_size_def k)
  then show size: "unat (was_size q) = count q" using unat_slot_index [OF k(1,2)] by simp
  show "was_empty q \<longleftrightarrow> count q = 0" using size by (simp add: was_empty_def unat_eq_0 [symmetric])
  show "was_full q \<longleftrightarrow> count q = unat (q_size q)"
    using size k by (auto simp: was_full_def word_le_nat_alt)
qed

section \<open>A bounded queue\<close>

text \<open>
  What a client of the queue relies on: \<open>enq\<close> answers whether there was room, \<open>deq\<close> answers with
  the oldest element, neither spins. \<open>list_ops\<close> gives the answers of a list of at most \<open>cap\<close>
  elements.
\<close>

datatype 'a queue_op = Try_push 'a | Try_pop

datatype 'a answer = Pushed bool | Popped "'a option"

fun run_ops :: "('a \<Rightarrow> 's \<Rightarrow> (bool \<times> 's) option) \<Rightarrow> ('s \<Rightarrow> ('a option \<times> 's) option) \<Rightarrow> 'a queue_op list
    \<Rightarrow> 's \<Rightarrow> ('a answer list \<times> 's) option" where
  "run_ops enq deq [] s = Some ([], s)"
| "run_ops enq deq (Try_push x # ops) s = Option.bind (enq x s)
     (\<lambda>(b, s). map_option (\<lambda>(as, s). (Pushed b # as, s)) (run_ops enq deq ops s))"
| "run_ops enq deq (Try_pop # ops) s = Option.bind (deq s)
     (\<lambda>(x, s). map_option (\<lambda>(as, s). (Popped x # as, s)) (run_ops enq deq ops s))"

fun list_ops :: "nat \<Rightarrow> 'a queue_op list \<Rightarrow> 'a list \<Rightarrow> 'a answer list \<times> 'a list" where
  "list_ops cap [] xs = ([], xs)"
| "list_ops cap (Try_push x # ops) xs =
     (if length xs < cap then apfst (Cons (Pushed True)) (list_ops cap ops (xs @ [x]))
      else apfst (Cons (Pushed False)) (list_ops cap ops xs))"
| "list_ops cap (Try_pop # ops) [] = apfst (Cons (Popped None)) (list_ops cap ops [])"
| "list_ops cap (Try_pop # ops) (x # xs) = apfst (Cons (Popped (Some x))) (list_ops cap ops xs)"

text \<open>The elements that a sequence of operations put in, and those it took out.\<close>

fun taken :: "'a queue_op list \<Rightarrow> 'a answer list \<Rightarrow> 'a list" where
  "taken (Try_push x # ops) (Pushed b # as) = (if b then x # taken ops as else taken ops as)"
| "taken (_ # ops) (_ # as) = taken ops as"
| "taken _ _ = []"

fun given :: "'a answer list \<Rightarrow> 'a list" where
  "given (Popped (Some x) # as) = x # given as"
| "given (_ # as) = given as"
| "given [] = []"

lemma list_ops_fifo: "xs @ taken ops (fst (list_ops cap ops xs)) = given (fst (list_ops cap ops xs)) @ snd (list_ops cap ops xs)"
proof (induction cap ops xs rule: list_ops.induct)
  case (2 cap x ops xs)
  then show ?case by (cases "length xs < cap") simp_all
qed simp_all

lemma list_ops_bounded: "length xs \<le> cap \<Longrightarrow> length (snd (list_ops cap ops xs)) \<le> cap"
  by (induction cap ops xs rule: list_ops.induct) auto

locale bounded_fifo =
  fixes inv :: "'s \<Rightarrow> bool"
    and elems :: "'s \<Rightarrow> 'a list"
    and cap :: "'s \<Rightarrow> nat"
    and enq :: "'a \<Rightarrow> 's \<Rightarrow> (bool \<times> 's) option"
    and deq :: "'s \<Rightarrow> ('a option \<times> 's) option"
  assumes enq_room: "inv s \<Longrightarrow> length (elems s) < cap s \<Longrightarrow>
      \<exists>s'. enq x s = Some (True, s') \<and> inv s' \<and> cap s' = cap s \<and> elems s' = elems s @ [x]"
    and enq_full: "inv s \<Longrightarrow> \<not> length (elems s) < cap s \<Longrightarrow> enq x s = Some (False, s)"
    and deq_empty: "inv s \<Longrightarrow> elems s = [] \<Longrightarrow> deq s = Some (None, s)"
    and deq_first: "inv s \<Longrightarrow> elems s = x # xs \<Longrightarrow>
      \<exists>s'. deq s = Some (Some x, s') \<and> inv s' \<and> cap s' = cap s \<and> elems s' = xs"
begin

lemma run_refines:
  "inv s \<Longrightarrow> \<exists>s'. run_ops enq deq ops s = Some (fst (list_ops (cap s) ops (elems s)), s')
     \<and> inv s' \<and> cap s' = cap s \<and> elems s' = snd (list_ops (cap s) ops (elems s))"
proof (induction ops arbitrary: s)
  case (Cons op ops)
  show ?case
  proof (cases op)
    case (Try_push x)
    show ?thesis
    proof (cases "length (elems s) < cap s")
      case True
      then obtain s1 where s1: "enq x s = Some (True, s1)" "inv s1" "cap s1 = cap s" "elems s1 = elems s @ [x]"
        using enq_room Cons.prems by blast
      from Cons.IH [OF s1(2)] s1 True show ?thesis by (auto simp: Try_push)
    next
      case False
      with Cons.IH [OF Cons.prems] enq_full [OF Cons.prems False] show ?thesis by (auto simp: Try_push)
    qed
  next
    case Try_pop
    show ?thesis
    proof (cases "elems s")
      case Nil
      with Cons.IH [OF Cons.prems] deq_empty [OF Cons.prems Nil] show ?thesis by (auto simp: Try_pop)
    next
      case (Cons x xs)
      then obtain s1 where s1: "deq s = Some (Some x, s1)" "inv s1" "cap s1 = cap s" "elems s1 = xs"
        using deq_first \<open>inv s\<close> by blast
      from Cons.IH [OF s1(2)] s1 Cons show ?thesis by (auto simp: Try_pop)
    qed
  qed
qed simp

end

interpretation ring: bounded_fifo ring_inv contents "\<lambda>q. unat (q_size q)" try_push try_pop
proof
  fix q :: "'a queue" and x :: 'a and xs :: "'a list"
  assume inv: "ring_inv q"
  have size: "q_size (pushed x q) = q_size q" "q_size (popped q) = q_size q"
    by (simp_all add: pushed_def popped_def Let_def)
  show "\<exists>q'. try_push x q = Some (True, q') \<and> ring_inv q' \<and> unat (q_size q') = unat (q_size q)
      \<and> contents q' = contents q @ [x]" if "length (contents q) < unat (q_size q)"
    using that ring_inv_pushed [OF inv] size by (auto simp: try_push_ring [OF inv])
  show "try_push x q = Some (False, q)" if "\<not> length (contents q) < unat (q_size q)"
    using that by (simp add: try_push_ring [OF inv])
  show "try_pop q = Some (None, q)" if "contents q = []"
    using that by (simp add: try_pop_ring [OF inv])
  show "\<exists>q'. try_pop q = Some (Some x, q') \<and> ring_inv q' \<and> unat (q_size q') = unat (q_size q) \<and> contents q' = xs"
    if c: "contents q = x # xs"
  proof -
    have "count q = Suc (length xs)" using c by (metis length_Cons length_contents)
    from ring_inv_popped [OF inv this] c size show ?thesis by (auto simp: try_pop_ring [OF inv])
  qed
qed

lemma ring_inv_new:
  assumes "0 < SIZE" "SIZE \<le> 0x40000000"
  shows "ring_inv (AtomicQueue2 SIZE fresh)" "contents (AtomicQueue2 SIZE fresh) = []"
proof -
  have le: "SIZE \<le> 0x80000000" using assms(2) by (simp add: word_le_nat_alt)
  obtain k where k: "round_up_to_power_of_2 SIZE = 2 ^ k" and least: "\<And>m. unat SIZE \<le> 2 ^ m \<Longrightarrow> k \<le> m"
    using round_up_least [OF assms(1) le] by metis
  have "unat SIZE \<le> 2 ^ 30" using assms(2) by (simp add: word_le_nat_alt)
  then have k30: "k \<le> 30" by (rule least)
  have len: "unat (2 ^ k :: u32) = 2 ^ k" using unat_small [OF k30, of "2 ^ k"] by simp
  have "2 * GetIndexShuffleBits True (2 ^ k) 64 \<le> k"
  proof (cases "k < 12")
    case True
    then have "(2 :: nat) ^ k < 2 ^ 12" by (intro power_strict_increasing) simp_all
    then have "(2 ^ k :: u32) < 2 ^ 12" by (simp add: word_less_nat_alt len)
    then show ?thesis by (simp add: GetIndexShuffleBits_def GetCacheLineIndexBits_def Let_def push_bit_eq_mult)
  qed (simp add: GetIndexShuffleBits_def GetCacheLineIndexBits_def Let_def)
  then have shape: "ring_shape k (AtomicQueue2 SIZE fresh)"
    using k30 by (simp add: ring_shape_def AtomicQueue2_def k len Let_def)
  have cnt: "count (AtomicQueue2 SIZE fresh) = 0" by (simp add: count_def AtomicQueue2_def Let_def)
  have "q_states (AtomicQueue2 SIZE fresh) ! slot (AtomicQueue2 SIZE fresh) t = EMPTY" for t
    using slot_less [OF shape, of t] by (simp add: AtomicQueue2_def k len Let_def)
  with shape cnt show "ring_inv (AtomicQueue2 SIZE fresh)"
    by (auto simp: ring_inv_def intro!: exI [of _ k])
  show "contents (AtomicQueue2 SIZE fresh) = []" by (simp add: contents_def cnt)
qed

text \<open>
  C23: the ring is a bounded first-in first-out queue. A new queue of any size up to \<open>2 ^ 30\<close> answers
  every sequence of \<open>try_push\<close> and \<open>try_pop\<close> as a list of at most \<open>capacity\<close> elements does, without
  spinning and however often its counters wrap around: what was taken in comes out in the same
  order, and \<open>was_size\<close>, \<open>was_empty\<close> and \<open>was_full\<close> are those of the elements still inside.
\<close>

theorem queue_refines_list:
  assumes "0 < SIZE" "SIZE \<le> 0x40000000"
    "q = AtomicQueue2 SIZE fresh"
  shows "\<exists>q'. run_ops try_push try_pop ops q = Some (fst (list_ops (unat (capacity q)) ops []), q')
    \<and> contents q' = snd (list_ops (unat (capacity q)) ops [])
    \<and> taken ops (fst (list_ops (unat (capacity q)) ops [])) = given (fst (list_ops (unat (capacity q)) ops [])) @ contents q'
    \<and> was_size q' = word_of_nat (length (contents q')) \<and> was_empty q' = (contents q' = [])
    \<and> was_full q' = (length (contents q') = unat (capacity q))"
proof -
  have new: "ring_inv q" "contents q = []" unfolding assms(3) by (fact ring_inv_new [OF assms(1,2)])+
  from ring.run_refines [OF new(1), of ops] obtain q' where
    run: "run_ops try_push try_pop ops q = Some (fst (list_ops (unat (capacity q)) ops []), q')"
    and inv: "ring_inv q'" and size: "unat (q_size q') = unat (capacity q)"
    and cs: "contents q' = snd (list_ops (unat (capacity q)) ops [])"
    by (auto simp: new(2) capacity_def)
  have "was_size q' = word_of_nat (length (contents q'))"
    by (simp flip: was_size_ring(1) [OF inv])
  moreover have "was_empty q' = (contents q' = [])"
    using was_size_ring(2) [OF inv] by (simp flip: length_0_conv)
  moreover have "was_full q' = (length (contents q') = unat (capacity q))"
    using was_size_ring(3) [OF inv] size by simp
  ultimately show ?thesis
    using run cs list_ops_fifo [of "[]" ops "unat (capacity q)"]
    by (intro exI [of _ q']) (simp del: length_contents)
qed

theorem queue_refines_list_witness:
  "map_option fst (run_ops try_push try_pop [Try_push 1, Try_push 2, Try_push 3, Try_pop, Try_pop, Try_pop]
     (AtomicQueue2 2 (0 :: nat)))
   = Some [Pushed True, Pushed True, Pushed False, Popped (Some 1), Popped (Some 2), Popped None]"
proof -
  have "capacity (AtomicQueue2 2 (0 :: nat)) = 2" by (simp add: capacity_def AtomicQueue2_def) code_simp
  with queue_refines_list [of 2 "AtomicQueue2 2 0" "0 :: nat" "[Try_push 1, Try_push 2, Try_push 3, Try_pop, Try_pop, Try_pop]"]
  show ?thesis by auto
qed

end
