(* ===== verification/Flat_Hash_Map.thy ===== *)
theory Flat_Hash_Map
  imports HT_Prelude "HOL-Library.Multiset"
begin

text \<open>
  The hash table that holds the layouts of kernel arguments (\<^verbatim>\<open>include/flat_hash_map.hpp\<close>): open
  addressing in one array, where every entry knows its distance from the slot its key hashes to
  and an insertion displaces entries that are nearer to theirs. The hash function is a parameter;
  \<open>memory\<close> is the number of entries that the allocator grants, above it \<^verbatim>\<open>allocate\<close> throws. The load
  factor is the default \<^verbatim>\<open>0.5f\<close>, for which the comparisons of doubles are exact.
\<close>

section \<open>The table\<close>

datatype table_error = Bad_alloc | Out_of_bounds | No_value | Out_of_range | Out_of_fuel

record ('k, 'v) entry =
  distance_from_desired :: int
  entry_value :: "('k \<times> 'v) option"

definition has_value :: "('k, 'v) entry \<Rightarrow> bool" where
  "has_value e \<longleftrightarrow> distance_from_desired e \<ge> 0"

definition is_empty :: "('k, 'v) entry \<Rightarrow> bool" where
  "is_empty e \<longleftrightarrow> distance_from_desired e < 0"

definition empty_entry :: "('k, 'v) entry" where
  "empty_entry = \<lparr>distance_from_desired = -1, entry_value = None\<rparr>"

definition special_end :: "('k, 'v) entry" where
  "special_end = \<lparr>distance_from_desired = 0, entry_value = None\<rparr>"

definition entry_of :: "int \<Rightarrow> 'k \<times> 'v \<Rightarrow> ('k, 'v) entry" where
  "entry_of d kv = \<lparr>distance_from_desired = d, entry_value = Some kv\<rparr>"

definition min_lookups :: int where "min_lookups = 4"

definition empty_default_table :: "('k, 'v) entry list" where
  "empty_default_table = [empty_entry, empty_entry, empty_entry, special_end]"

definition log2_table :: "nat list" where
  "log2_table =
    [63,  0, 58,  1, 59, 47, 53,  2,
     60, 39, 48, 27, 54, 33, 42,  3,
     61, 51, 37, 40, 49, 18, 28, 20,
     55, 30, 34, 11, 43, 14, 22,  4,
     62, 57, 46, 52, 38, 26, 32, 41,
     50, 36, 17, 19, 29, 10, 13, 21,
     56, 45, 25, 31, 35, 16,  9, 12,
     44, 24, 15,  8, 23,  7,  6,  5]"

definition smear64 :: "u64 \<Rightarrow> u64" where
  "smear64 x =
     (let x = x OR drop_bit 1 x; x = x OR drop_bit 2 x; x = x OR drop_bit 4 x; x = x OR drop_bit 8 x;
          x = x OR drop_bit 16 x
      in x OR drop_bit 32 x)"

definition table_log2 :: "u64 \<Rightarrow> nat" where
  "table_log2 n =
     (let n = smear64 n in log2_table ! unat (drop_bit 58 ((n - drop_bit 1 n) * 0x07EDD5E59A4E28C2)))"

definition next_power_of_two :: "u64 \<Rightarrow> u64" where
  "next_power_of_two i = smear64 (i - 1) + 1"

record ('k, 'v) table =
  entries :: "('k, 'v) entry list"
  num_slots_minus_one :: u64
  hash_shift :: nat
  max_lookups :: int
  num_elements :: u64

definition empty_table :: "('k, 'v) table" where
  "empty_table = \<lparr>entries = empty_default_table, num_slots_minus_one = 0, hash_shift = 63,
     max_lookups = min_lookups - 1, num_elements = 0\<rparr>"

text \<open>\<open>fibonacci_hash_policy\<close>.\<close>

definition index_for_hash :: "nat \<Rightarrow> u64 \<Rightarrow> nat" where
  "index_for_hash shift h = unat (drop_bit shift (11400714819323198485 * h))"

definition next_size_over :: "u64 \<Rightarrow> u64" where
  "next_size_over n = max 2 (next_power_of_two n)"

definition shift_for :: "u64 \<Rightarrow> nat" where
  "shift_for n = 64 - table_log2 n"

definition bucket_count :: "('k, 'v) table \<Rightarrow> u64" where
  "bucket_count t = (if num_slots_minus_one t \<noteq> 0 then num_slots_minus_one t + 1 else 0)"

definition compute_max_lookups :: "u64 \<Rightarrow> int" where
  "compute_max_lookups num_buckets = max min_lookups (int (table_log2 num_buckets))"

section \<open>Operations\<close>

text \<open>
  The search of \<open>find\<close> and \<open>emplace\<close> from the desired slot on: where it stops, at which distance,
  and whether the key is there.
\<close>

fun scan :: "'k \<Rightarrow> ('k, 'v) entry list \<Rightarrow> nat \<Rightarrow> int \<Rightarrow> table_error + nat \<times> int \<times> bool" where
  "scan key [] pos distance = Inl Out_of_bounds"
| "scan key (e # es) pos distance =
     (if distance_from_desired e \<ge> distance then
        (case entry_value e of
           None \<Rightarrow> Inl No_value
         | Some kv \<Rightarrow> if fst kv = key then Inr (pos, distance, True) else scan key es (pos + 1) (distance + 1))
      else Inr (pos, distance, False))"

definition search :: "('k \<Rightarrow> u64) \<Rightarrow> 'k \<Rightarrow> ('k, 'v) table \<Rightarrow> table_error + nat \<times> int \<times> bool" where
  "search hash key t =
     (let index = index_for_hash (hash_shift t) (hash key) in scan key (drop index (entries t)) index 0)"

definition end_position :: "('k, 'v) table \<Rightarrow> nat" where
  "end_position t = unat (num_slots_minus_one t) + nat (max_lookups t)"

definition find_entry :: "('k \<Rightarrow> u64) \<Rightarrow> 'k \<Rightarrow> ('k, 'v) table \<Rightarrow> table_error + nat" where
  "find_entry hash key t =
     rbind (search hash key t) (\<lambda>(pos, _, found). Inr (if found then pos else end_position t))"

definition table_at :: "('k \<Rightarrow> u64) \<Rightarrow> 'k \<Rightarrow> ('k, 'v) table \<Rightarrow> table_error + 'v" where
  "table_at hash key t =
     rbind (find_entry hash key t) (\<lambda>pos.
     if pos = end_position t then Inl Out_of_range
     else case entry_value (entries t ! pos) of None \<Rightarrow> Inl No_value | Some kv \<Rightarrow> Inr (snd kv))"

text \<open>
  The loop of \<open>emplace_new_key\<close> that carries the displaced element on: the remaining slots after it,
  and the element that is left when a distance reaches \<open>max_lookups\<close>.
\<close>

fun displace :: "int \<Rightarrow> ('k, 'v) entry list \<Rightarrow> int \<Rightarrow> 'k \<times> 'v
    \<Rightarrow> table_error + ('k, 'v) entry list \<times> ('k \<times> 'v) option" where
  "displace lookups [] distance to_insert = Inl Out_of_bounds"
| "displace lookups (e # es) distance to_insert =
     (if is_empty e then Inr (entry_of distance to_insert # es, None)
      else if distance_from_desired e < distance then
        (case entry_value e of
           None \<Rightarrow> Inl No_value
         | Some kv \<Rightarrow> rbind (displace lookups es (distance_from_desired e + 1) kv)
             (\<lambda>(es, left). Inr (entry_of distance to_insert # es, left)))
      else if distance + 1 = lookups then Inr (e # es, Some to_insert)
      else rbind (displace lookups es (distance + 1) to_insert) (\<lambda>(es, left). Inr (e # es, left)))"

text \<open>\<open>emplace\<close> of all elements of the old array, in order, is what \<open>rehash\<close> ends with.\<close>

fun reinsert :: "('k \<times> 'v \<Rightarrow> ('k, 'v) table \<Rightarrow> table_error + ('k, 'v) table) \<Rightarrow> ('k, 'v) entry list
    \<Rightarrow> ('k, 'v) table \<Rightarrow> table_error + ('k, 'v) table" where
  "reinsert ins [] t = Inr t"
| "reinsert ins (e # es) t =
     (if has_value e then
        (case entry_value e of None \<Rightarrow> Inl No_value | Some kv \<Rightarrow> rbind (ins kv t) (reinsert ins es))
      else reinsert ins es t)"

definition fresh_table :: "u64 \<Rightarrow> ('k, 'v) table" where
  "fresh_table num_buckets =
     \<lparr>entries = replicate (unat num_buckets + nat (compute_max_lookups num_buckets) - 1) empty_entry @ [special_end],
      num_slots_minus_one = num_buckets - 1, hash_shift = shift_for num_buckets,
      max_lookups = compute_max_lookups num_buckets, num_elements = 0\<rparr>"

definition rehash :: "nat \<Rightarrow> ('k \<times> 'v \<Rightarrow> ('k, 'v) table \<Rightarrow> table_error + ('k, 'v) table) \<Rightarrow> u64
    \<Rightarrow> ('k, 'v) table \<Rightarrow> table_error + ('k, 'v) table" where
  "rehash memory ins num_buckets t =
     (let num_buckets = max num_buckets (2 * num_elements t)
      in if num_buckets = 0 then Inr empty_table
         else let num_buckets = next_size_over num_buckets
         in if num_buckets = bucket_count t then Inr t
         else if unat num_buckets + nat (compute_max_lookups num_buckets) > memory then Inl Bad_alloc
         else reinsert ins (take (unat (num_slots_minus_one t) + nat (max_lookups t)) (entries t))
                (fresh_table num_buckets))"

definition grow :: "nat \<Rightarrow> ('k \<times> 'v \<Rightarrow> ('k, 'v) table \<Rightarrow> table_error + ('k, 'v) table)
    \<Rightarrow> ('k, 'v) table \<Rightarrow> table_error + ('k, 'v) table" where
  "grow memory ins t = rehash memory ins (max 4 (2 * bucket_count t)) t"

text \<open>\<open>emp\<close> is \<open>emplace\<close>, called again after \<open>grow\<close>.\<close>

definition emplace_new_key :: "nat \<Rightarrow> ('k \<times> 'v \<Rightarrow> ('k, 'v) table \<Rightarrow> table_error + nat \<times> bool \<times> ('k, 'v) table)
    \<Rightarrow> int \<Rightarrow> nat \<Rightarrow> 'k \<times> 'v \<Rightarrow> ('k, 'v) table \<Rightarrow> table_error + nat \<times> bool \<times> ('k, 'v) table" where
  "emplace_new_key memory emp distance pos to_insert t =
     (let ins = (\<lambda>kv t. rbind (emp kv t) (\<lambda>(_, _, t). Inr t));
          current = entries t ! pos
      in if num_slots_minus_one t = 0 \<or> distance = max_lookups t
            \<or> 2 * (unat (num_elements t) + 1) > unat (num_slots_minus_one t) + 1
         then rbind (grow memory ins t) (emp to_insert)
         else if is_empty current then
           Inr (pos, True, t\<lparr>entries := (entries t)[pos := entry_of distance to_insert],
             num_elements := num_elements t + 1\<rparr>)
         else (case entry_value current of
             None \<Rightarrow> Inl No_value
           | Some kv \<Rightarrow>
               rbind (displace (max_lookups t) (drop (pos + 1) (entries t)) (distance_from_desired current + 1) kv)
                 (\<lambda>(es, left). case left of
                    None \<Rightarrow> Inr (pos, True, t\<lparr>entries := take pos (entries t) @ entry_of distance to_insert # es,
                      num_elements := num_elements t + 1\<rparr>)
                  | Some left \<Rightarrow>
                      rbind (grow memory ins (t\<lparr>entries := take pos (entries t) @ entry_of distance left # es\<rparr>))
                        (emp to_insert))))"

text \<open>\<open>fuel\<close> bounds the nesting of \<open>grow\<close> and \<open>emplace\<close>; each level doubles the table.\<close>

fun emplace :: "('k \<Rightarrow> u64) \<Rightarrow> nat \<Rightarrow> nat \<Rightarrow> 'k \<times> 'v \<Rightarrow> ('k, 'v) table
    \<Rightarrow> table_error + nat \<times> bool \<times> ('k, 'v) table" where
  "emplace hash memory 0 kv t = Inl Out_of_fuel"
| "emplace hash memory (Suc fuel) kv t =
     rbind (search hash (fst kv) t) (\<lambda>(pos, distance, found).
     if found then Inr (pos, False, t)
     else emplace_new_key memory (emplace hash memory fuel) distance pos kv t)"

text \<open>\<^verbatim>\<open>t[key] = val\<close>: \<open>operator[]\<close> with the value \<open>fresh\<close> for a new key, then the assignment.\<close>

definition assign :: "('k \<Rightarrow> u64) \<Rightarrow> nat \<Rightarrow> nat \<Rightarrow> 'v \<Rightarrow> 'k \<Rightarrow> 'v \<Rightarrow> ('k, 'v) table
    \<Rightarrow> table_error + ('k, 'v) table" where
  "assign hash memory fuel fresh key val t =
     rbind (emplace hash memory fuel (key, fresh) t) (\<lambda>(pos, _, t).
     Inr (t\<lparr>entries := (entries t)[pos := (entries t ! pos)\<lparr>entry_value := Some (key, val)\<rparr>]\<rparr>))"

definition insert_or_assign :: "('k \<Rightarrow> u64) \<Rightarrow> nat \<Rightarrow> nat \<Rightarrow> 'k \<Rightarrow> 'v \<Rightarrow> ('k, 'v) table
    \<Rightarrow> table_error + ('k, 'v) table" where
  "insert_or_assign hash memory fuel key val t =
     rbind (emplace hash memory fuel (key, val) t) (\<lambda>(pos, inserted, t).
     Inr (if inserted then t
          else t\<lparr>entries := (entries t)[pos := (entries t ! pos)\<lparr>entry_value := Some (key, val)\<rparr>]\<rparr>))"

definition clear :: "('k, 'v) table \<Rightarrow> ('k, 'v) table" where
  "clear t = t\<lparr>entries := map (\<lambda>e. if has_value e then empty_entry else e)
       (take (unat (num_slots_minus_one t) + nat (max_lookups t)) (entries t))
       @ drop (unat (num_slots_minus_one t) + nat (max_lookups t)) (entries t),
     num_elements := 0\<rparr>"

text \<open>
  \<open>erase\<close> at a position: the elements behind move one slot up until one is at its desired position.
\<close>

fun shift_back :: "('k, 'v) entry list \<Rightarrow> table_error + ('k, 'v) entry list" where
  "shift_back [] = Inl Out_of_bounds"
| "shift_back [e] = Inl Out_of_bounds"
| "shift_back (current # e # es) =
     (if distance_from_desired e \<le> 0 then Inr (current # e # es)
      else rbind (shift_back (empty_entry # es))
        (\<lambda>es. Inr (e\<lparr>distance_from_desired := distance_from_desired e - 1\<rparr> # es)))"

definition erase_position :: "nat \<Rightarrow> ('k, 'v) table \<Rightarrow> table_error + ('k, 'v) table" where
  "erase_position pos t =
     rbind (shift_back (empty_entry # drop (pos + 1) (entries t)))
       (\<lambda>es. Inr (t\<lparr>entries := take pos (entries t) @ es, num_elements := num_elements t - 1\<rparr>))"

definition erase_key :: "('k \<Rightarrow> u64) \<Rightarrow> 'k \<Rightarrow> ('k, 'v) table \<Rightarrow> table_error + nat \<times> ('k, 'v) table" where
  "erase_key hash key t =
     rbind (find_entry hash key t) (\<lambda>pos.
     if pos = end_position t then Inr (0, t) else rbind (erase_position pos t) (\<lambda>t. Inr (1, t)))"

section \<open>Sizes\<close>

lemma smear64_smears: "smeared x 64 (smear64 x)"
proof -
  have "smeared x (1 + 1) (x OR drop_bit 1 x)" by (rule smeared_double [OF smeared_1])
  then have "smeared x 2 (x OR drop_bit 1 x)" by (simp only: one_add_one)
  then show ?thesis
    using smeared_double [of x 2] smeared_double [of x 4] smeared_double [of x 8] smeared_double [of x 16]
      smeared_double [of x 32]
    by (simp add: smear64_def Let_def del: drop_bit_or)
qed

lemma bit_smear64: "bit (smear64 x) n \<longleftrightarrow> (\<exists>j<64. bit x (n + j))"
  using smear64_smears by (simp add: smeared_def)

lemma smear64_power:
  assumes "k < 64"
  shows "smear64 (2 ^ k) = mask (Suc k)"
proof (rule bit_word_eqI)
  fix n assume "n < LENGTH(64)"
  with assms show "bit (smear64 (2 ^ k)) n = bit (mask (Suc k) :: u64) n"
    by (auto simp: bit_smear64 bit_simps intro!: exI [of _ "k - n"])
qed

lemma smear64_mask:
  assumes "k < 64"
  shows "smear64 (mask k) = mask k"
proof (rule bit_word_eqI)
  fix n assume "n < LENGTH(64)"
  with assms show "bit (smear64 (mask k)) n = bit (mask k :: u64) n"
    by (auto simp: bit_smear64 bit_simps intro!: exI [of _ 0])
qed

lemma next_power_of_two_power: "k < 64 \<Longrightarrow> next_power_of_two (2 ^ k) = 2 ^ k"
  by (simp add: next_power_of_two_def smear64_mask flip: mask_eq_exp_minus_1) (simp add: mask_eq_exp_minus_1)

lemma log2_table: "\<forall>k\<in>set [0..<64]. log2_table ! unat (drop_bit 58 (2 ^ k * 0x07EDD5E59A4E28C2 :: u64)) = k"
  by (simp add: upt_rec_numeral upt_from_01 log2_table_def)

lemma table_log2_power:
  assumes "k < 64"
  shows "table_log2 (2 ^ k) = k"
proof -
  have "drop_bit 1 (mask (Suc k) :: u64) = mask k"
    using assms by (intro bit_word_eqI) (auto simp: bit_simps)
  then have "mask (Suc k) - drop_bit 1 (mask (Suc k)) = (2 ^ k :: u64)"
    by (simp add: mask_eq_exp_minus_1)
  then show ?thesis using assms log2_table unfolding table_log2_def Let_def smear64_power [OF assms] by simp
qed

lemma unat_power:
  assumes "k < 64"
  shows "unat (2 ^ k :: u64) = 2 ^ k"
proof -
  have "(2 :: nat) ^ k < 2 ^ 64" using assms by (intro power_strict_increasing) simp_all
  with unat_of_nat_u64 [OF this] show ?thesis by simp
qed

lemma index_for_hash_less:
  assumes "k \<le> 64"
  shows "index_for_hash (64 - k) h < 2 ^ k"
proof -
  have "drop_bit (64 - k) (unat (11400714819323198485 * h)) < 2 ^ k"
    using assms unat_u64_less [of "11400714819323198485 * h"]
    by (simp add: drop_bit_eq_div less_mult_imp_div_less flip: power_add)
  then show ?thesis
    using unat_u64_less [of "11400714819323198485 * h"]
    by (simp add: index_for_hash_def unsigned_drop_bit_eq take_bit_nat_eq_self)
qed

section \<open>Entries\<close>

text \<open>
  The elements of a part of the array. \<open>chain ix m p prev es\<close>: from position \<open>p\<close> on, behind an entry
  at distance \<open>prev\<close>, an entry without value is empty, and the distance of every other one is that
  to its index, below \<open>m\<close> and at most one more than the distance before.
\<close>

definition vals :: "('k, 'v) entry list \<Rightarrow> ('k \<times> 'v) list" where
  "vals es = List.map_filter entry_value es"

lemma vals_simps [simp]:
  "vals [] = []" "vals (e # es) = (case entry_value e of None \<Rightarrow> vals es | Some kv \<Rightarrow> kv # vals es)"
  "vals (es @ es') = vals es @ vals es'"
  by (simp_all add: vals_def List.map_filter_def split: option.splits)

definition entry_ok :: "('k \<Rightarrow> nat) \<Rightarrow> int \<Rightarrow> nat \<Rightarrow> int \<Rightarrow> ('k, 'v) entry \<Rightarrow> bool" where
  "entry_ok ix m p prev e \<longleftrightarrow>
     (case entry_value e of
        None \<Rightarrow> distance_from_desired e = -1
      | Some kv \<Rightarrow> 0 \<le> distance_from_desired e \<and> distance_from_desired e < m
          \<and> distance_from_desired e \<le> prev + 1 \<and> int p = int (ix (fst kv)) + distance_from_desired e)"

fun chain :: "('k \<Rightarrow> nat) \<Rightarrow> int \<Rightarrow> nat \<Rightarrow> int \<Rightarrow> ('k, 'v) entry list \<Rightarrow> bool" where
  "chain ix m p prev [] \<longleftrightarrow> True"
| "chain ix m p prev (e # es) \<longleftrightarrow> entry_ok ix m p prev e \<and> chain ix m (p + 1) (distance_from_desired e) es"

fun last_distance :: "int \<Rightarrow> ('k, 'v) entry list \<Rightarrow> int" where
  "last_distance prev [] = prev"
| "last_distance prev (e # es) = last_distance (distance_from_desired e) es"

lemma chain_append:
  "chain ix m p prev (es @ es') \<longleftrightarrow> chain ix m p prev es \<and> chain ix m (p + length es) (last_distance prev es) es'"
  by (induction es arbitrary: p prev) auto

lemma chain_take: "chain ix m p prev es \<Longrightarrow> chain ix m p prev (take i es)"
  by (metis append_take_drop_id chain_append)

lemma chain_mono: "chain ix m p prev es \<Longrightarrow> prev \<le> prev' \<Longrightarrow> chain ix m p prev' es"
  by (cases es) (auto simp: entry_ok_def split: option.splits)

lemma last_distance_bound: "chain ix m p prev es \<Longrightarrow> - 1 \<le> prev \<Longrightarrow> - 1 \<le> last_distance prev es"
  by (induction es arbitrary: p prev) (auto simp: entry_ok_def split: option.splits)

text \<open>A key is not before its index, and all entries from its index on are at least as far away.\<close>

lemma chain_reaches:
  "chain ix m p prev es \<Longrightarrow> (k, v) \<in> set (vals es) \<Longrightarrow> - 1 \<le> prev \<Longrightarrow> int p \<le> int (ix k) + prev + 1"
proof (induction es arbitrary: p prev)
  case (Cons e es)
  show ?case
  proof (cases "(k, v) \<in> set (vals es)")
    case True
    from Cons.prems(1) have "- 1 \<le> distance_from_desired e" by (auto simp: entry_ok_def split: option.splits)
    with Cons.IH [of "p + 1" "distance_from_desired e"] Cons.prems(1) True
    have "int (p + 1) \<le> int (ix k) + distance_from_desired e + 1" by simp
    with Cons.prems(1,3) show ?thesis by (auto simp: entry_ok_def split: option.splits)
  next
    case False
    with Cons.prems show ?thesis by (auto simp: entry_ok_def split: option.splits)
  qed
qed simp

lemma chain_index: "chain ix m p prev es \<Longrightarrow> (k, v) \<in> set (vals es) \<Longrightarrow> ix k < p + length es"
  by (induction es arbitrary: p prev) (fastforce simp: entry_ok_def split: option.splits)+

section \<open>Searching\<close>

text \<open>\<open>n\<close> is the number of desired slots, \<open>m\<close> the limit of the distances.\<close>

lemma scan_chain:
  assumes "chain ix m p prev es" "int p = int (ix key) + d" "0 \<le> d" "d \<le> prev + 1"
    and "int (p + length es) = int n + m - 1" "ix key < n" "d \<le> m" "0 < m"
  shows "\<exists>i d' found. scan key (es @ [special_end]) p d = Inr (p + i, d', found) \<and> i \<le> length es
    \<and> int (p + i) = int (ix key) + d' \<and> d \<le> d' \<and> d' \<le> m
    \<and> (if found then i < length es \<and> (\<exists>v. entry_value (es ! i) = Some (key, v))
       else key \<notin> fst ` set (vals es) \<and> d' \<le> last_distance prev (take i es) + 1
         \<and> distance_from_desired ((es @ [special_end]) ! i) < d')"
  using assms
proof (induction es arbitrary: p prev d)
  case Nil
  then have "0 < d" by auto
  with Nil show ?case by (intro exI [of _ 0] exI [of _ d] exI [of _ False]) (auto simp: special_end_def)
next
  case (Cons e es)
  show ?case
  proof (cases "d \<le> distance_from_desired e")
    case le: True
    with Cons.prems(1,3) obtain kv where kv: "entry_value e = Some kv" and lim: "d + 1 \<le> m"
      by (auto simp: entry_ok_def split: option.splits)
    show ?thesis
    proof (cases "fst kv = key")
      case True
      with le kv Cons.prems show ?thesis
        by (intro exI [of _ 0] exI [of _ d] exI [of _ True]) (auto simp: prod_eq_iff)
    next
      case False
      from Cons.prems have "chain ix m (p + 1) (distance_from_desired e) es" "int (p + 1) = int (ix key) + (d + 1)"
        "0 \<le> d + 1" "int (p + 1 + length es) = int n + m - 1" by auto
      from Cons.IH [OF this(1-3) _ this(4)] le Cons.prems(6,8) lim obtain i d' found where
        i: "scan key (es @ [special_end]) (p + 1) (d + 1) = Inr (p + 1 + i, d', found)" "i \<le> length es"
          "int (p + 1 + i) = int (ix key) + d'" "d + 1 \<le> d'" "d' \<le> m"
        and rest: "if found then i < length es \<and> (\<exists>v. entry_value (es ! i) = Some (key, v))
          else key \<notin> fst ` set (vals es) \<and> d' \<le> last_distance (distance_from_desired e) (take i es) + 1
            \<and> distance_from_desired ((es @ [special_end]) ! i) < d'" by force
      show ?thesis
        using i rest kv False le
        by (intro exI [of _ "Suc i"] exI [of _ d'] exI [of _ found]) (auto split: if_splits)
    qed
  next
    case False
    have "key \<notin> fst ` set (vals (e # es))"
    proof
      assume "key \<in> fst ` set (vals (e # es))"
      then obtain v where "(key, v) \<in> set (vals (e # es))" by auto
      then consider "entry_value e = Some (key, v)" | "(key, v) \<in> set (vals es)" by (auto split: option.splits)
      then show False
      proof cases
        case 1
        with Cons.prems(1,2) False show ?thesis by (auto simp: entry_ok_def)
      next
        case 2
        have "- 1 \<le> distance_from_desired e" using Cons.prems(1) by (auto simp: entry_ok_def split: option.splits)
        with chain_reaches [of ix m "p + 1" "distance_from_desired e" es key v] 2 Cons.prems(1,2) False
        show ?thesis by auto
      qed
    qed
    then show ?thesis
      using False Cons.prems by (intro exI [of _ 0] exI [of _ d] exI [of _ False]) auto
  qed
qed

section \<open>Displacing\<close>

lemma displace_chain:
  assumes "chain ix m p prev es" "int p = int (ix (fst kv)) + d" "0 \<le> d" "d < m" "d \<le> prev + 1"
    and "int (p + length es) = int n + m - 1" "\<forall>k. ix k < n"
  shows "\<exists>es' left. displace m (es @ [special_end]) d kv = Inr (es' @ [special_end], left) \<and> length es' = length es
    \<and> chain ix m p prev es'
    \<and> mset (vals es') + (case left of None \<Rightarrow> {#} | Some x \<Rightarrow> {#x#}) = add_mset kv (mset (vals es))"
  using assms
proof (induction es arbitrary: p prev d kv)
  case Nil
  then have "int (ix (fst kv)) \<ge> int n" by auto
  with Nil.prems(7) show ?case by (auto simp: not_le [symmetric])
next
  case (Cons e es)
  have sum: "int (p + 1 + length es) = int n + m - 1" using Cons.prems(6) by simp
  have chain: "chain ix m (p + 1) (distance_from_desired e) es" and ok: "entry_ok ix m p prev e"
    using Cons.prems(1) by auto
  have kv_ok: "entry_ok ix m p prev (entry_of d kv)" using Cons.prems(2-5) by (auto simp: entry_ok_def entry_of_def)
  have dist [simp]: "distance_from_desired (entry_of d kv) = d" "entry_value (entry_of d kv) = Some kv"
    by (simp_all add: entry_of_def)
  show ?case
  proof (cases "entry_value e")
    case None
    with ok have "distance_from_desired e = -1" by (simp add: entry_ok_def)
    moreover from this have "chain ix m (p + 1) d es" using chain Cons.prems(3) by (auto elim: chain_mono)
    ultimately show ?thesis
      using None kv_ok by (intro exI [of _ "entry_of d kv # es"] exI [of _ None]) (simp add: is_empty_def)
  next
    case (Some x)
    with ok have e: "0 \<le> distance_from_desired e" "distance_from_desired e < m"
      "int p = int (ix (fst x)) + distance_from_desired e" by (auto simp: entry_ok_def)
    show ?thesis
    proof (cases "distance_from_desired e < d")
      case True
      from chain have "chain ix m (p + 1) d es" using True by (auto elim: chain_mono)
      from Cons.IH [OF this _ _ _ _ sum Cons.prems(7), of x "distance_from_desired e + 1"] e True Cons.prems(4)
      obtain es' left where "displace m (es @ [special_end]) (distance_from_desired e + 1) x = Inr (es' @ [special_end], left)"
        "length es' = length es" "chain ix m (p + 1) d es'"
        "mset (vals es') + (case left of None \<Rightarrow> {#} | Some x \<Rightarrow> {#x#}) = add_mset x (mset (vals es))" by auto
      with True e Some kv_ok show ?thesis
        by (intro exI [of _ "entry_of d kv # es'"] exI [of _ left]) (simp add: is_empty_def)
    next
      case False
      show ?thesis
      proof (cases "d + 1 = m")
        case True
        with False e Some Cons.prems(1) show ?thesis
          by (intro exI [of _ "e # es"] exI [of _ "Some kv"]) (simp add: is_empty_def)
      next
        case neq: False
        from Cons.IH [OF chain _ _ _ _ sum Cons.prems(7), of kv "d + 1"] False neq Cons.prems(2-4)
        obtain es' left where "displace m (es @ [special_end]) (d + 1) kv = Inr (es' @ [special_end], left)"
          "length es' = length es" "chain ix m (p + 1) (distance_from_desired e) es'"
          "mset (vals es') + (case left of None \<Rightarrow> {#} | Some x \<Rightarrow> {#x#}) = add_mset kv (mset (vals es))" by auto
        with False neq e Some ok show ?thesis
          by (intro exI [of _ "e # es'"] exI [of _ left]) (simp add: is_empty_def)
      qed
    qed
  qed
qed

end
