(* ===== verification/Hash_Table.thy ===== *)
theory Hash_Table
  imports Flat_Hash_Map
begin

text \<open>
  The hash table of \<open>Flat_Hash_Map\<close> is a finite map: the invariant of a table, what \<open>emplace\<close>
  with its displacements and the growing of the table does to the elements, and when the memory is
  enough. A level \<open>k\<close> is a table of \<open>2 ^ k\<close> slots; every nested \<open>grow\<close> is on a higher level, so that
  61 units of fuel are enough for an allocator that never grants more than \<open>2 ^ 60\<close> entries.
\<close>

section \<open>Well-formed tables\<close>

definition elements :: "('k, 'v) table \<Rightarrow> ('k \<times> 'v) list" where
  "elements t = vals (entries t)"

definition keys :: "('k, 'v) table \<Rightarrow> 'k set" where
  "keys t = fst ` set (elements t)"

definition slot_index :: "('k \<Rightarrow> u64) \<Rightarrow> nat \<Rightarrow> 'k \<Rightarrow> nat" where
  "slot_index hash k key = index_for_hash (64 - k) (hash key)"

text \<open>
  \<open>frame memory k t es\<close>: a table of \<open>2 ^ k\<close> slots with the entries \<open>es\<close>, at most half full, whose keys
  are distinct. \<open>table_ok\<close> adds the order of the entries; level 0 is the table without an array.
\<close>

definition frame :: "nat \<Rightarrow> nat \<Rightarrow> ('k, 'v) table \<Rightarrow> ('k, 'v) entry list \<Rightarrow> bool" where
  "frame memory k t es \<longleftrightarrow> 2 \<le> k \<and> k \<le> 60 \<and> num_slots_minus_one t = 2 ^ k - 1 \<and> hash_shift t = 64 - k
     \<and> max_lookups t = max 4 (int k) \<and> 2 ^ k + nat (max_lookups t) \<le> memory
     \<and> entries t = es @ [special_end] \<and> length es = 2 ^ k + nat (max_lookups t) - 1
     \<and> (\<forall>e\<in>set es. has_value e \<longleftrightarrow> entry_value e \<noteq> None) \<and> distinct (map fst (vals es))
     \<and> unat (num_elements t) = length (vals es) \<and> 2 * length (vals es) \<le> 2 ^ k"

definition table_ok :: "nat \<Rightarrow> ('k \<Rightarrow> u64) \<Rightarrow> nat \<Rightarrow> ('k, 'v) table \<Rightarrow> bool" where
  "table_ok memory hash k t \<longleftrightarrow> (k = 0 \<and> t = empty_table)
     \<or> (\<exists>es. frame memory k t es \<and> chain (slot_index hash k) (max_lookups t) 0 (- 1) es)"

text \<open>\<open>2 ^ k\<close> slots are enough for the keys \<open>S\<close>: they are half of them and hash to different slots.\<close>

definition roomy :: "nat \<Rightarrow> ('k \<Rightarrow> u64) \<Rightarrow> nat \<Rightarrow> 'k set \<Rightarrow> bool" where
  "roomy memory hash k S \<longleftrightarrow> 2 \<le> k \<and> k \<le> 60 \<and> 2 ^ k + max 4 k \<le> memory \<and> finite S
     \<and> 2 * card S \<le> 2 ^ k \<and> inj_on (slot_index hash k) S"

text \<open>
  The outcome of an operation on a table of level \<open>k\<close>: \<open>P\<close> holds of the result and its level, or the
  memory is exhausted; neither exceeds a level that is enough for the keys \<open>S\<close>.
\<close>

definition outcome :: "nat \<Rightarrow> ('k \<Rightarrow> u64) \<Rightarrow> nat \<Rightarrow> 'k set \<Rightarrow> (nat \<Rightarrow> 'a \<Rightarrow> bool) \<Rightarrow> table_error + 'a \<Rightarrow> bool" where
  "outcome memory hash k S P r \<longleftrightarrow>
     (case r of
        Inl err \<Rightarrow> err = Bad_alloc \<and> (\<forall>K. roomy memory hash K S \<longrightarrow> \<not> k \<le> K)
      | Inr x \<Rightarrow> \<exists>k'\<ge>k. (\<forall>K. roomy memory hash K S \<longrightarrow> k \<le> K \<longrightarrow> k' \<le> K) \<and> P k' x)"

lemma outcome_Inr: "P k x \<Longrightarrow> outcome memory hash k S P (Inr x)"
  by (auto simp: outcome_def)

lemma outcome_bind:
  assumes "outcome memory hash k S P r" "\<And>k' x. k \<le> k' \<Longrightarrow> P k' x \<Longrightarrow> outcome memory hash k' S Q (f x)"
  shows "outcome memory hash k S Q (rbind r f)"
proof (cases r)
  case (Inr x)
  with assms(1) obtain k' where "k \<le> k'" "\<forall>K. roomy memory hash K S \<longrightarrow> k \<le> K \<longrightarrow> k' \<le> K" "P k' x"
    by (auto simp: outcome_def)
  with assms(2) [of k' x] Inr show ?thesis
    by (cases "f x") (auto simp: outcome_def; meson order_trans)+
qed (use assms(1) in \<open>simp add: outcome_def\<close>)

lemma outcome_level:
  assumes "outcome memory hash k' S P r" "k \<le> k'" "\<And>K. roomy memory hash K S \<Longrightarrow> k \<le> K \<Longrightarrow> k' \<le> K"
  shows "outcome memory hash k S P r"
  using assms by (cases r) (auto simp: outcome_def; meson order_trans)+

lemma outcome_above: "outcome memory hash k S P r \<Longrightarrow> outcome memory hash k S (\<lambda>k' x. k \<le> k' \<and> P k' x) r"
  by (auto simp: outcome_def split: sum.splits)

lemma roomy_subset: "roomy memory hash k S \<Longrightarrow> S' \<subseteq> S \<Longrightarrow> roomy memory hash k S'"
  by (auto simp: roomy_def intro: finite_subset inj_on_subset dest: card_mono [of S S'])

lemma outcome_mono:
  assumes "outcome memory hash k S' P r" "S' \<subseteq> S" "\<And>k' x. P k' x \<Longrightarrow> Q k' x"
  shows "outcome memory hash k S Q r"
  using assms(1,3) roomy_subset [OF _ assms(2)] by (cases r) (auto simp: outcome_def)

section \<open>Searching a table\<close>

lemma last_distance_append: "last_distance prev (es @ es') = last_distance (last_distance prev es) es'"
  by (induction es arbitrary: prev) auto

lemma frame_facts:
  assumes "frame memory k t es"
  shows "k < 64" "0 < max_lookups t" "length es = end_position t" "int (length es) = int (2 ^ k) + max_lookups t - 1"
    "unat (num_slots_minus_one t) = 2 ^ k - 1" "num_slots_minus_one t \<noteq> 0" "vals (entries t) = vals es"
    "bucket_count t = 2 ^ k" "entries t = es @ [special_end]"
proof -
  from assms show k: "k < 64" and m: "0 < max_lookups t" by (auto simp: frame_def)
  have "(2 :: nat) ^ k \<ge> 2 ^ 2" using assms by (intro power_increasing) (auto simp: frame_def)
  moreover have "unat (2 ^ k - 1 :: u64) = 2 ^ k - 1"
    using unat_of_nat_u64 [of "2 ^ k - 1"] k power_strict_increasing [OF k, of "2 :: nat"]
    by (simp add: of_nat_diff)
  ultimately show n: "unat (num_slots_minus_one t) = 2 ^ k - 1" and "num_slots_minus_one t \<noteq> 0"
    and "length es = end_position t" and "int (length es) = int (2 ^ k) + max_lookups t - 1"
    using assms m by (auto simp: frame_def end_position_def)
  then show "bucket_count t = 2 ^ k" using assms by (simp add: bucket_count_def frame_def)
  show "entries t = es @ [special_end]" using assms by (simp add: frame_def)
  then show "vals (entries t) = vals es" by (simp add: special_end_def)
qed

lemma search_frame:
  assumes "frame memory k t es" "chain (slot_index hash k) (max_lookups t) 0 (- 1) es"
  shows "\<exists>pos d found. search hash key t = Inr (pos, d, found) \<and> pos \<le> length es
    \<and> int pos = int (slot_index hash k key) + d \<and> 0 \<le> d \<and> d \<le> max_lookups t
    \<and> (if found then pos < length es \<and> (\<exists>v. entry_value (es ! pos) = Some (key, v))
       else key \<notin> keys t \<and> d \<le> last_distance (- 1) (take pos es) + 1
         \<and> distance_from_desired ((es @ [special_end]) ! pos) < d)"
proof -
  let ?i = "slot_index hash k key" and ?m = "max_lookups t"
  note f = frame_facts [OF assms(1)]
  have index: "index_for_hash (hash_shift t) (hash key) = ?i" using assms(1) by (simp add: slot_index_def frame_def)
  have i: "?i < 2 ^ k" using f(1) by (simp add: slot_index_def index_for_hash_less)
  then have le: "?i \<le> length es" using f(2,4) by linarith
  have split: "es = take ?i es @ drop ?i es" by simp
  have parts: "chain (slot_index hash k) ?m 0 (- 1) (take ?i es)"
    "chain (slot_index hash k) ?m ?i (last_distance (- 1) (take ?i es)) (drop ?i es)"
    using assms(2) le unfolding atomize_conj by (subst (asm) split, subst (asm) chain_append) simp
  have before: "key \<notin> fst ` set (vals (take ?i es))"
    using chain_index [OF parts(1), of key] le by fastforce
  have "- 1 \<le> last_distance (- 1) (take ?i es)" using last_distance_bound [OF parts(1)] by simp
  then obtain i d' found where s: "scan key (drop ?i es @ [special_end]) ?i 0 = Inr (?i + i, d', found)"
      "i \<le> length (drop ?i es)" "int (?i + i) = int ?i + d'" "0 \<le> d'" "d' \<le> ?m"
    and r: "if found then i < length (drop ?i es) \<and> (\<exists>v. entry_value (drop ?i es ! i) = Some (key, v))
       else key \<notin> fst ` set (vals (drop ?i es))
         \<and> d' \<le> last_distance (last_distance (- 1) (take ?i es)) (take i (drop ?i es)) + 1
         \<and> distance_from_desired ((drop ?i es @ [special_end]) ! i) < d'"
    using scan_chain [OF parts(2), of key 0 "2 ^ k"] i le f(2,4) by auto
  have "search hash key t = Inr (?i + i, d', found)"
    using s(1) le unfolding search_def Let_def index f(9) by simp
  moreover have "last_distance (last_distance (- 1) (take ?i es)) (take i (drop ?i es)) = last_distance (- 1) (take (?i + i) es)"
    by (simp add: take_add flip: last_distance_append)
  moreover have "key \<notin> keys t" if "key \<notin> fst ` set (vals (drop ?i es))"
  proof -
    have "vals es = vals (take ?i es) @ vals (drop ?i es)" by (metis append_take_drop_id vals_simps(3))
    with that before f(7) show ?thesis by (auto simp: keys_def elements_def)
  qed
  moreover have "(drop ?i es @ [special_end]) ! i = (es @ [special_end]) ! (?i + i)"
    using s(2) le by (simp add: nth_append)
  ultimately show ?thesis
    using s r le by (intro exI [of _ "?i + i"] exI [of _ d'] exI [of _ found]) (auto split: if_splits)
qed

lemma search_empty: "\<exists>pos. search hash key empty_table = Inr (pos, 0, False) \<and> pos < 2"
proof -
  define i where "i = index_for_hash 63 (hash key)"
  have "i < 2" using index_for_hash_less [of 1 "hash key"] by (simp add: i_def)
  then consider "i = 0" | "i = 1" by linarith
  then show ?thesis
    by cases (simp_all add: search_def empty_table_def empty_default_table_def empty_entry_def flip: i_def)
qed

lemma empty_facts: "elements empty_table = []" "keys empty_table = {}" "end_position empty_table = 3"
  by (simp_all add: elements_def keys_def empty_table_def empty_default_table_def empty_entry_def special_end_def
      end_position_def min_lookups_def)

section \<open>Looking up\<close>

lemma map_of_vals:
  assumes "distinct (map fst (vals es))" "i < length es" "entry_value (es ! i) = Some (key, v)"
  shows "map_of (vals es) key = Some v"
proof -
  have "es = take i es @ es ! i # drop (Suc i) es" using assms(2) by (simp add: id_take_nth_drop)
  then have "(key, v) \<in> set (vals es)" using assms(3) by (metis in_set_conv_decomp option.simps(5) vals_simps(2,3))
  with assms(1) show ?thesis by (simp add: map_of_eq_Some_iff)
qed

lemma table_at_correct:
  assumes "table_ok memory hash k t"
  shows "table_at hash key t = (case map_of (elements t) key of None \<Rightarrow> Inl Out_of_range | Some v \<Rightarrow> Inr v)"
proof (cases "t = empty_table")
  case True
  obtain pos where "search hash key t = Inr (pos, 0, False)" using search_empty [of hash key] True by blast
  with True show ?thesis by (simp add: table_at_def find_entry_def empty_facts)
next
  case False
  with assms obtain es where es: "frame memory k t es" "chain (slot_index hash k) (max_lookups t) 0 (- 1) es"
    by (auto simp: table_ok_def)
  note f = frame_facts [OF es(1)]
  obtain pos d found where s: "search hash key t = Inr (pos, d, found)"
    and r: "if found then pos < length es \<and> (\<exists>v. entry_value (es ! pos) = Some (key, v)) else key \<notin> keys t"
    using search_frame [OF es, of key] by (metis (mono_tags, lifting))
  show ?thesis
  proof (cases found)
    case True
    with r obtain v where v: "pos < length es" "entry_value (es ! pos) = Some (key, v)" by auto
    moreover have "map_of (elements t) key = Some v"
      using map_of_vals [OF _ v] es(1) by (simp add: elements_def f(7)) (simp add: frame_def)
    ultimately show ?thesis using True s f(3,9) by (simp add: table_at_def find_entry_def nth_append)
  next
    case False
    with r have "map_of (elements t) key = None" by (simp add: keys_def map_of_eq_None_iff)
    with False s show ?thesis by (simp add: table_at_def find_entry_def)
  qed
qed

section \<open>Growing\<close>

definition placed :: "nat \<Rightarrow> ('k \<Rightarrow> u64) \<Rightarrow> 'k \<times> 'v \<Rightarrow> ('k, 'v) table \<Rightarrow> nat \<Rightarrow> nat \<times> bool \<times> ('k, 'v) table \<Rightarrow> bool" where
  "placed memory hash kv t k' = (\<lambda>(pos, inserted, t').
     table_ok memory hash k' t' \<and> pos < end_position t' \<and> (\<exists>v. entry_value (entries t' ! pos) = Some (fst kv, v))
     \<and> (if fst kv \<in> keys t then \<not> inserted \<and> t' = t
        else inserted \<and> mset (elements t') = add_mset kv (mset (elements t))))"

lemma keys_mset: "mset (elements t') = mset xs \<Longrightarrow> keys t' = fst ` set xs"
  by (metis keys_def set_mset_mset)

lemma fresh_table_ok:
  assumes "2 \<le> k" "k \<le> 60" "2 ^ k + max 4 k \<le> memory"
  shows "table_ok memory (hash :: 'a \<Rightarrow> u64) k (fresh_table (2 ^ k) :: ('a, 'b) table)"
    and "elements (fresh_table (2 ^ k) :: ('a, 'b) table) = []"
proof -
  let ?es = "replicate (2 ^ k + max 4 k - 1) (empty_entry :: ('a, 'b) entry)" and ?t = "fresh_table (2 ^ k) :: ('a, 'b) table"
  have log: "table_log2 (2 ^ k) = k" using assms by (simp add: table_log2_power)
  have m: "compute_max_lookups (2 ^ k) = max 4 (int k)" "nat (max 4 (int k)) = max 4 k"
    by (auto simp: compute_max_lookups_def min_lookups_def log)
  have vals: "vals (replicate n (empty_entry :: ('a, 'b) entry)) = []" for n
    by (induction n) (simp_all add: empty_entry_def)
  have chain: "chain ix l p (- 1) (replicate n (empty_entry :: ('a, 'b) entry))" for ix l p n
    by (induction n arbitrary: p) (simp_all add: entry_ok_def empty_entry_def)
  have "\<not> has_value (empty_entry :: ('a, 'b) entry)" "entry_value (empty_entry :: ('a, 'b) entry) = None"
    by (simp_all add: empty_entry_def has_value_def)
  then have "frame memory k ?t ?es"
    using assms unat_power [of k] by (auto simp: frame_def fresh_table_def m shift_for_def log vals)
  moreover have "max_lookups ?t = max 4 (int k)" by (simp add: fresh_table_def m)
  ultimately show "table_ok memory hash k ?t" unfolding table_ok_def by (intro disjI2 exI [of _ ?es] conjI chain)
  show "elements ?t = []"
    by (simp add: elements_def fresh_table_def vals special_end_def)
qed

text \<open>What \<open>emplace\<close> does, for the tables of a level from which it is called again.\<close>

definition emplaces :: "nat \<Rightarrow> ('k \<Rightarrow> u64) \<Rightarrow> ('k \<times> 'v \<Rightarrow> ('k, 'v) table \<Rightarrow> table_error + nat \<times> bool \<times> ('k, 'v) table)
    \<Rightarrow> nat \<Rightarrow> bool" where
  "emplaces memory hash emp k \<longleftrightarrow> (\<forall>k'\<ge>k. \<forall>t kv. table_ok memory hash k' t \<longrightarrow>
     outcome memory hash k' (insert (fst kv) (keys t)) (placed memory hash kv t) (emp kv t))"

lemma emplacesD:
  "emplaces memory hash emp k \<Longrightarrow> k \<le> k' \<Longrightarrow> table_ok memory hash k' t \<Longrightarrow>
    outcome memory hash k' (insert (fst kv) (keys t)) (placed memory hash kv t) (emp kv t)"
  unfolding emplaces_def by blast

lemma reinsert_outcome:
  assumes "emplaces memory hash emp k0" "k0 \<le> k" "table_ok memory hash k t"
    and "\<forall>e\<in>set es. has_value e \<longleftrightarrow> entry_value e \<noteq> None" "distinct (map fst (vals es))"
    and "fst ` set (vals es) \<inter> keys t = {}" "fst ` set (vals es) \<union> keys t \<subseteq> S"
  shows "outcome memory hash k S (\<lambda>k' t'. table_ok memory hash k' t' \<and> mset (elements t') = mset (vals es) + mset (elements t))
    (reinsert (\<lambda>kv t. rbind (emp kv t) (\<lambda>(_, _, t). Inr t)) es t)"
  using assms(2-)
proof (induction es arbitrary: k t)
  case Nil
  then show ?case by (simp add: outcome_Inr)
next
  case (Cons e es)
  show ?case
  proof (cases "entry_value e")
    case None
    with Cons.prems have "\<not> has_value e" by simp
    with Cons.IH [OF Cons.prems(1,2)] Cons.prems None show ?thesis by simp
  next
    case (Some kv)
    with Cons.prems have hv: "has_value e" and new: "fst kv \<notin> keys t" and S: "insert (fst kv) (keys t) \<subseteq> S" by auto
    have "outcome memory hash k S (\<lambda>k1 t1. table_ok memory hash k1 t1 \<and> mset (elements t1) = add_mset kv (mset (elements t)))
        (rbind (emp kv t) (\<lambda>(_, _, t). Inr t))"
    proof (rule outcome_bind)
      show "outcome memory hash k S (placed memory hash kv t) (emp kv t)"
        by (rule outcome_mono [OF emplacesD [OF assms(1) Cons.prems(1,2)] S])
    qed (use new in \<open>auto simp: placed_def intro!: outcome_Inr\<close>)
    then have "outcome memory hash k S
        (\<lambda>k' t'. table_ok memory hash k' t' \<and> mset (elements t') = mset (vals (e # es)) + mset (elements t))
        (rbind (rbind (emp kv t) (\<lambda>(_, _, t). Inr t)) (reinsert (\<lambda>kv t. rbind (emp kv t) (\<lambda>(_, _, t). Inr t)) es))"
    proof (rule outcome_bind)
      fix k1 t1
      assume k1: "k \<le> k1" and t1: "table_ok memory hash k1 t1 \<and> mset (elements t1) = add_mset kv (mset (elements t))"
      then have keys: "keys t1 = insert (fst kv) (keys t)" using keys_mset [of t1 "kv # elements t"] by (simp add: keys_def)
      have "outcome memory hash k1 S
          (\<lambda>k' t'. table_ok memory hash k' t' \<and> mset (elements t') = mset (vals es) + mset (elements t1))
          (reinsert (\<lambda>kv t. rbind (emp kv t) (\<lambda>(_, _, t). Inr t)) es t1)"
        using Cons.prems k1 t1 keys Some by (intro Cons.IH) auto
      then show "outcome memory hash k1 S
          (\<lambda>k' t'. table_ok memory hash k' t' \<and> mset (elements t') = mset (vals (e # es)) + mset (elements t))
          (reinsert (\<lambda>kv t. rbind (emp kv t) (\<lambda>(_, _, t). Inr t)) es t1)"
        by (rule outcome_mono) (use t1 Some in auto)
    qed
    with hv Some show ?thesis by simp
  qed
qed

text \<open>The level after \<open>grow\<close>, and when growing is justified.\<close>

definition next_level :: "nat \<Rightarrow> nat" where
  "next_level k = (if k = 0 then 2 else k + 1)"

lemma grow_size:
  assumes "(k = 0 \<and> t = empty_table) \<or> frame memory k t es" "k \<le> 60"
  shows "next_size_over (max (max 4 (2 * bucket_count t)) (2 * num_elements t)) = 2 ^ next_level k"
    and "2 ^ next_level k \<noteq> bucket_count t" "max (max 4 (2 * bucket_count t)) (2 * num_elements t) \<noteq> 0"
proof -
  have pow: "next_size_over (2 ^ j) = 2 ^ j" if "2 \<le> j" "j \<le> 61" for j
  proof -
    have "(2 :: nat) ^ 1 \<le> 2 ^ j" using that by (intro power_increasing) simp_all
    then have "(2 :: u64) \<le> 2 ^ j" using that unat_power [of j] by (simp add: word_le_nat_alt)
    with that show ?thesis by (simp add: next_size_over_def next_power_of_two_power max_def)
  qed
  have max: "max (max 4 (2 * bucket_count t)) (2 * num_elements t) = 2 ^ next_level k"
  proof (cases "k = 0")
    case True
    with assms(1) have "t = empty_table" by (auto simp: frame_def)
    with True show ?thesis by (simp add: empty_table_def bucket_count_def next_level_def)
  next
    case False
    with assms(1) have f: "frame memory k t es" by auto
    then have b: "bucket_count t = 2 ^ k" and "2 \<le> k" "2 * unat (num_elements t) \<le> 2 ^ k"
      using frame_facts(8) [OF f] by (auto simp: frame_def)
    have "(2 :: nat) ^ 2 \<le> 2 ^ Suc k" using \<open>2 \<le> k\<close> by (intro power_increasing) simp_all
    moreover have "(2 :: nat) ^ Suc k < 2 ^ 64" using assms(2) by (intro power_strict_increasing) simp_all
    moreover have p: "unat (2 ^ Suc k :: u64) = 2 ^ Suc k" using assms(2) by (intro unat_power) simp
    moreover have "unat (2 * num_elements t) = 2 * unat (num_elements t)"
      using \<open>2 * unat _ \<le> _\<close> \<open>2 ^ Suc k < 2 ^ 64\<close> by (simp add: unat_mult_lem [THEN iffD1] unat_word_ariths)
    ultimately have "(4 :: u64) \<le> 2 ^ Suc k" "2 * num_elements t \<le> 2 ^ Suc k"
      using \<open>2 * unat _ \<le> _\<close> by (auto simp: word_le_nat_alt)
    moreover have "2 * bucket_count t = 2 ^ Suc k" by (simp add: b)
    ultimately show ?thesis using False by (simp add: next_level_def max_def)
  qed
  have lev: "2 \<le> next_level k" "next_level k \<le> 61" using assms(2) by (auto simp: next_level_def)
  show "next_size_over (max (max 4 (2 * bucket_count t)) (2 * num_elements t)) = 2 ^ next_level k"
    unfolding max by (rule pow [OF lev])
  show "max (max 4 (2 * bucket_count t)) (2 * num_elements t) \<noteq> 0"
  proof -
    have "unat (2 ^ next_level k :: u64) \<noteq> 0" using unat_power [of "next_level k"] lev by simp
    then show ?thesis unfolding max by (metis unat_0)
  qed
  show "2 ^ next_level k \<noteq> bucket_count t"
  proof (cases "k = 0")
    case True
    with assms(1) have "bucket_count t = 0" by (auto simp: frame_def empty_table_def bucket_count_def)
    with True show ?thesis by (simp add: next_level_def)
  next
    case False
    with assms(1) have "bucket_count t = 2 ^ k" using frame_facts(8) by blast
    moreover have "unat (2 ^ Suc k :: u64) \<noteq> unat (2 ^ k :: u64)"
      using assms(2) unat_power [of k] unat_power [of "Suc k"] by simp
    ultimately show ?thesis using False unfolding next_level_def by (metis Suc_eq_plus1)
  qed
qed

lemma grow_outcome:
  fixes t :: "('k, 'v) table"
  assumes "(k = 0 \<and> t = empty_table) \<or> frame memory k t es" "memory \<le> 2 ^ 60"
    and "emplaces memory hash emp (Suc k)" "keys t \<subseteq> S" "\<And>K. roomy memory hash K S \<Longrightarrow> k \<le> K \<Longrightarrow> k < K"
  shows "outcome memory hash k S (\<lambda>k' t'. k < k' \<and> table_ok memory hash k' t' \<and> mset (elements t') = mset (elements t))
    (grow memory (\<lambda>kv t. rbind (emp kv t) (\<lambda>(_, _, t). Inr t)) t)"
proof -
  let ?k = "next_level k" and ?fresh = "fresh_table (2 ^ next_level k) :: ('k, 'v) table" and ?ins = "\<lambda>kv t. rbind (emp kv t) (\<lambda>(_, _, t). Inr t)"
  let ?old = "take (unat (num_slots_minus_one t) + nat (max_lookups t)) (entries t)"
  have k60: "k \<le> 60" using assms(1) by (auto simp: frame_def)
  have level: "k < ?k" "2 \<le> ?k" "?k < 64" using k60 by (auto simp: next_level_def)
  have up: "?k \<le> K" if "roomy memory hash K S" "k \<le> K" for K
    using assms(5) [OF that] that(1) by (auto simp: next_level_def roomy_def)
  have old: "(\<forall>e\<in>set ?old. has_value e \<longleftrightarrow> entry_value e \<noteq> None) \<and> vals ?old = elements t \<and> distinct (map fst (elements t))"
  proof (cases "k = 0")
    case True
    with assms(1) have "t = empty_table" by (auto simp: frame_def)
    then show ?thesis
      by (simp add: elements_def empty_table_def empty_default_table_def empty_entry_def special_end_def has_value_def
          min_lookups_def)
  next
    case False
    with assms(1) have f: "frame memory k t es" by auto
    have "?old = es" using frame_facts(3,9) [OF f] by (simp add: end_position_def)
    then show ?thesis using f frame_facts(7) [OF f] by (auto simp: frame_def elements_def)
  qed
  have lookups: "nat (compute_max_lookups (2 ^ ?k)) = max 4 ?k"
    using level by (simp add: compute_max_lookups_def min_lookups_def table_log2_power max_def)
  have grow: "grow memory ?ins t = (if 2 ^ ?k + max 4 ?k > memory then Inl Bad_alloc else reinsert ?ins ?old ?fresh)"
    using grow_size [OF assms(1) k60] level(3)
    by (simp add: grow_def rehash_def Let_def lookups unat_power del: max_less_iff_conj)
  show ?thesis
  proof (cases "2 ^ ?k + max 4 ?k > memory")
    case True
    have "\<not> k \<le> K" if K: "roomy memory hash K S" for K
    proof
      assume "k \<le> K"
      with up K have "?k \<le> K" by blast
      then have "(2 :: nat) ^ ?k + max 4 ?k \<le> 2 ^ K + max 4 K" by (intro add_mono power_increasing) auto
      with True K show False by (simp add: roomy_def)
    qed
    with True show ?thesis by (simp add: grow outcome_def)
  next
    case False
    then have "(2 :: nat) ^ ?k \<le> 2 ^ 60" using assms(2) by linarith
    then have "?k \<le> 60" by (rule power_le_imp_le_exp [rotated]) simp
    with False level have fresh: "table_ok memory hash ?k ?fresh" "elements ?fresh = []"
      by (auto intro: fresh_table_ok)
    have "outcome memory hash ?k S (\<lambda>k' t'. table_ok memory hash k' t' \<and> mset (elements t') = mset (vals ?old)
        + mset (elements ?fresh)) (reinsert ?ins ?old ?fresh)"
    proof (rule reinsert_outcome [OF assms(3) _ fresh(1)])
      show "fst ` set (vals ?old) \<union> keys ?fresh \<subseteq> S" "fst ` set (vals ?old) \<inter> keys ?fresh = {}"
        using old fresh(2) assms(4) by (simp_all add: keys_def)
    qed (use old level in simp_all)
    then have "outcome memory hash ?k S (\<lambda>k' t'. k < k' \<and> table_ok memory hash k' t' \<and> mset (elements t') = mset (elements t))
        (reinsert ?ins ?old ?fresh)"
      by (rule outcome_mono [OF outcome_above]) (use old fresh(2) level in auto)
    from outcome_level [OF this _ up] level(1) False show ?thesis by (simp add: grow)
  qed
qed

section \<open>Inserting\<close>

text \<open>When every key has a slot of its own, every element is in it.\<close>

lemma chain_limit: "chain ix m p prev es \<Longrightarrow> m \<le> m' \<Longrightarrow> chain ix m' p prev es"
  by (induction es arbitrary: p prev) (auto simp: entry_ok_def split: option.splits)

lemma chain_home:
  assumes "chain ix m p prev es" "prev \<le> 0" "inj_on ix (fst ` set (vals es))" "distinct (map fst (vals es))"
    and "prev = 0 \<Longrightarrow> \<forall>k\<in>fst ` set (vals es). Suc (ix k) \<noteq> p" "e \<in> set es"
  shows "distance_from_desired e \<le> 0"
  using assms
proof (induction es arbitrary: p prev)
  case (Cons x es)
  show ?case
  proof (cases "entry_value x")
    case None
    with Cons.prems(1) have x: "distance_from_desired x = -1" and rest: "chain ix m (p + 1) (- 1) es"
      by (auto simp: entry_ok_def)
    have "distance_from_desired e \<le> 0" if "e \<in> set es"
      using Cons.prems(3,4) None that by (intro Cons.IH [OF rest]) simp_all
    with x Cons.prems(6) show ?thesis by auto
  next
    case (Some kv)
    with Cons.prems(1) have x: "0 \<le> distance_from_desired x" "distance_from_desired x \<le> prev + 1"
      "int p = int (ix (fst kv)) + distance_from_desired x" and rest: "chain ix m (p + 1) (distance_from_desired x) es"
      by (auto simp: entry_ok_def)
    have "distance_from_desired x \<noteq> 1" using x Cons.prems(2,5) Some by fastforce
    with x Cons.prems(2) have zero: "distance_from_desired x = 0" by linarith
    have others: "\<forall>k\<in>fst ` set (vals es). Suc (ix k) \<noteq> p + 1"
    proof
      fix k assume k: "k \<in> fst ` set (vals es)"
      have "fst kv \<notin> fst ` set (vals es)" using Cons.prems(4) Some by simp
      with k have "k \<noteq> fst kv" by metis
      with k Cons.prems(3) Some have "ix k \<noteq> ix (fst kv)" by (simp add: inj_on_def) blast
      with x(3) zero show "Suc (ix k) \<noteq> p + 1" by simp
    qed
    have "distance_from_desired e \<le> 0" if e: "e \<in> set es"
    proof (rule Cons.IH [OF rest _ _ _ _ e])
      show "inj_on ix (fst ` set (vals es))" "distinct (map fst (vals es))"
        using Cons.prems(3,4) Some by simp_all
      show "distance_from_desired x \<le> 0" using zero by simp
      show "\<forall>k\<in>fst ` set (vals es). Suc (ix k) \<noteq> p + 1" by (rule others)
    qed
    with zero Cons.prems(6) show ?thesis by auto
  qed
qed simp

lemma roomy_home:
  assumes "roomy memory hash k S" "insert key (fst ` set (vals es)) \<subseteq> S" "key \<notin> fst ` set (vals es)"
    and "distinct (map fst (vals es))" "chain (slot_index hash k) m 0 (- 1) (take pos es)"
    and "int pos = int (slot_index hash k key) + d" "0 \<le> d" "d \<le> m" "d \<le> last_distance (- 1) (take pos es) + 1"
    and "pos \<le> length es"
  shows "d = 0"
proof -
  let ?es = "take pos es @ [entry_of d (key, undefined)]"
  have sub: "set (vals (take pos es)) \<subseteq> set (vals es)" and dis: "distinct (map fst (vals (take pos es)))"
    using assms(4) by (metis append_take_drop_id le_sup_iff order_refl set_append vals_simps(3))
      (metis append_take_drop_id assms(4) distinct_append map_append vals_simps(3))
  have chain: "chain (slot_index hash k) (m + 1) 0 (- 1) ?es"
    using chain_limit [OF assms(5), of "m + 1"] assms(6-10) by (simp add: chain_append entry_ok_def entry_of_def)
  have "fst ` set (vals ?es) \<subseteq> S" using assms(2) sub by (auto simp: entry_of_def)
  then have inj: "inj_on (slot_index hash k) (fst ` set (vals ?es))"
    using assms(1) by (auto simp: roomy_def intro: inj_on_subset)
  have "distinct (map fst (vals ?es))"
    using dis sub assms(3) by (auto simp: entry_of_def)
  from chain_home [OF chain _ inj this, of "entry_of d (key, undefined)"] assms(7)
  show ?thesis by (simp add: entry_of_def)
qed

lemma no_room:
  assumes "frame memory k t es" "roomy memory hash k (insert key (keys t))" "key \<notin> keys t"
  shows "2 * (length (vals es) + 1) \<le> 2 ^ k"
proof -
  have "card (keys t) = length (vals es)"
    using assms(1) frame_facts(7) [OF assms(1)] distinct_card [of "map fst (vals es)"]
    by (simp add: keys_def elements_def frame_def)
  then show ?thesis using assms(2,3) by (auto simp: roomy_def card_insert_if)
qed

text \<open>One step of \<open>emplace\<close>, given what the calls after \<open>grow\<close> do.\<close>

lemma emplace_new_key_grown:
  assumes "outcome memory hash k S (\<lambda>k' t'. k < k' \<and> table_ok memory hash k' t' \<and> mset (elements t') = mset (elements t)) r"
    and "emplaces memory hash emp (Suc k)" "fst kv \<notin> keys t" "S = insert (fst kv) (keys t)"
  shows "outcome memory hash k S (placed memory hash kv t) (rbind r (emp kv))"
  using assms(1)
proof (rule outcome_bind)
  fix k1 t1
  assume t1: "k < k1 \<and> table_ok memory hash k1 t1 \<and> mset (elements t1) = mset (elements t)"
  then have "keys t1 = keys t" using keys_mset [of t1 "elements t"] by (simp add: keys_def)
  then have "outcome memory hash k1 S (placed memory hash kv t1) (emp kv t1)"
    using emplacesD [OF assms(2), of k1 t1 kv] t1 assms(4) by simp
  then show "outcome memory hash k1 S (placed memory hash kv t) (emp kv t1)"
  proof (rule outcome_mono)
    fix k' x
    assume "placed memory hash kv t1 k' x"
    with t1 assms(3) \<open>keys t1 = keys t\<close> show "placed memory hash kv t k' x"
      by (cases x) (simp add: placed_def)
  qed simp
qed

lemma chain_wf: "chain ix m p prev es \<Longrightarrow> \<forall>e\<in>set es. has_value e \<longleftrightarrow> entry_value e \<noteq> None"
  by (induction es arbitrary: p prev) (auto simp: entry_ok_def has_value_def split: option.splits)

lemma frame_entries:
  assumes "frame memory k t es" "length es' = length es" "distinct (map fst (vals es'))"
    and "unat n = length (vals es')" "2 * length (vals es') \<le> 2 ^ k"
    and "\<forall>e\<in>set es'. has_value e \<longleftrightarrow> entry_value e \<noteq> None"
  shows "frame memory k (t\<lparr>entries := es' @ [special_end], num_elements := n\<rparr>) es'"
  using assms by (auto simp: frame_def)

lemma frame_replace:
  assumes "frame memory k t es" "length es' = length es" "mset (vals es') = mset (vals es)"
    and "\<forall>e\<in>set es'. has_value e \<longleftrightarrow> entry_value e \<noteq> None"
  shows "frame memory k (t\<lparr>entries := es' @ [special_end]\<rparr>) es'"
    and "mset (elements (t\<lparr>entries := es' @ [special_end]\<rparr>)) = mset (elements t)"
proof -
  have "mset (map fst (vals es')) = mset (map fst (vals es))" using assms(3) by simp
  then have "distinct (map fst (vals es')) = distinct (map fst (vals es))" by (rule mset_eq_imp_distinct_iff)
  moreover have "length (vals es') = length (vals es)" using assms(3) by (rule mset_eq_length)
  ultimately show "frame memory k (t\<lparr>entries := es' @ [special_end]\<rparr>) es'"
    using assms(1,2,4) by (auto simp: frame_def)
  show "mset (elements (t\<lparr>entries := es' @ [special_end]\<rparr>)) = mset (elements t)"
    using assms(3) frame_facts(7) [OF assms(1)] by (simp add: elements_def special_end_def)
qed

lemma frame_update:
  assumes "frame memory k t es" "length es' = length es" "mset (vals es') = add_mset kv (mset (vals es))"
    and "fst kv \<notin> keys t" "2 * (length (vals es) + 1) \<le> 2 ^ k"
    and "chain (slot_index hash k) (max_lookups t) 0 (- 1) es'"
  shows "table_ok memory hash k (t\<lparr>entries := es' @ [special_end], num_elements := num_elements t + 1\<rparr>)"
    and "mset (elements (t\<lparr>entries := es' @ [special_end], num_elements := num_elements t + 1\<rparr>)) = add_mset kv (mset (elements t))"
proof -
  let ?t = "t\<lparr>entries := es' @ [special_end], num_elements := num_elements t + 1\<rparr>"
  note f = frame_facts [OF assms(1)]
  have len: "length (vals es') = Suc (length (vals es))" using arg_cong [OF assms(3), of size] by simp
  have "mset (map fst (vals es')) = mset (fst kv # map fst (vals es))" using assms(3) by simp
  then have "distinct (map fst (vals es')) = distinct (fst kv # map fst (vals es))" by (rule mset_eq_imp_distinct_iff)
  then have dis: "distinct (map fst (vals es'))" using assms(1,4) f(7) by (simp add: frame_def keys_def elements_def)
  have "(2 :: nat) ^ k \<le> 2 ^ 60" using assms(1) by (intro power_increasing) (simp_all add: frame_def)
  then have num: "unat (num_elements t + 1) = Suc (length (vals es))"
    using assms(1,5) by (simp add: frame_def unat_word_ariths)
  have "frame memory k ?t es'"
    using assms(2,5) by (intro frame_entries [OF assms(1)] dis chain_wf [OF assms(6)]) (simp_all add: len num)
  with assms(6) show "table_ok memory hash k ?t" by (auto simp: table_ok_def)
  show "mset (elements ?t) = add_mset kv (mset (elements t))"
    using assms(3) f(7) by (simp add: elements_def special_end_def)
qed

lemma emplace_new_key_outcome:
  assumes "frame memory k t es" "chain (slot_index hash k) (max_lookups t) 0 (- 1) es" "memory \<le> 2 ^ 60"
    and "emplaces memory hash emp (Suc k)" "fst kv \<notin> keys t" "pos \<le> length es"
    and "int pos = int (slot_index hash k (fst kv)) + d" "0 \<le> d" "d \<le> max_lookups t"
    and "d \<le> last_distance (- 1) (take pos es) + 1" "distance_from_desired ((es @ [special_end]) ! pos) < d"
  shows "outcome memory hash k (insert (fst kv) (keys t)) (placed memory hash kv t) (emplace_new_key memory emp d pos kv t)"
proof -
  let ?S = "insert (fst kv) (keys t)" and ?m = "max_lookups t" and ?ix = "slot_index hash k"
  let ?ins = "\<lambda>kv t. rbind (emp kv t) (\<lambda>(_, _, t). Inr t)" and ?current = "entries t ! pos"
  note f = frame_facts [OF assms(1)]
  have home: "d = 0" if "roomy memory hash k ?S"
  proof (rule roomy_home [OF that _ _ _ chain_take [OF assms(2)] assms(7-10,6)])
    show "insert (fst kv) (fst ` set (vals es)) \<subseteq> ?S" "fst kv \<notin> fst ` set (vals es)" "distinct (map fst (vals es))"
      using assms(1,5) f(7) by (auto simp: keys_def elements_def frame_def)
  qed
  have grown: "outcome memory hash k ?S (placed memory hash kv t) (rbind (grow memory ?ins t') (emp kv))"
    if t': "frame memory k t' es'" "mset (elements t') = mset (elements t)" and no: "\<not> roomy memory hash k ?S" for t' es'
  proof (rule emplace_new_key_grown [OF _ assms(4,5)])
    have "keys t' \<subseteq> ?S" using keys_mset [OF t'(2)] by (auto simp: keys_def)
    moreover have "k < K" if "roomy memory hash K ?S" "k \<le> K" for K using that no by (metis le_neq_implies_less)
    ultimately show "outcome memory hash k ?S
        (\<lambda>k' t''. k < k' \<and> table_ok memory hash k' t'' \<and> mset (elements t'') = mset (elements t)) (grow memory ?ins t')"
      using grow_outcome [OF disjI2 [OF t'(1)] assms(3,4)] t'(2) by simp
  qed simp
  show ?thesis
  proof (cases "d = ?m \<or> 2 * (unat (num_elements t) + 1) > unat (num_slots_minus_one t) + 1")
    case True
    have "\<not> roomy memory hash k ?S"
    proof
      assume r: "roomy memory hash k ?S"
      have "unat (num_elements t) = length (vals es)" using assms(1) by (simp add: frame_def)
      with True no_room [OF assms(1) r assms(5)] home [OF r] f(2,5) show False by auto
    qed
    from grown [OF assms(1) refl this] True show ?thesis by (simp add: emplace_new_key_def Let_def)
  next
    case False
    then have "d < ?m" and room: "2 * (length (vals es) + 1) \<le> 2 ^ k"
      using assms(1,9) f(5) by (auto simp: frame_def)
    have "?ix (fst kv) < 2 ^ k" using f(1) by (simp add: slot_index_def index_for_hash_less)
    with \<open>d < ?m\<close> assms(7) f(4) have pos: "pos < length es" by linarith
    then have split: "es = take pos es @ es ! pos # drop (Suc pos) es" by (simp add: id_take_nth_drop)
    have current: "?current = es ! pos" using pos f(9) by (simp add: nth_append)
    have parts: "chain ?ix ?m 0 (- 1) (take pos es)" "entry_ok ?ix ?m pos (last_distance (- 1) (take pos es)) (es ! pos)"
      "chain ?ix ?m (Suc pos) (distance_from_desired (es ! pos)) (drop (Suc pos) es)"
      using assms(2) pos by (subst (asm) split, simp add: chain_append)+
    have kv_ok: "entry_ok ?ix ?m pos (last_distance (- 1) (take pos es)) (entry_of d kv)"
      using assms(7,8,10) \<open>d < ?m\<close> by (simp add: entry_ok_def entry_of_def)
    have kv: "\<exists>v. kv = (fst kv, v)" by (metis prod.collapse)
    have kv_simps [simp]: "distance_from_desired (entry_of d x) = d" "entry_value (entry_of d x) = Some x" for x
      by (simp_all add: entry_of_def)
    have short: "take pos (entries t) = take pos es" "drop (pos + 1) (entries t) = drop (Suc pos) es @ [special_end]"
      using pos f(9) by simp_all
    have less: "distance_from_desired (es ! pos) < d" using assms(11) pos by (simp add: nth_append)
    have later: "chain ?ix ?m (Suc pos) d (drop (Suc pos) es)" using chain_mono [OF parts(3)] less by simp
    have vals_es: "mset (vals es) = mset (vals (take pos es)) + (case entry_value (es ! pos) of None \<Rightarrow> {#} | Some x \<Rightarrow> {#x#})
        + mset (vals (drop (Suc pos) es))"
      by (subst split) (simp split: option.splits)
    show ?thesis
    proof (cases "entry_value (es ! pos)")
      case None
      let ?es = "take pos es @ entry_of d kv # drop (Suc pos) es"
      let ?t = "t\<lparr>entries := ?es @ [special_end], num_elements := num_elements t + 1\<rparr>"
      have empty: "is_empty (es ! pos)" using None parts(2) by (simp add: entry_ok_def is_empty_def)
      have "chain ?ix ?m 0 (- 1) ?es" using parts(1) kv_ok later by (simp add: chain_append pos less_imp_le)
      moreover have "mset (vals ?es) = add_mset kv (mset (vals es))" using None vals_es by simp
      moreover have "length ?es = length es" using pos by simp
      ultimately have "table_ok memory hash k ?t" "mset (elements ?t) = add_mset kv (mset (elements t))"
        using frame_update [OF assms(1)] assms(5) room by blast+
      moreover have "(entries t)[pos := entry_of d kv] = ?es @ [special_end]"
        using pos f(9) by (simp add: upd_conv_take_nth_drop list_update_append)
      ultimately have "emplace_new_key memory emp d pos kv t = Inr (pos, True, ?t)" "placed memory hash kv t k (pos, True, ?t)"
        using False f(3,6) empty pos assms(5) current kv
        by (auto simp: emplace_new_key_def Let_def placed_def nth_append end_position_def)
      then show ?thesis by (simp add: outcome_Inr)
    next
      case (Some x)
      with parts(2) have x: "0 \<le> distance_from_desired (es ! pos)" "int pos = int (?ix (fst x)) + distance_from_desired (es ! pos)"
        by (auto simp: entry_ok_def)
      have "int (Suc pos + length (drop (Suc pos) es)) = int (2 ^ k) + ?m - 1" using pos f(4) by simp
      moreover have "\<forall>key. ?ix key < 2 ^ k" using f(1) by (simp add: slot_index_def index_for_hash_less)
      ultimately obtain es' left where
        dis: "displace ?m (drop (Suc pos) es @ [special_end]) (distance_from_desired (es ! pos) + 1) x = Inr (es' @ [special_end], left)"
        and len: "length es' = length (drop (Suc pos) es)" and chain': "chain ?ix ?m (Suc pos) d es'"
        and ms: "mset (vals es') + (case left of None \<Rightarrow> {#} | Some y \<Rightarrow> {#y#}) = add_mset x (mset (vals (drop (Suc pos) es)))"
        using displace_chain [OF later, of x "distance_from_desired (es ! pos) + 1" "2 ^ k"] x less \<open>d < ?m\<close> by auto
      let ?es = "\<lambda>y. take pos es @ entry_of d y # es'"
      have nonempty: "\<not> is_empty (es ! pos)" using x by (simp add: is_empty_def)
      have es: "length (?es y) = length es" "chain ?ix ?m 0 (- 1) (?es kv)" for y
        using len pos parts(1) kv_ok chain' by (simp_all add: chain_append less_imp_le)
      show ?thesis
      proof (cases left)
        case None
        let ?t = "t\<lparr>entries := ?es kv @ [special_end], num_elements := num_elements t + 1\<rparr>"
        have "mset (vals (?es kv)) = add_mset kv (mset (vals es))" using None ms vals_es Some by simp
        then have "table_ok memory hash k ?t" "mset (elements ?t) = add_mset kv (mset (elements t))"
          using frame_update [OF assms(1) es(1)] assms(5) room es(2) by blast+
        then have "emplace_new_key memory emp d pos kv t = Inr (pos, True, ?t)" "placed memory hash kv t k (pos, True, ?t)"
          using False f(3,6) nonempty pos assms(5) current Some dis None short kv
          by (auto simp: emplace_new_key_def Let_def placed_def nth_append end_position_def)
        then show ?thesis by (simp add: outcome_Inr)
      next
        case (Some y)
        let ?t = "t\<lparr>entries := ?es y @ [special_end]\<rparr>"
        have "mset (vals (?es y)) = mset (vals es)" using ms vals_es Some \<open>entry_value (es ! pos) = _\<close> by simp
        moreover have "\<forall>e\<in>set (?es y). has_value e \<longleftrightarrow> entry_value e \<noteq> None"
          using chain_wf [OF parts(1)] chain_wf [OF chain'] assms(8) by (auto simp: has_value_def)
        ultimately have "frame memory k ?t (?es y)" "mset (elements ?t) = mset (elements t)"
          using frame_replace [OF assms(1) es(1)] by blast+
        moreover have "\<not> roomy memory hash k ?S" using home less x(1) by auto
        ultimately have "outcome memory hash k ?S (placed memory hash kv t) (rbind (grow memory ?ins ?t) (emp kv))"
          by (rule grown)
        then show ?thesis
          using False f(6) nonempty current Some dis short \<open>entry_value (es ! pos) = _\<close>
          by (simp add: emplace_new_key_def Let_def)
      qed
    qed
  qed
qed

theorem emplace_outcome:
  fixes t :: "('k, 'v) table"
  assumes "memory \<le> 2 ^ 60" "memory < 2 ^ (k + fuel)" "0 < fuel" "table_ok memory hash k t"
  shows "outcome memory hash k (insert (fst kv) (keys t)) (placed memory hash kv t) (emplace hash memory fuel kv t)"
  using assms(2-4)
proof (induction fuel arbitrary: k t kv)
  case (Suc fuel)
  have emp: "emplaces memory hash (emplace hash memory fuel :: 'k \<times> 'v \<Rightarrow> ('k, 'v) table \<Rightarrow> _) (Suc k)"
    unfolding emplaces_def
  proof (intro allI impI)
    fix k' and t :: "('k, 'v) table" and kv :: "'k \<times> 'v"
    assume k': "Suc k \<le> k'" and t: "table_ok memory hash k' t"
    have "(2 :: nat) ^ (k + Suc fuel) \<le> 2 ^ (k' + fuel)" using k' by (intro power_increasing) simp_all
    with Suc.prems(1) have less: "memory < 2 ^ (k' + fuel)" by linarith
    have "2 ^ k' \<le> memory" using k' t by (auto simp: table_ok_def frame_def)
    with less have "0 < fuel" by (cases fuel) auto
    with Suc.IH [OF less _ t] show "outcome memory hash k' (insert (fst kv) (keys t)) (placed memory hash kv t) (emplace hash memory fuel kv t)"
      by blast
  qed
  show ?case
  proof (cases "k = 0")
    case True
    with Suc.prems(3) have t: "t = empty_table" by (auto simp: table_ok_def frame_def)
    obtain pos where s: "search hash (fst kv) t = Inr (pos, 0, False)"
      using search_empty [of hash "fst kv"] unfolding t by blast
    have "outcome memory hash 0 (insert (fst kv) (keys t)) (placed memory hash kv t)
        (rbind (grow memory (\<lambda>kv t. rbind (emplace hash memory fuel kv t) (\<lambda>(_, _, t). Inr t)) t) (emplace hash memory fuel kv))"
      using emp True t
      by (intro emplace_new_key_grown [OF grow_outcome [where k = 0, OF _ assms(1)]])
        (auto simp: roomy_def empty_facts)
    then show ?thesis using s t True
      by (simp add: emplace_new_key_def Let_def) (simp add: empty_table_def)
  next
    case False
    with Suc.prems(3) obtain es where es: "frame memory k t es" "chain (slot_index hash k) (max_lookups t) 0 (- 1) es"
      by (auto simp: table_ok_def)
    obtain pos d found where s: "search hash (fst kv) t = Inr (pos, d, found)" "pos \<le> length es"
      "int pos = int (slot_index hash k (fst kv)) + d" "0 \<le> d" "d \<le> max_lookups t"
      and r: "if found then pos < length es \<and> (\<exists>v. entry_value (es ! pos) = Some (fst kv, v))
       else fst kv \<notin> keys t \<and> d \<le> last_distance (- 1) (take pos es) + 1
         \<and> distance_from_desired ((es @ [special_end]) ! pos) < d"
      using search_frame [OF es, of "fst kv"] by blast
    show ?thesis
    proof (cases found)
      case True
      with r obtain v where v: "pos < length es" "entry_value (es ! pos) = Some (fst kv, v)" by auto
      note f = frame_facts [OF es(1)]
      have "map_of (elements t) (fst kv) = Some v"
        using map_of_vals [OF _ v] es(1) f(7) by (simp add: elements_def frame_def)
      then have "fst kv \<in> keys t" by (metis domI dom_map_of_conv_image_fst keys_def)
      then have "placed memory hash kv t k (pos, False, t)"
        using v f(3,9) Suc.prems(3) by (simp add: placed_def nth_append)
      then show ?thesis using True s by (simp add: outcome_Inr)
    next
      case False
      with r emplace_new_key_outcome [OF es assms(1) emp _ s(2-5)] show ?thesis using s by simp
    qed
  qed
qed simp

section \<open>A finite map\<close>

text \<open>
  What the users of the table rely on: looking up and storing under a key are those of a finite
  map, as far as the memory suffices.
\<close>

fun store_all :: "('k \<Rightarrow> 'v \<Rightarrow> 't \<Rightarrow> 'e + 't) \<Rightarrow> ('k \<times> 'v) list \<Rightarrow> 't \<Rightarrow> 'e + 't" where
  "store_all store [] t = Inr t"
| "store_all store ((key, val) # kvs) t = rbind (store key val t) (store_all store kvs)"

locale map_table =
  fixes inv :: "'t \<Rightarrow> bool"
    and lookup :: "'t \<Rightarrow> 'k \<Rightarrow> 'v option"
    and store :: "'k \<Rightarrow> 'v \<Rightarrow> 't \<Rightarrow> 'e + 't"
    and new :: 't
  assumes inv_new: "inv new"
    and lookup_new: "lookup new = Map.empty"
    and store_inv: "inv t \<Longrightarrow> store key val t = Inr t' \<Longrightarrow> inv t'"
    and store_lookup: "inv t \<Longrightarrow> store key val t = Inr t' \<Longrightarrow> lookup t' = (lookup t)(key \<mapsto> val)"
begin

lemma store_all_from:
  "inv t \<Longrightarrow> store_all store kvs t = Inr t' \<Longrightarrow> inv t' \<and> lookup t' = lookup t ++ map_of (rev kvs)"
proof (induction kvs arbitrary: t)
  case (Cons kv kvs)
  obtain key val where kv: "kv = (key, val)" by (cases kv)
  with Cons.prems(2) obtain t1 where t1: "store key val t = Inr t1" "store_all store kvs t1 = Inr t'"
    by (auto simp: rbind_eq_Inr)
  from Cons.IH [OF store_inv [OF Cons.prems(1) t1(1)] t1(2)] store_lookup [OF Cons.prems(1) t1(1)] kv
  show ?case by (auto simp: map_add_def fun_eq_iff split: option.splits)
qed simp

lemma store_all_lookup: "store_all store kvs new = Inr t \<Longrightarrow> inv t \<and> lookup t = map_of (rev kvs)"
  using store_all_from [OF inv_new, of kvs t] by (simp add: lookup_new)

end

text \<open>The tables of all levels, with the assignment of the code.\<close>

definition table_inv :: "nat \<Rightarrow> ('k \<Rightarrow> u64) \<Rightarrow> ('k, 'v) table \<Rightarrow> bool" where
  "table_inv memory hash t \<longleftrightarrow> (\<exists>k. table_ok memory hash k t)"

lemma vals_replace:
  assumes "i < length es" "entry_value (es ! i) = Some (key, v)"
  shows "vals (es[i := (es ! i)\<lparr>entry_value := Some (key, val)\<rparr>])
    = vals (take i es) @ (key, val) # vals (drop (Suc i) es)"
    and "vals es = vals (take i es) @ (key, v) # vals (drop (Suc i) es)"
proof -
  have "es = take i es @ es ! i # drop (Suc i) es" using assms(1) by (rule id_take_nth_drop)
  then show "vals es = vals (take i es) @ (key, v) # vals (drop (Suc i) es)"
    using assms(2) by (metis option.simps(5) vals_simps(2,3))
qed (use assms in \<open>simp add: upd_conv_take_nth_drop\<close>)

lemma chain_replace:
  assumes "i < length es" "entry_value (es ! i) = Some (key, v)" "chain ix m p prev es"
  shows "chain ix m p prev (es[i := (es ! i)\<lparr>entry_value := Some (key, val)\<rparr>])"
  using assms
proof (induction es arbitrary: i p prev)
  case (Cons e es)
  then show ?case by (cases i) (auto simp: entry_ok_def)
qed simp

lemma map_of_middle:
  "key \<notin> fst ` set xs \<Longrightarrow> map_of (xs @ (key, val) # ys) = (map_of (xs @ (key, v) # ys))(key \<mapsto> val)"
  by (induction xs) (auto simp: fun_upd_twist)

lemma table_ok_distinct: "table_ok memory hash k t \<Longrightarrow> distinct (map fst (elements t))"
  unfolding table_ok_def
proof (elim disjE exE conjE)
  fix es assume f: "frame memory k t es"
  then show ?thesis using frame_facts(7) [OF f] by (simp add: frame_def elements_def)
qed (simp add: empty_facts)

lemma table_replace:
  assumes "table_ok memory hash k t" "pos < end_position t" "entry_value (entries t ! pos) = Some (key, v)"
    and "t' = t\<lparr>entries := (entries t)[pos := (entries t ! pos)\<lparr>entry_value := Some (key, val)\<rparr>]\<rparr>"
  shows "table_ok memory hash k t'" "map_of (elements t') = (map_of (elements t))(key \<mapsto> val)"
proof -
  have "t \<noteq> empty_table"
    using assms(2,3) empty_facts(3)
    by (auto simp: empty_table_def empty_default_table_def empty_entry_def special_end_def end_position_def
        min_lookups_def nth_Cons' split: if_splits)
  with assms(1) obtain es where es: "frame memory k t es" "chain (slot_index hash k) (max_lookups t) 0 (- 1) es"
    by (auto simp: table_ok_def)
  note f = frame_facts [OF es(1)]
  have pos: "pos < length es" "entry_value (es ! pos) = Some (key, v)" "entries t ! pos = es ! pos"
    using assms(2,3) f(3,9) by (auto simp: nth_append)
  let ?es = "es[pos := (es ! pos)\<lparr>entry_value := Some (key, val)\<rparr>]"
  note v = vals_replace [OF pos(1,2)]
  have ent: "entries t' = ?es @ [special_end]" using pos f(9) by (simp add: assms(4) list_update_append)
  have "map fst (vals ?es) = map fst (vals es)" "length (vals ?es) = length (vals es)"
    by (simp_all add: v(1)) (simp_all add: v(2))
  moreover have chain: "chain (slot_index hash k) (max_lookups t) 0 (- 1) ?es" by (rule chain_replace [OF pos(1,2) es(2)])
  ultimately have "frame memory k t' ?es"
    using es(1) chain_wf [OF chain] ent by (auto simp: frame_def assms(4))
  with chain show "table_ok memory hash k t'" by (auto simp: table_ok_def assms(4))
  have dis: "distinct (map fst (vals es))" using es(1) by (simp add: frame_def)
  then have "key \<notin> fst ` set (vals (take pos es))" by (auto simp: v(2))
  then have "map_of (vals ?es) = (map_of (vals es))(key \<mapsto> val)"
    unfolding v(1) v(2) by (rule map_of_middle)
  moreover have "elements t' = vals ?es" using ent by (simp add: elements_def special_end_def)
  ultimately show "map_of (elements t') = (map_of (elements t))(key \<mapsto> val)"
    using f(7) by (simp add: elements_def)
qed

lemma placed_lookup:
  assumes "placed memory hash (key, val) t k (pos, inserted, t')" "table_inv memory hash t"
  shows "map_of (elements t') = (if key \<in> keys t then map_of (elements t) else (map_of (elements t))(key \<mapsto> val))"
proof (cases "key \<in> keys t")
  case False
  with assms(1) have ms: "mset (elements t') = mset ((key, val) # elements t)" and ok: "table_ok memory hash k t'"
    by (auto simp: placed_def)
  have "set (elements t') = set ((key, val) # elements t)" using ms by (rule mset_eq_setD)
  moreover have "distinct (map fst ((key, val) # elements t))"
    using False assms(2) table_ok_distinct by (auto simp: table_inv_def keys_def)
  ultimately have "map_of (elements t') = map_of ((key, val) # elements t)"
    using map_of_inject_set [OF table_ok_distinct [OF ok]] by blast
  with False show ?thesis by simp
qed (use assms in \<open>simp add: placed_def\<close>)

lemma assign_outcome:
  assumes "memory \<le> 2 ^ 60" "memory < 2 ^ fuel" "0 < fuel" "table_ok memory hash k t"
  shows "outcome memory hash k (insert key (keys t))
    (\<lambda>k' t'. table_ok memory hash k' t' \<and> map_of (elements t') = (map_of (elements t))(key \<mapsto> val))
    (assign hash memory fuel fresh key val t)"
  unfolding assign_def
proof (rule outcome_bind)
  have "(2 :: nat) ^ fuel \<le> 2 ^ (k + fuel)" by (intro power_increasing) simp_all
  with assms(2) have "memory < 2 ^ (k + fuel)" by linarith
  from emplace_outcome [OF assms(1) this assms(3,4), of "(key, fresh)"]
  show "outcome memory hash k (insert key (keys t)) (placed memory hash (key, fresh) t) (emplace hash memory fuel (key, fresh) t)"
    by simp
next
  fix k' x
  assume p: "placed memory hash (key, fresh) t k' x"
  obtain pos inserted t1 where x: "x = (pos, inserted, t1)" by (cases x)
  from p x obtain v where t1: "table_ok memory hash k' t1" "pos < end_position t1" "entry_value (entries t1 ! pos) = Some (key, v)"
    by (auto simp: placed_def)
  have "table_inv memory hash t" using assms(4) by (auto simp: table_inv_def)
  from placed_lookup [OF p [unfolded x] this] table_replace [OF t1 refl]
  show "outcome memory hash k' (insert key (keys t))
      (\<lambda>k' t'. table_ok memory hash k' t' \<and> map_of (elements t') = (map_of (elements t))(key \<mapsto> val))
      (case x of (pos, _, t) \<Rightarrow> Inr (t\<lparr>entries := (entries t)[pos := (entries t ! pos)\<lparr>entry_value := Some (key, val)\<rparr>]\<rparr>))"
    by (auto simp: x intro!: outcome_Inr)
qed

definition table_lookup :: "('k, 'v) table \<Rightarrow> 'k \<Rightarrow> 'v option" where
  "table_lookup t = map_of (elements t)"

text \<open>The assignment on tables in their invariant, with enough fuel for the memory.\<close>

lemma assign_lookup:
  assumes "memory \<le> 2 ^ 60" "table_inv memory hash t" "assign hash memory 61 fresh key val t = Inr t'"
  shows "table_inv memory hash t' \<and> table_lookup t' = (table_lookup t)(key \<mapsto> val)"
proof -
  obtain k where k: "table_ok memory hash k t" using assms(2) by (auto simp: table_inv_def)
  have "memory < 2 ^ 61" using assms(1) by simp
  from assign_outcome [OF assms(1) this _ k, of key val fresh] assms(3) show ?thesis
    by (auto simp: outcome_def table_inv_def table_lookup_def)
qed

interpretation flat: map_table "table_inv (min memory (2 ^ 60)) hash" table_lookup
  "assign hash (min memory (2 ^ 60)) 61 fresh" empty_table for memory hash fresh
proof
  show "table_inv (min memory (2 ^ 60)) hash empty_table" by (auto simp: table_inv_def table_ok_def)
  show "table_lookup empty_table = Map.empty" by (simp add: table_lookup_def empty_facts)
next
  fix t t' :: "('a, 'b) table" and key val
  assume "table_inv (min memory (2 ^ 60)) hash t" "assign hash (min memory (2 ^ 60)) 61 fresh key val t = Inr t'"
  from assign_lookup [OF _ this]
  show "table_inv (min memory (2 ^ 60)) hash t'" "table_lookup t' = (table_lookup t)(key \<mapsto> val)" by simp_all
qed

lemma store_all_outcome:
  assumes "memory \<le> 2 ^ 60" "table_ok memory hash k t" "S = fst ` set kvs \<union> keys t"
  shows "outcome memory hash k S (\<lambda>k' t'. True) (store_all (assign hash memory 61 fresh) kvs t)"
  using assms(2,3)
proof (induction kvs arbitrary: k t S)
  case Nil
  then show ?case by (simp add: outcome_Inr)
next
  case (Cons kv kvs)
  obtain key val where kv: "kv = (key, val)" by (cases kv)
  have "memory < 2 ^ 61" using assms(1) by simp
  note one = assign_outcome [OF assms(1) this _ Cons.prems(1), of key val fresh]
  have "outcome memory hash k S (\<lambda>k' t'. True) (rbind (assign hash memory 61 fresh key val t) (store_all (assign hash memory 61 fresh) kvs))"
  proof (rule outcome_bind)
    show "outcome memory hash k S
        (\<lambda>k' t'. table_ok memory hash k' t' \<and> map_of (elements t') = (map_of (elements t))(key \<mapsto> val))
        (assign hash memory 61 fresh key val t)"
      using one Cons.prems(2) kv by (intro outcome_mono [OF one]) auto
  next
    fix k' t'
    assume t': "table_ok memory hash k' t' \<and> map_of (elements t') = (map_of (elements t))(key \<mapsto> val)"
    have "keys u = dom (map_of (elements u))" for u :: "('a, 'b) table" by (simp add: keys_def dom_map_of_conv_image_fst)
    with t' have "keys t' = insert key (keys t)" by simp
    with Cons.prems(2) kv show "outcome memory hash k' S (\<lambda>k' t'. True) (store_all (assign hash memory 61 fresh) kvs t')"
      by (intro Cons.IH) (use t' in auto)
  qed
  with kv show ?case by simp
qed

section \<open>Erasing\<close>

lemma shift_back_chain:
  assumes "chain ix m (p + 1) D ys" "D \<le> prev + 1" "- 1 \<le> prev"
  shows "\<exists>zs. shift_back (empty_entry # ys @ [special_end]) = Inr (zs @ [special_end]) \<and> length zs = Suc (length ys)
    \<and> chain ix m p prev zs \<and> vals zs = vals ys"
  using assms
proof (induction ys arbitrary: p D prev)
  case Nil
  show ?case by (intro exI [of _ "[empty_entry]"]) (simp add: special_end_def empty_entry_def entry_ok_def)
next
  case (Cons y ys)
  show ?case
  proof (cases "distance_from_desired y \<le> 0")
    case True
    then have "chain ix m p prev (empty_entry # y # ys)"
      using Cons.prems(1) by (auto simp: entry_ok_def empty_entry_def split: option.splits)
    with True show ?thesis by (intro exI [of _ "empty_entry # y # ys"]) (simp add: empty_entry_def)
  next
    case False
    let ?y = "y\<lparr>distance_from_desired := distance_from_desired y - 1\<rparr>"
    have "entry_ok ix m p prev ?y" using Cons.prems False by (auto simp: entry_ok_def split: option.splits)
    moreover obtain zs where "shift_back (empty_entry # ys @ [special_end]) = Inr (zs @ [special_end])"
      "length zs = Suc (length ys)" "chain ix m (p + 1) (distance_from_desired y - 1) zs" "vals zs = vals ys"
      using Cons.IH [of "p + 1" "distance_from_desired y" "distance_from_desired y - 1"] Cons.prems(1) False by auto
    ultimately show ?thesis
      using False by (intro exI [of _ "?y # zs"]) (simp split: option.splits)
  qed
qed

lemma map_of_removed:
  "distinct (map fst (xs @ (key, v) # ys)) \<Longrightarrow> map_of (xs @ ys) = (map_of (xs @ (key, v) # ys))(key := None)"
proof (induction xs)
  case Nil
  then have "map_of ys key = None" by (simp add: map_of_eq_None_iff)
  then show ?case by auto
next
  case (Cons x xs)
  then show ?case by (cases x) (auto simp: fun_eq_iff)
qed

lemma erase_key_deletes:
  assumes "table_ok memory hash k t"
  shows "\<exists>n t'. erase_key hash key t = Inr (n, t') \<and> table_ok memory hash k t' \<and> n = (if key \<in> keys t then 1 else 0)
    \<and> table_lookup t' = (table_lookup t)(key := None)"
proof (cases "t = empty_table")
  case True
  obtain pos where "search hash key t = Inr (pos, 0, False)" using search_empty [of hash key] True by blast
  with True assms show ?thesis by (auto simp: erase_key_def find_entry_def table_lookup_def empty_facts)
next
  case False
  with assms obtain es where es: "frame memory k t es" "chain (slot_index hash k) (max_lookups t) 0 (- 1) es"
    by (auto simp: table_ok_def)
  note f = frame_facts [OF es(1)]
  obtain pos d found where s: "search hash key t = Inr (pos, d, found)"
    and r: "if found then pos < length es \<and> (\<exists>v. entry_value (es ! pos) = Some (key, v)) else key \<notin> keys t"
    using search_frame [OF es, of key] by (metis (mono_tags, lifting))
  show ?thesis
  proof (cases found)
    case True
    with r obtain v where v: "pos < length es" "entry_value (es ! pos) = Some (key, v)" by auto
    have split: "es = take pos es @ es ! pos # drop (Suc pos) es" using v(1) by (rule id_take_nth_drop)
    have parts: "chain (slot_index hash k) (max_lookups t) 0 (- 1) (take pos es)"
      "entry_ok (slot_index hash k) (max_lookups t) pos (last_distance (- 1) (take pos es)) (es ! pos)"
      "chain (slot_index hash k) (max_lookups t) (pos + 1) (distance_from_desired (es ! pos)) (drop (Suc pos) es)"
      using es(2) v(1) by (subst (asm) split, simp add: chain_append)+
    have "- 1 \<le> last_distance (- 1) (take pos es)" using last_distance_bound [OF parts(1)] by simp
    moreover have "distance_from_desired (es ! pos) \<le> last_distance (- 1) (take pos es) + 1"
      using parts(2) v(2) by (simp add: entry_ok_def)
    ultimately obtain zs where zs: "shift_back (empty_entry # drop (Suc pos) es @ [special_end]) = Inr (zs @ [special_end])"
      "length zs = Suc (length (drop (Suc pos) es))"
      "chain (slot_index hash k) (max_lookups t) pos (last_distance (- 1) (take pos es)) zs" "vals zs = vals (drop (Suc pos) es)"
      using shift_back_chain [OF parts(3)] by blast
    let ?es = "take pos es @ zs"
    let ?t = "t\<lparr>entries := ?es @ [special_end], num_elements := num_elements t - 1\<rparr>"
    have old: "vals es = vals (take pos es) @ (key, v) # vals (drop (Suc pos) es)" by (rule vals_replace(2) [OF v])
    have chain: "chain (slot_index hash k) (max_lookups t) 0 (- 1) ?es"
      using parts(1) zs(3) v(1) by (simp add: chain_append less_imp_le)
    have num: "unat (num_elements t) = Suc (length (vals ?es))" using es(1) by (simp add: frame_def old zs(4))
    then have "num_elements t \<noteq> 0" by auto
    then have num': "unat (num_elements t - 1) = length (vals ?es)" using num by (simp add: unat_minus_one)
    have dis: "distinct (map fst (vals es))" using es(1) by (simp add: frame_def)
    have "length ?es = length es" using zs(2) v(1) by simp
    moreover have "distinct (map fst (vals ?es))" using dis unfolding old by (simp add: zs(4))
    moreover have "2 * length (vals ?es) \<le> 2 ^ k" using es(1) by (simp add: frame_def old zs(4))
    ultimately have "frame memory k ?t ?es"
      by (intro frame_entries [OF es(1)] num' chain_wf [OF chain])
    with chain have "table_ok memory hash k ?t" by (auto simp: table_ok_def)
    moreover have "table_lookup ?t = (table_lookup t)(key := None)"
    proof -
      have "elements ?t = vals ?es" "elements t = vals es" using f(7) by (simp_all add: elements_def special_end_def)
      then show ?thesis using map_of_removed [OF dis [unfolded old]] unfolding table_lookup_def by (simp add: old zs(4))
    qed
    moreover have "erase_key hash key t = Inr (1, ?t)"
      using True s v(1) f(3,9) zs(1) by (simp add: erase_key_def find_entry_def erase_position_def)
    moreover have "key \<in> keys t" using f(7) by (simp add: keys_def elements_def old)
    ultimately show ?thesis by auto
  next
    case False
    with r have "table_lookup t key = None" by (simp add: keys_def table_lookup_def map_of_eq_None_iff)
    then have "(table_lookup t)(key := None) = table_lookup t" by auto
    with False s r assms show ?thesis by (simp add: erase_key_def find_entry_def)
  qed
qed

locale map_table_delete = map_table +
  fixes delete :: "'k \<Rightarrow> 't \<Rightarrow> 't"
  assumes delete_inv: "inv t \<Longrightarrow> inv (delete key t)"
    and delete_lookup: "inv t \<Longrightarrow> lookup (delete key t) = (lookup t)(key := None)"
begin

text \<open>A key that is deleted after being stored is where it was before it was stored.\<close>

lemma delete_stored:
  "inv t \<Longrightarrow> store key val t = Inr t' \<Longrightarrow> lookup t key = None \<Longrightarrow> lookup (delete key t') = lookup t"
  using store_inv store_lookup delete_lookup by (auto simp: fun_eq_iff)

end

definition erased :: "('k \<Rightarrow> u64) \<Rightarrow> 'k \<Rightarrow> ('k, 'v) table \<Rightarrow> ('k, 'v) table" where
  "erased hash key t = (case erase_key hash key t of Inl _ \<Rightarrow> t | Inr (_, t') \<Rightarrow> t')"

interpretation flat: map_table_delete "table_inv (min memory (2 ^ 60)) hash" table_lookup
  "assign hash (min memory (2 ^ 60)) 61 fresh" empty_table "erased hash" for memory hash fresh
proof
  fix t :: "('a, 'b) table" and key
  assume "table_inv (min memory (2 ^ 60)) hash t"
  then obtain k where "table_ok (min memory (2 ^ 60)) hash k t" by (auto simp: table_inv_def)
  from erase_key_deletes [OF this, of key]
  show "table_inv (min memory (2 ^ 60)) hash (erased hash key t)"
    "table_lookup (erased hash key t) = (table_lookup t)(key := None)"
    by (auto simp: erased_def table_inv_def)
qed

section \<open>The table of argument layouts\<close>

text \<open>
  C24: the hash table is a finite map. Storing any sequence of keys and values in a new table, with
  whatever collisions, displacements and reallocations, gives a table in which \<open>at\<close> finds for every
  key the value stored last and throws for all others; the only other outcome is that the allocator
  refuses, which does not happen while it grants a table of \<open>2 ^ k\<close> slots of which the keys hash to
  different ones and fill at most half.
\<close>

theorem hash_table_is_map:
  assumes "memory \<le> 2 ^ 60"
  shows "(case store_all (assign hash memory 61 fresh) kvs empty_table of
      Inl err \<Rightarrow> err = Bad_alloc \<and> (\<forall>k. \<not> roomy memory hash k (fst ` set kvs))
    | Inr t \<Rightarrow> \<forall>key. table_at hash key t =
        (case map_of (rev kvs) key of None \<Rightarrow> Inl Out_of_range | Some val \<Rightarrow> Inr val))"
proof (cases "store_all (assign hash memory 61 fresh) kvs empty_table")
  case (Inl err)
  have "outcome memory hash 0 (fst ` set kvs) (\<lambda>_ _. True) (store_all (assign hash memory 61 fresh) kvs empty_table)"
    by (rule store_all_outcome [OF assms]) (simp_all add: table_ok_def empty_facts)
  with Inl show ?thesis by (simp add: outcome_def)
next
  case (Inr t)
  have "min memory (2 ^ 60) = memory" using assms by simp
  with flat.store_all_lookup [of hash memory fresh kvs t] Inr
  have "table_inv memory hash t" "table_lookup t = map_of (rev kvs)" by auto
  moreover from this(1) obtain k where ok: "table_ok memory hash k t" by (auto simp: table_inv_def)
  ultimately show ?thesis using Inr by (simp add: table_at_correct [OF ok] table_lookup_def)
qed

theorem hash_table_is_map_witness:
  "case store_all (assign id 100 61 0) [(7 :: u64, 1 :: nat), (9, 2), (7, 3)] empty_table of
     Inl _ \<Rightarrow> False | Inr t \<Rightarrow> table_at id 7 t = Inr 3 \<and> table_at id 8 t = Inl Out_of_range"
proof -
  have "roomy 100 id 4 (fst ` set [(7 :: u64, 1 :: nat), (9, 2), (7, 3)])"
    by (simp add: roomy_def slot_index_def index_for_hash_def inj_on_def card_insert_if)
  then show ?thesis
    using hash_table_is_map [where memory = 100 and hash = id and fresh = "0 :: nat" and kvs = "[(7 :: u64, 1), (9, 2), (7, 3)]"] by (auto split: sum.splits)
qed



end
