(* ===== verification/Trace_Types.thy ===== *)
theory Trace_Types
  imports HT_Prelude
begin

text \<open>
  The event types of \<^verbatim>\<open>include/trace.h\<close>. Enumerations of the HIP headers (error codes, copy
  kinds) are the 32-bit values that the C++ code moves around; pointers, streams and sizes are
  64-bit words; C strings and \<^verbatim>\<open>std::string\<close> are lists of characters.
\<close>

datatype HIP_EVENT = EVENT_UNDEFINED | EVENT_DEVICE | EVENT_MALLOC | EVENT_MEMCPY | EVENT_FREE
  | EVENT_LAUNCH | EVENT_SYNC | EVENT_HOST | EVENT_GPUEVENT | EVENT_STREAM | EVENT_CODE

text \<open>The value of each constant, and the conversion \<^verbatim>\<open>(HIP_EVENT) n\<close> that replay uses.\<close>

definition HIP_EVENT_all :: "HIP_EVENT list" where
  "HIP_EVENT_all = [EVENT_UNDEFINED, EVENT_DEVICE, EVENT_MALLOC, EVENT_MEMCPY, EVENT_FREE,
     EVENT_LAUNCH, EVENT_SYNC, EVENT_HOST, EVENT_GPUEVENT, EVENT_STREAM, EVENT_CODE]"

fun HIP_EVENT_code :: "HIP_EVENT \<Rightarrow> u32" where
  "HIP_EVENT_code EVENT_UNDEFINED = 0"
| "HIP_EVENT_code EVENT_DEVICE = 1"
| "HIP_EVENT_code EVENT_MALLOC = 2"
| "HIP_EVENT_code EVENT_MEMCPY = 3"
| "HIP_EVENT_code EVENT_FREE = 4"
| "HIP_EVENT_code EVENT_LAUNCH = 5"
| "HIP_EVENT_code EVENT_SYNC = 6"
| "HIP_EVENT_code EVENT_HOST = 7"
| "HIP_EVENT_code EVENT_GPUEVENT = 8"
| "HIP_EVENT_code EVENT_STREAM = 9"
| "HIP_EVENT_code EVENT_CODE = 10"

definition HIP_EVENT_of :: "u32 \<Rightarrow> HIP_EVENT" where
  "HIP_EVENT_of w = (if unat w < length HIP_EVENT_all then HIP_EVENT_all ! unat w else EVENT_UNDEFINED)"

lemma HIP_EVENT_of_code [simp]: "HIP_EVENT_of (HIP_EVENT_code t) = t"
  by (cases t) (simp_all add: HIP_EVENT_of_def HIP_EVENT_all_def)

record dim3 =
  dim_x :: u32
  dim_y :: u32
  dim_z :: u32

record gputrace_event_malloc =
  malloc_p :: u64
  malloc_size :: u64

record gputrace_event_memcpy =
  memcpy_dst :: u64
  memcpy_src :: u64
  memcpy_size :: u64
  memcpy_kind :: u32
  memcpy_hostdata :: bytes

record gputrace_event_free =
  free_p :: u64

record gputrace_event_launch =
  launch_function_address :: u64
  launch_num_blocks :: dim3
  launch_dim_blocks :: dim3
  launch_shared_mem_bytes :: u32
  launch_argdata :: bytes
  launch_kernel_name :: string

record gputrace_event_code =
  code_filename :: string
  code_code :: bytes

text \<open>The \<^verbatim>\<open>std::variant\<close> of the event's data.\<close>

datatype gputrace_data =
    Data_malloc gputrace_event_malloc
  | Data_memcpy gputrace_event_memcpy
  | Data_free gputrace_event_free
  | Data_launch gputrace_event_launch
  | Data_code gputrace_event_code

record gputrace_event =
  event_id :: u64
  event_rc :: u32
  event_stream :: u64
  event_name :: string
  event_type :: HIP_EVENT
  event_data :: gputrace_data

datatype HIPTRACER_TOOL = TOOL_CAPTURE | TOOL_BININT

text \<open>\<^verbatim>\<open>std::get<T>(event.data)\<close> throws when the variant holds another alternative.\<close>

datatype trace_error = Bad_variant_access | Sqlite_assert u32 | Unset_name

definition get_malloc_data :: "gputrace_data \<Rightarrow> trace_error + gputrace_event_malloc" where
  "get_malloc_data d = (case d of Data_malloc x \<Rightarrow> Inr x | _ \<Rightarrow> Inl Bad_variant_access)"

definition get_memcpy_data :: "gputrace_data \<Rightarrow> trace_error + gputrace_event_memcpy" where
  "get_memcpy_data d = (case d of Data_memcpy x \<Rightarrow> Inr x | _ \<Rightarrow> Inl Bad_variant_access)"

definition get_free_data :: "gputrace_data \<Rightarrow> trace_error + gputrace_event_free" where
  "get_free_data d = (case d of Data_free x \<Rightarrow> Inr x | _ \<Rightarrow> Inl Bad_variant_access)"

definition get_launch_data :: "gputrace_data \<Rightarrow> trace_error + gputrace_event_launch" where
  "get_launch_data d = (case d of Data_launch x \<Rightarrow> Inr x | _ \<Rightarrow> Inl Bad_variant_access)"

definition get_code_data :: "gputrace_data \<Rightarrow> trace_error + gputrace_event_code" where
  "get_code_data d = (case d of Data_code x \<Rightarrow> Inr x | _ \<Rightarrow> Inl Bad_variant_access)"

lemma get_data_simps [simp]:
  "get_malloc_data (Data_malloc a) = Inr a" "get_memcpy_data (Data_memcpy b) = Inr b"
  "get_free_data (Data_free c) = Inr c" "get_launch_data (Data_launch d) = Inr d"
  "get_code_data (Data_code e) = Inr e"
  by (simp_all add: get_malloc_data_def get_memcpy_data_def get_free_data_def
      get_launch_data_def get_code_data_def)

section \<open>Strings of the C++ library\<close>

text \<open>The characters before the terminating NUL, as \<^verbatim>\<open>c_str()\<close> passes them on.\<close>

definition c_str :: "string \<Rightarrow> string" where
  "c_str s = takeWhile (\<lambda>c. c \<noteq> CHR 0x00) s"

lemma c_str_id: "CHR 0x00 \<notin> set s \<Longrightarrow> c_str s = s"
  unfolding c_str_def by (induction s) auto

text \<open>\<^verbatim>\<open>std::to_string\<close> of an unsigned number: its decimal digits.\<close>

fun to_string :: "nat \<Rightarrow> string" where
  "to_string n =
     (if n < 10 then [char_of (48 + n)] else to_string (n div 10) @ [char_of (48 + n mod 10)])"

declare to_string.simps [simp del]

definition digits_value :: "string \<Rightarrow> nat" where
  "digits_value s = foldl (\<lambda>n c. 10 * n + (of_char c - 48)) 0 s"

lemma digits_value_to_string: "digits_value (to_string n) = n"
proof (induction n rule: to_string.induct)
  case (1 n)
  show ?case
  proof (cases "n < 10")
    case True
    then show ?thesis by (subst to_string.simps) (simp add: digits_value_def)
  next
    case False
    moreover have "(of_char (char_of (48 + n mod 10)) :: nat) = 48 + n mod 10" by (simp add: of_char_mod_256)
    ultimately show ?thesis using 1 by (subst to_string.simps) (simp add: digits_value_def)
  qed
qed

lemma to_string_inject [simp]: "to_string m = to_string n \<longleftrightarrow> m = n"
  by (metis digits_value_to_string)

end
