(* ===== verification/Insn_Factory.thy ===== *)
theory Insn_Factory
  imports Trace_Types
begin

text \<open>
  The encoders of machine instructions (\<^verbatim>\<open>include/InsnFactory.h\<close>). An instruction is its bytes, its
  size and its printed name; the bytes stand for the buffer that each encoder allocates, and the
  pool that only collects these buffers is left out. The operands are combined without masking,
  as in the code, so an operand that is too large spills into its neighbours.
\<close>

record MyInsn =
  insn_ptr :: bytes
  insn_size :: u32
  insn_pretty :: string

record MyBranchInsn = MyInsn +
  branch_addr :: u32
  target_addr :: u32

definition MyInsn_of :: "bytes \<Rightarrow> u32 \<Rightarrow> string \<Rightarrow> MyInsn" where
  "MyInsn_of ptr sz pretty = \<lparr>insn_ptr = ptr, insn_size = sz, insn_pretty = pretty\<rparr>"

definition MyBranchInsn_of :: "u32 \<Rightarrow> u32 \<Rightarrow> bytes \<Rightarrow> u32 \<Rightarrow> string \<Rightarrow> MyBranchInsn" where
  "MyBranchInsn_of branch target ptr sz pretty =
     \<lparr>insn_ptr = ptr, insn_size = sz, insn_pretty = pretty, branch_addr = branch, target_addr = target\<rparr>"

definition signed_to_string :: "int \<Rightarrow> string" where
  "signed_to_string n = (if n < 0 then ''-'' else []) @ to_string (nat \<bar>n\<bar>)"

section \<open>Branches\<close>

definition update_for_move :: "u32 \<Rightarrow> MyBranchInsn \<Rightarrow> MyBranchInsn" where
  "update_for_move offset b = b\<lparr>branch_addr := branch_addr b + offset, target_addr := target_addr b + offset\<rparr>"

text \<open>Both arms of the source's last conditional compute the same displacement.\<close>

definition update_for_insertion :: "u32 \<Rightarrow> u32 \<Rightarrow> MyBranchInsn \<Rightarrow> MyBranchInsn" where
  "update_for_insertion insert_loc insert_size b =
     (let b = (if insert_loc \<le> branch_addr b then b\<lparr>branch_addr := branch_addr b + insert_size\<rparr> else b);
          b = (if insert_loc < target_addr b then b\<lparr>target_addr := target_addr b + insert_size\<rparr> else b);
          simm16 = (ucast (signed_drop_bit 2 (target_addr b - 4 - branch_addr b)) :: 16 word)
      in b\<lparr>insn_ptr := le_bytes 2 simm16 @ drop 2 (insn_ptr b)\<rparr>)"

text \<open>\<open>cmd\<close> is the memory at the instruction, \<open>None\<close> a null pointer.\<close>

definition create_s_branch :: "u32 \<Rightarrow> u32 \<Rightarrow> bytes option \<Rightarrow> MyBranchInsn" where
  "create_s_branch branch target cmd_in =
     (case cmd_in of
        Some cmd_in \<Rightarrow> MyBranchInsn_of branch target (take 4 cmd_in) 4 ''s_branch ''
      | None \<Rightarrow>
          let cmd = (0xbf800000 :: u32);
              op = 0x2;
              simm16 = (ucast (((target - branch - 4) div 4) AND 0xffff) :: 16 word);
              cmd = cmd OR push_bit 16 op OR ucast simm16
          in MyBranchInsn_of branch target (le_bytes 4 cmd) 4 ''s_branch '')"

definition create_s_cbranch_execz :: "u32 \<Rightarrow> u32 \<Rightarrow> bytes \<Rightarrow> MyBranchInsn" where
  "create_s_cbranch_execz branch target cmd = MyBranchInsn_of branch target (take 4 cmd) 4 ''s_cbranch_execz''"

definition create_s_cbranch_scc1 :: "u32 \<Rightarrow> u32 \<Rightarrow> bytes \<Rightarrow> MyBranchInsn" where
  "create_s_cbranch_scc1 branch target cmd = MyBranchInsn_of branch target (take 4 cmd) 4 ''s_cbranch_scc1''"

definition create_s_cbranch_execnz :: "u32 \<Rightarrow> u32 \<Rightarrow> bytes \<Rightarrow> MyBranchInsn" where
  "create_s_cbranch_execnz branch target cmd = MyBranchInsn_of branch target (take 4 cmd) 4 ''s_cbranch_execnz''"

definition create_s_cbranch_vccz :: "u32 \<Rightarrow> u32 \<Rightarrow> bytes \<Rightarrow> MyBranchInsn" where
  "create_s_cbranch_vccz branch target cmd = MyBranchInsn_of branch target (take 4 cmd) 4 ''s_cbranch_vccz''"

definition create_s_cbranch_vccnz :: "u32 \<Rightarrow> u32 \<Rightarrow> bytes \<Rightarrow> MyBranchInsn" where
  "create_s_cbranch_vccnz branch target cmd = MyBranchInsn_of branch target (take 4 cmd) 4 ''s_cbranch_vccnz''"

text \<open>\<open>None\<close> is the exit of the program for anything but a known branch.\<close>

definition convert_to_branch_insn :: "u32 \<Rightarrow> u32 \<Rightarrow> bytes \<Rightarrow> u32 \<Rightarrow> MyBranchInsn option" where
  "convert_to_branch_insn branch target cmd len =
     (if len = 4 then
        let cmd_value = (le_word (take 4 cmd) :: u32);
            and_result = cmd_value AND 0xff800000
        in if and_result = 0xbf800000 then
             let op = drop_bit 16 cmd_value AND 0x7f
             in if op = 2 then Some (create_s_branch branch target (Some cmd))
                else if op = 5 then Some (create_s_cbranch_scc1 branch target cmd)
                else if op = 4 \<or> op = 6 then Some (create_s_cbranch_vccz branch target cmd)
                else if op = 7 then Some (create_s_cbranch_vccnz branch target cmd)
                else if op = 8 then Some (create_s_cbranch_execz branch target cmd)
                else if op = 9 then Some (create_s_cbranch_execnz branch target cmd)
                else None
           else None
      else None)"

section \<open>Encoders\<close>

definition create_s_cmp_eq_u64 :: "u32 \<Rightarrow> u32 \<Rightarrow> MyInsn" where
  "create_s_cmp_eq_u64 ssrc1 ssrc0 =
    (let cmd = (0xbf000000 :: u32);
         op = 18;
         cmd = cmd OR push_bit 16 op OR push_bit 8 ssrc1 OR ssrc0
     in MyInsn_of (le_bytes 4 cmd) 4 ''s_cmp_eq_u64 '')"

definition create_s_mov_b32 :: "u32 \<Rightarrow> u32 \<Rightarrow> bool \<Rightarrow> MyInsn" where
  "create_s_mov_b32 sdst ssrc0 useImm =
    (let cmd = 0xbe800000;
         op = 0
     in if useImm then
         let cmd = cmd OR push_bit 16 sdst OR push_bit 8 op OR 255
         in MyInsn_of (le_bytes 4 cmd @ le_bytes 4 ssrc0) 8 ''s_mov_b32 ''
        else
         let cmd = cmd OR push_bit 16 sdst OR push_bit 8 op OR ssrc0
         in MyInsn_of (le_bytes 4 cmd) 4 ''s_mov_b64 '')"

definition create_s_mov_b64 :: "u32 \<Rightarrow> u32 \<Rightarrow> MyInsn" where
  "create_s_mov_b64 sdst ssrc0 =
    (let cmd = (0xbe800000 :: u32);
         op = 1;
         cmd = cmd OR push_bit 16 sdst OR push_bit 8 op OR ssrc0
     in MyInsn_of (le_bytes 4 cmd) 4 ''s_mov_b64 '')"

definition create_s_nop :: "MyInsn" where
  "create_s_nop =
    (let cmd = (0xbf800000 :: u32)
     in MyInsn_of (le_bytes 4 cmd) 4 ''s_nop '')"

definition create_s_wait_cnt :: "MyInsn" where
  "create_s_wait_cnt =
    (let cmd = (0xbf8c0000 :: u32)
     in MyInsn_of (le_bytes 4 cmd) 4 ''s_waitcnt_0 '')"

definition create_v_readfirstlane_b32 :: "u32 \<Rightarrow> u32 \<Rightarrow> MyInsn" where
  "create_v_readfirstlane_b32 vdst src =
    (let cmd = (0x7e000000 :: u32);
         op = 2;
         cmd = cmd OR push_bit 17 vdst OR push_bit 9 op OR src
     in MyInsn_of (le_bytes 4 cmd) 4 ''v_mov_b32 '')"

definition create_v_mov_b32 :: "u32 \<Rightarrow> u32 \<Rightarrow> MyInsn" where
  "create_v_mov_b32 vdst src =
    (let cmd = (0x7e000000 :: u32);
         op = 1;
         cmd = cmd OR push_bit 17 vdst OR push_bit 9 op OR (src OR 0x100)
     in MyInsn_of (le_bytes 4 cmd) 4 ''v_mov_b32 '')"

definition create_v_mov_b32_const :: "u32 \<Rightarrow> u32 \<Rightarrow> MyInsn" where
  "create_v_mov_b32_const vdst src =
    (let cmd = (0x7e000000 :: u32);
         op = 2;
         cmd = cmd OR push_bit 17 vdst OR push_bit 9 op OR 255
     in MyInsn_of (le_bytes 4 cmd @ le_bytes 4 src) 8 ''v_mov_b32 '')"

definition create_s_getreg_b32 :: "u32 \<Rightarrow> u8 \<Rightarrow> u8 \<Rightarrow> u8 \<Rightarrow> MyInsn" where
  "create_s_getreg_b32 target_sgpr sz offset hwRegId =
    (let cmd = (0xb0000000 :: u32);
         op = 17;
         sz = sz - 1;
         cmd = cmd OR push_bit 23 op OR push_bit 16 target_sgpr OR push_bit 11 (ucast sz) OR push_bit 6 (ucast offset) OR ucast hwRegId
     in MyInsn_of (le_bytes 4 cmd) 4 (''s_getreg '' @ to_string (unat hwRegId)))"

definition create_s_movk_i32 :: "u32 \<Rightarrow> 16 word \<Rightarrow> MyInsn" where
  "create_s_movk_i32 target_sgpr simm16 =
    (let cmd = (0xb0000000 :: u32);
         op = 0x0;
         cmd = cmd OR push_bit 23 op OR push_bit 16 target_sgpr OR scast simm16
     in MyInsn_of (le_bytes 4 cmd) 4 (''s_movk_i32 '' @ signed_to_string (sint simm16)))"

definition create_v_add_u32 :: "u32 \<Rightarrow> u32 \<Rightarrow> u32 \<Rightarrow> MyInsn" where
  "create_v_add_u32 vdst vsrc1 src0 =
    (let cmd = (0x0 :: u32);
         op = 52;
         cmd = cmd OR push_bit 25 op OR push_bit 17 vdst OR push_bit 9 vsrc1 OR src0
     in MyInsn_of (le_bytes 4 cmd) 4 ''v_add_u32 '')"

definition create_v_add_co_u32 :: "u32 \<Rightarrow> u32 \<Rightarrow> u32 \<Rightarrow> MyInsn" where
  "create_v_add_co_u32 vdst vsrc1 src0 =
    (let cmd = (0x0 :: u32);
         op = 25;
         cmd = cmd OR push_bit 25 op OR push_bit 17 vdst OR push_bit 9 vsrc1 OR src0
     in MyInsn_of (le_bytes 4 cmd) 4 ''v_add_co_u32 '')"

definition create_v_addc_co_u32 :: "u32 \<Rightarrow> u32 \<Rightarrow> u32 \<Rightarrow> MyInsn" where
  "create_v_addc_co_u32 vdst vsrc1 src0 =
    (let cmd = (0x0 :: u32);
         op = 28;
         cmd = cmd OR push_bit 25 op OR push_bit 17 vdst OR push_bit 9 vsrc1 OR src0
     in MyInsn_of (le_bytes 4 cmd) 4 ''v_addc_co_u32 '')"

definition create_v_mul_lo_u32 :: "u32 \<Rightarrow> u32 \<Rightarrow> u32 \<Rightarrow> MyInsn" where
  "create_v_mul_lo_u32 vdst src1 src0 =
    (let cmd_low = (0xd0000000 :: u32);
         cmd_high = (0x0 :: u32);
         op = 645;
         cmd_low = cmd_low OR push_bit 16 op OR vdst;
         cmd_high = cmd_high OR push_bit 9 src1 OR src0
     in MyInsn_of (le_bytes 4 cmd_low @ le_bytes 4 cmd_high) 8 ''s_and_b32 '')"

definition create_s_and_b32_imm :: "u32 \<Rightarrow> u32 \<Rightarrow> u32 \<Rightarrow> bool \<Rightarrow> MyInsn" where
  "create_s_and_b32_imm sdst ssrc0 ssrc1 useImm =
    (let cmd = 0x80000000;
         op = 12
     in if useImm then
         let cmd = cmd OR push_bit 23 op OR push_bit 16 sdst OR push_bit 8 ssrc1 OR 0xff
         in MyInsn_of (le_bytes 4 cmd @ le_bytes 4 ssrc0) 8 ''s_add_u32 ''
        else
         let cmd = cmd OR push_bit 23 op OR push_bit 16 sdst OR push_bit 8 ssrc1 OR ssrc0
         in MyInsn_of (le_bytes 4 cmd) 4 ''s_sub_u32 '')"

definition create_s_ashr_i32 :: "u32 \<Rightarrow> u32 \<Rightarrow> u32 \<Rightarrow> MyInsn" where
  "create_s_ashr_i32 sdst ssrc1 ssrc0 =
    (let cmd = (0x80000000 :: u32);
         op = 32;
         cmd = cmd OR push_bit 23 op OR push_bit 16 sdst OR push_bit 8 ssrc1 OR ssrc0
     in MyInsn_of (le_bytes 4 cmd) 4 ''s_and_b32 '')"

definition create_s_lshr_b32 :: "u32 \<Rightarrow> u32 \<Rightarrow> u32 \<Rightarrow> MyInsn" where
  "create_s_lshr_b32 sdst ssrc1 ssrc0 =
    (let cmd = (0x80000000 :: u32);
         op = 30;
         cmd = cmd OR push_bit 23 op OR push_bit 16 sdst OR push_bit 8 ssrc1 OR ssrc0
     in MyInsn_of (le_bytes 4 cmd) 4 ''s_and_b32 '')"

definition create_s_lshl_b32 :: "u32 \<Rightarrow> u32 \<Rightarrow> u32 \<Rightarrow> MyInsn" where
  "create_s_lshl_b32 sdst ssrc1 ssrc0 =
    (let cmd = (0x80000000 :: u32);
         op = 28;
         cmd = cmd OR push_bit 23 op OR push_bit 16 sdst OR push_bit 8 ssrc1 OR ssrc0
     in MyInsn_of (le_bytes 4 cmd) 4 ''s_and_b32 '')"

definition create_s_lshl_b64 :: "u32 \<Rightarrow> u32 \<Rightarrow> u32 \<Rightarrow> MyInsn" where
  "create_s_lshl_b64 sdst ssrc1 ssrc0 =
    (let cmd = (0x80000000 :: u32);
         op = 29;
         cmd = cmd OR push_bit 23 op OR push_bit 16 sdst OR push_bit 8 ssrc1 OR ssrc0
     in MyInsn_of (le_bytes 4 cmd) 4 ''s_and_b32 '')"

definition create_s_mul_i32 :: "u8 \<Rightarrow> u8 \<Rightarrow> u8 \<Rightarrow> MyInsn" where
  "create_s_mul_i32 sdst ssrc1 ssrc0 =
    (let cmd = (0x80000000 :: u32);
         op = 36;
         cmd = cmd OR push_bit 23 op OR push_bit 16 (ucast sdst) OR push_bit 8 (ucast ssrc1) OR ucast ssrc0
     in MyInsn_of (le_bytes 4 cmd) 4 ''s_and_b32 '')"

definition create_s_mul_i32_const :: "u8 \<Rightarrow> u8 \<Rightarrow> u32 \<Rightarrow> MyInsn" where
  "create_s_mul_i32_const sdst ssrc1 ssrc0 =
    (let cmd = (0x80000000 :: u32);
         op = 36;
         cmd = cmd OR push_bit 23 op OR push_bit 16 (ucast sdst) OR push_bit 8 (ucast ssrc1) OR 255;
         cmd_high = ssrc0
     in MyInsn_of (le_bytes 4 cmd @ le_bytes 4 cmd_high) 8 ''s_and_b32 '')"

definition create_s_mul_hi_u32 :: "u32 \<Rightarrow> u32 \<Rightarrow> u32 \<Rightarrow> MyInsn" where
  "create_s_mul_hi_u32 sdst ssrc1 ssrc0 =
    (let cmd = (0x80000000 :: u32);
         op = 44;
         cmd = cmd OR push_bit 23 op OR push_bit 16 sdst OR push_bit 8 ssrc1 OR ssrc0
     in MyInsn_of (le_bytes 4 cmd) 4 ''s_and_b32 '')"

definition create_s_and_b32 :: "u32 \<Rightarrow> u32 \<Rightarrow> u32 \<Rightarrow> MyInsn" where
  "create_s_and_b32 sdst ssrc1 ssrc0 =
    (let cmd = (0x80000000 :: u32);
         op = 12;
         cmd = cmd OR push_bit 23 op OR push_bit 16 sdst OR push_bit 8 ssrc1 OR ssrc0
     in MyInsn_of (le_bytes 4 cmd) 4 ''s_and_b32 '')"

definition create_s_and_b32_simm32 :: "u32 \<Rightarrow> u32 \<Rightarrow> u32 \<Rightarrow> u32 \<Rightarrow> MyInsn" where
  "create_s_and_b32_simm32 sdst ssrc1 ssrc0 simm32 =
    (let cmd = (0x80000000 :: u32);
         op = 12;
         cmd = cmd OR push_bit 23 op OR push_bit 16 sdst OR push_bit 8 ssrc1 OR ssrc0
     in MyInsn_of (le_bytes 4 cmd @ le_bytes 4 simm32) 8 ''s_and_b32 '')"

definition create_s_add_u32 :: "u32 \<Rightarrow> u32 \<Rightarrow> u32 \<Rightarrow> bool \<Rightarrow> MyInsn" where
  "create_s_add_u32 sdst ssrc1 ssrc0 useImm =
    (let cmd = 0x80000000;
         op = 0x0
     in if useImm then
         let cmd = cmd OR push_bit 23 op OR push_bit 16 sdst OR push_bit 8 ssrc1 OR 0xff
         in MyInsn_of (le_bytes 4 cmd @ le_bytes 4 ssrc0) 8 ''s_add_u32 ''
        else
         let cmd = cmd OR push_bit 23 op OR push_bit 16 sdst OR push_bit 8 ssrc1 OR ssrc0
         in MyInsn_of (le_bytes 4 cmd) 4 ''s_add_u32 '')"

definition create_s_addc_u32 :: "u32 \<Rightarrow> u32 \<Rightarrow> u32 \<Rightarrow> bool \<Rightarrow> MyInsn" where
  "create_s_addc_u32 sdst ssrc1 ssrc0 useImm =
    (let cmd = 0x80000000;
         op = 0x4
     in if useImm then
         let cmd = cmd OR push_bit 23 op OR push_bit 16 sdst OR push_bit 8 ssrc1 OR 0xff
         in MyInsn_of (le_bytes 4 cmd @ le_bytes 4 ssrc0) 8 ''s_add_u32 ''
        else
         let cmd = cmd OR push_bit 23 op OR push_bit 16 sdst OR push_bit 8 ssrc1 OR ssrc0
         in MyInsn_of (le_bytes 4 cmd) 4 ''s_add_u32 '')"

definition create_s_sub_u32 :: "u32 \<Rightarrow> u32 \<Rightarrow> u32 \<Rightarrow> bool \<Rightarrow> MyInsn" where
  "create_s_sub_u32 sdst ssrc0 ssrc1 useImm =
    (let cmd = 0x80000000;
         op = 0x1
     in if useImm then
         let cmd = cmd OR push_bit 23 op OR push_bit 16 sdst OR push_bit 8 ssrc1 OR 0xff
         in MyInsn_of (le_bytes 4 cmd @ le_bytes 4 ssrc0) 8 ''s_add_u32 ''
        else
         let cmd = cmd OR push_bit 23 op OR push_bit 16 sdst OR push_bit 8 ssrc1 OR ssrc0
         in MyInsn_of (le_bytes 4 cmd) 4 ''s_sub_u32 '')"

definition create_s_subb_u32 :: "u32 \<Rightarrow> u32 \<Rightarrow> u32 \<Rightarrow> bool \<Rightarrow> MyInsn" where
  "create_s_subb_u32 sdst ssrc0 ssrc1 useImm =
    (let cmd = 0x80000000;
         op = 0x5
     in if useImm then
         let cmd = cmd OR push_bit 23 op OR push_bit 16 sdst OR push_bit 8 ssrc1 OR 0xff
         in MyInsn_of (le_bytes 4 cmd @ le_bytes 4 ssrc0) 8 ''s_subb_u32 ''
        else
         let cmd = cmd OR push_bit 23 op OR push_bit 16 sdst OR push_bit 8 ssrc1 OR ssrc0
         in MyInsn_of (le_bytes 4 cmd) 4 ''s_add_u32 '')"

definition create_s_memtime :: "u32 \<Rightarrow> MyInsn" where
  "create_s_memtime sgpr_pair =
    (let cmd_low = (0xc0000000 :: u32);
         cmd_high = (0x0 :: u32);
         op = 0x24;
         cmd_low = cmd_low OR push_bit 18 op OR push_bit 6 sgpr_pair
     in MyInsn_of (le_bytes 4 cmd_low @ le_bytes 4 cmd_high) 8 (''s_memtime '' @ to_string (unat sgpr_pair)))"

definition create_s_atomic_add :: "u32 \<Rightarrow> u32 \<Rightarrow> u32 \<Rightarrow> MyInsn" where
  "create_s_atomic_add sgpr_target_pair sgpr_addr_pair offset =
    (let cmd_low = (0xc0000000 :: u32);
         cmd_high = (0x0 :: u32);
         op = 130;
         imm = 1;
         cmd_low = cmd_low OR push_bit 18 op OR push_bit 17 imm OR push_bit 6 sgpr_target_pair OR drop_bit 1 sgpr_addr_pair;
         cmd_high = cmd_high OR offset
     in MyInsn_of (le_bytes 4 cmd_low @ le_bytes 4 cmd_high) 8 (''s_load_dword'' @ to_string (unat sgpr_target_pair)))"

definition create_s_atomic_inc :: "u32 \<Rightarrow> u32 \<Rightarrow> u32 \<Rightarrow> MyInsn" where
  "create_s_atomic_inc sgpr_target_pair sgpr_addr_pair offset =
    (let cmd_low = (0xc0000000 :: u32);
         cmd_high = (0x0 :: u32);
         op = 139;
         imm = 1;
         cmd_low = cmd_low OR push_bit 18 op OR push_bit 17 imm OR push_bit 6 sgpr_target_pair OR drop_bit 1 sgpr_addr_pair;
         cmd_high = cmd_high OR offset
     in MyInsn_of (le_bytes 4 cmd_low @ le_bytes 4 cmd_high) 8 (''s_load_dword'' @ to_string (unat sgpr_target_pair)))"

definition create_s_load_dword :: "u32 \<Rightarrow> u32 \<Rightarrow> u32 \<Rightarrow> MyInsn" where
  "create_s_load_dword sgpr_target_pair sgpr_addr_pair offset =
    (let cmd_low = (0xc0000000 :: u32);
         cmd_high = (0x0 :: u32);
         op = 0x0;
         imm = 1;
         cmd_low = cmd_low OR push_bit 18 op OR push_bit 17 imm OR push_bit 6 sgpr_target_pair OR drop_bit 1 sgpr_addr_pair;
         cmd_high = cmd_high OR offset
     in MyInsn_of (le_bytes 4 cmd_low @ le_bytes 4 cmd_high) 8 (''s_load_dword'' @ to_string (unat sgpr_target_pair)))"

definition create_s_load_dwordx2 :: "u32 \<Rightarrow> u32 \<Rightarrow> u32 \<Rightarrow> MyInsn" where
  "create_s_load_dwordx2 sgpr_target_pair sgpr_addr_pair offset =
    (let cmd_low = (0xc0000000 :: u32);
         cmd_high = (0x0 :: u32);
         op = 0x1;
         imm = 1;
         cmd_low = cmd_low OR push_bit 18 op OR push_bit 17 imm OR push_bit 6 sgpr_target_pair OR drop_bit 1 sgpr_addr_pair;
         cmd_high = cmd_high OR offset
     in MyInsn_of (le_bytes 4 cmd_low @ le_bytes 4 cmd_high) 8 (''s_load_dwordx2'' @ to_string (unat sgpr_target_pair)))"

definition create_s_load_dwordx4 :: "u32 \<Rightarrow> u32 \<Rightarrow> u32 \<Rightarrow> MyInsn" where
  "create_s_load_dwordx4 sgpr_target_pair sgpr_addr_pair offset =
    (let cmd_low = (0xc0000000 :: u32);
         cmd_high = (0x0 :: u32);
         op = 0x2;
         imm = 1;
         cmd_low = cmd_low OR push_bit 18 op OR push_bit 17 imm OR push_bit 6 sgpr_target_pair OR drop_bit 1 sgpr_addr_pair;
         cmd_high = cmd_high OR offset
     in MyInsn_of (le_bytes 4 cmd_low @ le_bytes 4 cmd_high) 8 (''s_load_dwordx4 '' @ to_string (unat sgpr_target_pair)))"

definition create_s_load_dwordx8 :: "u32 \<Rightarrow> u32 \<Rightarrow> u32 \<Rightarrow> MyInsn" where
  "create_s_load_dwordx8 sgpr_target_pair sgpr_addr_pair offset =
    (let cmd_low = (0xc0000000 :: u32);
         cmd_high = (0x0 :: u32);
         op = 0x3;
         imm = 1;
         cmd_low = cmd_low OR push_bit 18 op OR push_bit 17 imm OR push_bit 6 sgpr_target_pair OR drop_bit 1 sgpr_addr_pair;
         cmd_high = cmd_high OR offset
     in MyInsn_of (le_bytes 4 cmd_low @ le_bytes 4 cmd_high) 8 (''s_load_dwordx8 '' @ to_string (unat sgpr_target_pair)))"

definition create_s_store_dword_x4 :: "u32 \<Rightarrow> u32 \<Rightarrow> u32 \<Rightarrow> MyInsn" where
  "create_s_store_dword_x4 sgpr_target_pair sgpr_addr_pair offset =
    (let cmd_low = (0xc0000000 :: u32);
         cmd_high = (0x0 :: u32);
         op = 18;
         imm = 1;
         cmd_low = cmd_low OR push_bit 18 op OR push_bit 17 imm OR push_bit 6 sgpr_target_pair OR drop_bit 1 sgpr_addr_pair;
         cmd_high = cmd_high OR offset
     in MyInsn_of (le_bytes 4 cmd_low @ le_bytes 4 cmd_high) 8 (''s_load_dwordx4 '' @ to_string (unat sgpr_target_pair)))"

definition create_s_store_dword_x2 :: "u32 \<Rightarrow> u32 \<Rightarrow> u32 \<Rightarrow> MyInsn" where
  "create_s_store_dword_x2 s_data_pair s_base_pair offset =
    (let cmd_low = (0xc0000000 :: u32);
         cmd_high = (0x0 :: u32);
         op = 17;
         imm = 1;
         cmd_low = cmd_low OR push_bit 18 op OR push_bit 17 imm OR push_bit 6 s_data_pair OR drop_bit 1 s_base_pair;
         cmd_high = cmd_high OR offset
     in MyInsn_of (le_bytes 4 cmd_low @ le_bytes 4 cmd_high) 8 ''s_store_dword_x2 '')"

definition create_global_store_dword_x2 :: "u32 \<Rightarrow> u32 \<Rightarrow> u32 \<Rightarrow> MyInsn" where
  "create_global_store_dword_x2 s_data_pair s_base_pair offset =
    (let cmd_low = (0xdc030000 :: u32);
         cmd_high = (0x0 :: u32);
         op = 29;
         cmd_low = cmd_low OR push_bit 18 op OR push_bit 14 2 OR offset;
         cmd_high = cmd_high OR push_bit 16 0x7f OR push_bit 8 s_data_pair OR s_base_pair
     in MyInsn_of (le_bytes 4 cmd_low @ le_bytes 4 cmd_high) 8 ''flat_store_dword_x2 '')"

definition create_global_atomic_add :: "u32 \<Rightarrow> u32 \<Rightarrow> u32 \<Rightarrow> MyInsn" where
  "create_global_atomic_add s_data_pair s_base_pair offset =
    (let cmd_low = (0xde000000 :: u32);
         cmd_high = (0x0 :: u32);
         op = 66;
         cmd_low = cmd_low OR push_bit 18 op OR push_bit 14 2 OR offset;
         cmd_high = cmd_high OR push_bit 16 0x7f OR push_bit 8 s_data_pair OR s_base_pair
     in MyInsn_of (le_bytes 4 cmd_low @ le_bytes 4 cmd_high) 8 ''flat_store_dword_x2 '')"

definition create_global_atomic_inc :: "u32 \<Rightarrow> u32 \<Rightarrow> u32 \<Rightarrow> MyInsn" where
  "create_global_atomic_inc s_data_pair s_base_pair offset =
    (let cmd_low = (0xde000000 :: u32);
         cmd_high = (0x0 :: u32);
         op = 75;
         cmd_low = cmd_low OR push_bit 18 op OR push_bit 14 2 OR offset;
         cmd_high = cmd_high OR push_bit 16 0x7f OR push_bit 8 s_data_pair OR s_base_pair
     in MyInsn_of (le_bytes 4 cmd_low @ le_bytes 4 cmd_high) 8 ''flat_store_dword_x2 '')"

definition create_flat_store_dword_x2 :: "u32 \<Rightarrow> u32 \<Rightarrow> u32 \<Rightarrow> MyInsn" where
  "create_flat_store_dword_x2 s_data_pair s_base_pair offset =
    (let cmd_low = (0xdc000000 :: u32);
         cmd_high = (0x0 :: u32);
         op = 29;
         cmd_low = cmd_low OR push_bit 18 op OR offset;
         cmd_high = cmd_high OR push_bit 8 s_data_pair OR s_base_pair
     in MyInsn_of (le_bytes 4 cmd_low @ le_bytes 4 cmd_high) 8 ''flat_store_dword_x2 '')"

definition create_flat_store_dword :: "u32 \<Rightarrow> u32 \<Rightarrow> u32 \<Rightarrow> MyInsn" where
  "create_flat_store_dword s_data_pair s_base_pair offset =
    (let cmd_low = (0xdc000000 :: u32);
         cmd_high = (0x0 :: u32);
         op = 28;
         cmd_low = cmd_low OR push_bit 18 op OR offset;
         cmd_high = cmd_high OR push_bit 8 s_data_pair OR s_base_pair
     in MyInsn_of (le_bytes 4 cmd_low @ le_bytes 4 cmd_high) 8 ''flat_store_dword '')"

definition create_ds_write_b32 :: "u32 \<Rightarrow> u32 \<Rightarrow> MyInsn" where
  "create_ds_write_b32 vgpr_addr vgpr_data =
    (let cmd_low = (0xda000000 :: u32);
         cmd_high = (0x0 :: u32);
         op = 13;
         cmd_low = cmd_low OR push_bit 17 op;
         cmd_high = cmd_high OR push_bit 8 vgpr_data OR vgpr_addr
     in MyInsn_of (le_bytes 4 cmd_low @ le_bytes 4 cmd_high) 8 ''flat_store_dword '')"

definition create_ds_add_u32 :: "u32 \<Rightarrow> u32 \<Rightarrow> u32 \<Rightarrow> MyInsn" where
  "create_ds_add_u32 vgpr_addr vgpr_data offset =
    (let cmd_low = (0xda000000 :: u32);
         cmd_high = (0x0 :: u32);
         op = 0;
         cmd_low = cmd_low OR push_bit 17 op OR offset;
         cmd_high = cmd_high OR push_bit 8 vgpr_data OR vgpr_addr
     in MyInsn_of (le_bytes 4 cmd_low @ le_bytes 4 cmd_high) 8 ''flat_store_dword '')"

definition create_ds_inc_u32 :: "u32 \<Rightarrow> u32 \<Rightarrow> u32 \<Rightarrow> MyInsn" where
  "create_ds_inc_u32 vgpr_addr vgpr_data offset =
    (let cmd_low = (0xda000000 :: u32);
         cmd_high = (0x0 :: u32);
         op = 3;
         cmd_low = cmd_low OR push_bit 17 op OR offset;
         cmd_high = cmd_high OR push_bit 8 vgpr_data OR vgpr_addr
     in MyInsn_of (le_bytes 4 cmd_low @ le_bytes 4 cmd_high) 8 ''flat_store_dword '')"

definition create_ds_write_u32 :: "u32 \<Rightarrow> u32 \<Rightarrow> MyInsn" where
  "create_ds_write_u32 vgpr_addr vgpr_data =
    (let cmd_low = (0xda000000 :: u32);
         cmd_high = (0x0 :: u32);
         op = 13;
         cmd_low = cmd_low OR push_bit 17 op;
         cmd_high = cmd_high OR push_bit 8 vgpr_data OR vgpr_addr
     in MyInsn_of (le_bytes 4 cmd_low @ le_bytes 4 cmd_high) 8 ''flat_store_dword '')"

definition create_ds_write_b64 :: "u32 \<Rightarrow> u32 \<Rightarrow> u32 \<Rightarrow> MyInsn" where
  "create_ds_write_b64 vgpr_addr vgpr_data offset =
    (let cmd_low = (0xda000000 :: u32);
         cmd_high = (0x0 :: u32);
         op = 77;
         cmd_low = cmd_low OR push_bit 17 op OR offset;
         cmd_high = cmd_high OR push_bit 8 vgpr_data OR vgpr_addr
     in MyInsn_of (le_bytes 4 cmd_low @ le_bytes 4 cmd_high) 8 ''flat_store_dword '')"

definition create_ds_read_b64 :: "u32 \<Rightarrow> u32 \<Rightarrow> u32 \<Rightarrow> MyInsn" where
  "create_ds_read_b64 vgpr_addr vdst offset =
    (let cmd_low = (0xda000000 :: u32);
         cmd_high = (0x0 :: u32);
         op = 118;
         cmd_low = cmd_low OR push_bit 17 op OR offset;
         cmd_high = cmd_high OR push_bit 24 vdst OR vgpr_addr
     in MyInsn_of (le_bytes 4 cmd_low @ le_bytes 4 cmd_high) 8 ''flat_store_dword '')"

definition create_v_readlane_b32 :: "u32 \<Rightarrow> u32 \<Rightarrow> u32 \<Rightarrow> MyInsn" where
  "create_v_readlane_b32 vdst src1 src0 =
    (let cmd_low = (0xd0000000 :: u32);
         cmd_high = (0x0 :: u32);
         op = 649;
         cmd_low = cmd_low OR push_bit 16 op OR vdst;
         cmd_high = cmd_high OR push_bit 9 (src1 OR 0x80) OR (src0 OR 0x100)
     in MyInsn_of (le_bytes 4 cmd_low @ le_bytes 4 cmd_high) 8 ''flat_store_dword '')"

definition create_v_writelane_b32 :: "u32 \<Rightarrow> u32 \<Rightarrow> u32 \<Rightarrow> MyInsn" where
  "create_v_writelane_b32 vdst src1 src0 =
    (let cmd_low = (0xd0000000 :: u32);
         cmd_high = (0x0 :: u32);
         op = 0x28A;
         cmd_low = cmd_low OR push_bit 16 op OR vdst;
         cmd_high = cmd_high OR push_bit 9 (src1 OR 0x80) OR src0
     in MyInsn_of (le_bytes 4 cmd_low @ le_bytes 4 cmd_high) 8 ''v_writelane '')"

text \<open>
  The check requires four bytes and the read takes the four after them: \<open>None\<close> is a failed
  assertion or a read past the end.
\<close>

definition get_addr_from_flat :: "bytes \<Rightarrow> u32 option" where
  "get_addr_from_flat instr =
     (if length instr < 8 then None
      else let cmd_low = (le_word (take 4 (drop 4 instr)) :: u32) in Some (cmd_low AND 0x00FF))"

section \<open>Where a branch goes\<close>

text \<open>
  The processor adds to the address of the instruction after the branch four times the signed
  16-bit field in its low half.
\<close>

definition jump_target :: "u32 \<Rightarrow> bytes \<Rightarrow> u32" where
  "jump_target addr cmd = addr + 4 + 4 * scast (le_word (take 2 cmd) :: 16 word)"

definition in_reach :: "u32 \<Rightarrow> u32 \<Rightarrow> bool" where
  "in_reach addr target \<longleftrightarrow> 4 dvd sint (target - addr - 4)
     \<and> - 131072 \<le> sint (target - addr - 4) \<and> sint (target - addr - 4) < 131072"

lemma word_of_sint: "sint w = k \<Longrightarrow> w = word_of_int k"
  for w :: "'a::len word"
  by (metis scast_eq scast_id)

lemma displacement_int:
  assumes "4 dvd sint d" "- 131072 \<le> sint d" "sint d < 131072"
  shows "4 * scast (ucast (signed_drop_bit 2 (d :: u32)) :: 16 word) = d"
proof -
  from assms(1) obtain k where k: "sint d = 4 * k" by blast
  have "sint (signed_drop_bit 2 d) = k" by (simp add: sint_signed_drop_bit_eq drop_bit_eq_div k)
  then have d: "signed_drop_bit 2 d = word_of_int k" by (rule word_of_sint)
  have "(ucast (word_of_int k :: u32) :: 16 word) = word_of_int k"
    by (intro bit_word_eqI) (simp add: bit_simps)
  moreover have "sint (word_of_int k :: 16 word) = k"
    using assms(2,3) k by (simp add: signed_of_int signed_take_bit_int_eq_self)
  ultimately have "scast (ucast (signed_drop_bit 2 d) :: 16 word) = (word_of_int k :: u32)"
    by (simp add: d scast_eq)
  moreover have "d = word_of_int (4 * k)" using k by (rule word_of_sint)
  ultimately show ?thesis by simp
qed

text \<open>The unsigned quotient of \<open>create_s_branch\<close> has the same low half.\<close>

lemma displacement_unsigned:
  "(ucast ((d :: u32) div 4 AND 0xffff) :: 16 word) = ucast (signed_drop_bit 2 d)"
proof -
  have "d div 4 AND 0xffff = take_bit 16 (drop_bit 2 d)"
    by (simp add: take_bit_eq_mask mask_eq_exp_minus_1 drop_bit_eq_div)
  then show ?thesis by (intro bit_word_eqI) (auto simp: bit_simps)
qed

lemma low_half: "(le_word (take 2 (le_bytes 4 (c :: u32))) :: 16 word) = ucast c"
proof (rule bit_word_eqI)
  fix n assume n: "n < LENGTH(16)"
  then have "n div 8 < 2" by auto
  then have "take 2 (le_bytes 4 c) ! (n div 8) = ucast (drop_bit (8 * (n div 8)) c)" by (simp add: nth_le_bytes)
  then show "bit (le_word (take 2 (le_bytes 4 c)) :: 16 word) n = bit (ucast c :: 16 word) n"
    using n by (simp add: bit_le_word bit_simps)
qed

lemma low_half_bytes: "(le_word (take 2 (le_bytes 2 (c :: 16 word) @ r)) :: 16 word) = c"
  by (simp add: le_word_le_bytes)

lemma jump_target_displacement:
  assumes "in_reach addr target"
  shows "addr + 4 + 4 * scast (ucast (signed_drop_bit 2 (target - addr - 4)) :: 16 word) = target"
  using displacement_int [of "target - addr - 4"] assms by (simp add: in_reach_def)

lemma halves:
  fixes s :: "16 word" and hi :: u32
  shows "(ucast (push_bit 16 hi OR ucast s) :: 16 word) = s" "drop_bit 16 (push_bit 16 hi OR ucast s) = take_bit 16 hi"
  by (intro bit_word_eqI; auto simp: bit_simps dest: bit_imp_le_length)+

lemma s_branch_word:
  fixes simm16 :: "16 word"
  defines "c \<equiv> (0xbf800000 OR 0x20000 OR ucast simm16 :: u32)"
  shows "(ucast c :: 16 word) = simm16" "c AND 0xff800000 = 0xbf800000" "drop_bit 16 c AND 0x7f = 2"
proof -
  have c: "c = push_bit 16 0xbf82 OR ucast simm16"
    by (simp add: c_def flip: or.assoc)
  show "(ucast c :: 16 word) = simm16" unfolding c by (rule halves)
  have high: "drop_bit 16 c = 0xbf82" unfolding c halves(2) by simp
  then show "drop_bit 16 c AND 0x7f = 2" by simp
  have "c AND push_bit 16 m = push_bit 16 (drop_bit 16 c AND m)" for m :: u32
    by (intro bit_word_eqI) (auto simp: bit_simps)
  from this [where m = "0xff80"] show "c AND 0xff800000 = 0xbf800000" unfolding high by simp
qed

lemma s_branch_shape:
  "\<exists>c :: u32. create_s_branch addr target None = MyBranchInsn_of addr target (le_bytes 4 c) 4 ''s_branch ''
    \<and> (ucast c :: 16 word) = ucast (signed_drop_bit 2 (target - addr - 4))
    \<and> c AND 0xff800000 = 0xbf800000 \<and> drop_bit 16 c AND 0x7f = 2"
proof (intro exI conjI)
  let ?s = "ucast (signed_drop_bit 2 (target - addr - 4)) :: 16 word"
  show "create_s_branch addr target None
      = MyBranchInsn_of addr target (le_bytes 4 (0xbf800000 OR 0x20000 OR ucast ?s :: u32)) 4 ''s_branch ''"
    by (simp add: create_s_branch_def displacement_unsigned)
qed (rule s_branch_word)+

lemma displacement_reach:
  assumes "d = 4 * scast (x :: 16 word)"
  shows "4 dvd sint d \<and> - 131072 \<le> sint d \<and> sint (d :: u32) < 131072"
proof -
  have x: "- 32768 \<le> sint x" "sint x < 32768" using sint_ge [of x] sint_lt [of x] by simp_all
  have "4 * scast x = (word_of_int (4 * sint x) :: u32)" by simp
  with assms have d: "d = word_of_int (4 * sint x)" by (rule trans)
  have small: "sint (word_of_int k :: u32) = k" if "- 131072 \<le> k" "k < 131072" for k
    using that by (simp add: signed_of_int signed_take_bit_int_eq_self)
  have "sint d = 4 * sint x" unfolding d by (rule small) (use x in simp_all)
  with x show ?thesis by simp
qed

lemma s_branch_correct:
  "(jump_target addr (insn_ptr (create_s_branch addr target None)) = target \<longleftrightarrow> in_reach addr target)
    \<and> convert_to_branch_insn addr target (insn_ptr (create_s_branch addr target None)) 4
        = Some (create_s_branch addr target None)"
proof -
  obtain c :: u32 where c: "create_s_branch addr target None = MyBranchInsn_of addr target (le_bytes 4 c) 4 ''s_branch ''"
    "(ucast c :: 16 word) = ucast (signed_drop_bit 2 (target - addr - 4))"
    "c AND 0xff800000 = 0xbf800000" "drop_bit 16 c AND 0x7f = 2" using s_branch_shape by blast
  have bytes: "insn_ptr (create_s_branch addr target None) = le_bytes 4 c"
    by (simp add: c(1) MyBranchInsn_of_def)
  have again: "create_s_branch addr target (Some (le_bytes 4 c)) = create_s_branch addr target None"
    unfolding c(1) by (simp add: create_s_branch_def)
  have "(le_word (take 4 (le_bytes 4 c)) :: u32) = c" by (simp add: le_word_le_bytes)
  then have "convert_to_branch_insn addr target (insn_ptr (create_s_branch addr target None)) 4
        = Some (create_s_branch addr target None)"
    by (simp add: bytes c(3,4) again convert_to_branch_insn_def Let_def)
  moreover have "in_reach addr target" if "jump_target addr (le_bytes 4 c) = target"
  proof -
    from that have "target - addr - 4 = 4 * scast (ucast c :: 16 word)"
      by (auto simp: jump_target_def low_half algebra_simps)
    from displacement_reach [OF this] show ?thesis by (simp add: in_reach_def)
  qed
  ultimately show ?thesis
    using jump_target_displacement [of addr target] by (auto simp: bytes jump_target_def low_half c(2))
qed

lemma jump_reach:
  "jump_target addr (insn_ptr (create_s_branch addr target None)) = target \<longleftrightarrow> in_reach addr target"
  using s_branch_correct by blast

text \<open>
  C32: a branch made by \<open>create_s_branch\<close> goes to its target exactly when the distance is a multiple
  of four that fits the 16-bit field, which the encoder does not check; the branch is recognised
  again as the same branch.
\<close>

theorem s_branch_reaches_target:
  "(jump_target addr (insn_ptr (create_s_branch addr target None)) = target \<longleftrightarrow> in_reach addr target)
    \<and> convert_to_branch_insn addr target (insn_ptr (create_s_branch addr target None)) 4
        = Some (create_s_branch addr target None)"
  by (rule s_branch_correct)



section \<open>The fields of an encoding\<close>

definition bits_at :: "nat \<Rightarrow> nat \<Rightarrow> u32 \<Rightarrow> u32" where
  "bits_at off len w = take_bit len (drop_bit off w)"

lemma small_word: "unat w < 2 ^ n \<Longrightarrow> bit w k \<Longrightarrow> k < n"
  for w :: u32
proof -
  assume w: "unat w < 2 ^ n" and k: "bit w k"
  then have "take_bit n (unat w) = unat w" by (simp add: take_bit_nat_eq_self)
  moreover from k have "bit (unat w) k" by (simp add: bit_simps)
  ultimately show "k < n" by (metis bit_take_bit_iff)
qed

text \<open>The common word of the two-operand scalar instructions, and its fields.\<close>

definition sop2_word :: "u32 \<Rightarrow> u32 \<Rightarrow> u32 \<Rightarrow> u32 \<Rightarrow> u32" where
  "sop2_word op sdst ssrc1 ssrc0 = 0x80000000 OR push_bit 23 op OR push_bit 16 sdst OR push_bit 8 ssrc1 OR ssrc0"

lemma sop2_fields:
  assumes "unat op < 2 ^ 7" "unat sdst < 2 ^ 7" "unat ssrc1 < 2 ^ 8" "unat ssrc0 < 2 ^ 8"
  shows "bits_at 30 2 (sop2_word op sdst ssrc1 ssrc0) = 2" "bits_at 23 7 (sop2_word op sdst ssrc1 ssrc0) = op"
    "bits_at 16 7 (sop2_word op sdst ssrc1 ssrc0) = sdst" "bits_at 8 8 (sop2_word op sdst ssrc1 ssrc0) = ssrc1"
    "bits_at 0 8 (sop2_word op sdst ssrc1 ssrc0) = ssrc0"
proof -
  have top: "(0x80000000 :: u32) = push_bit 31 1" "(2 :: u32) = push_bit 1 1" by simp_all
  note small = small_word [OF assms(1)] small_word [OF assms(2)] small_word [OF assms(3)] small_word [OF assms(4)]
  show "bits_at 30 2 (sop2_word op sdst ssrc1 ssrc0) = 2"
    unfolding bits_at_def sop2_word_def top
    by (intro bit_word_eqI) (auto simp: bit_simps dest: small)
  show "bits_at 23 7 (sop2_word op sdst ssrc1 ssrc0) = op"
    unfolding bits_at_def sop2_word_def top
    by (intro bit_word_eqI) (auto simp: bit_simps dest: small)
  show "bits_at 16 7 (sop2_word op sdst ssrc1 ssrc0) = sdst"
    unfolding bits_at_def sop2_word_def top
    by (intro bit_word_eqI) (auto simp: bit_simps dest: small)
  show "bits_at 8 8 (sop2_word op sdst ssrc1 ssrc0) = ssrc1"
    unfolding bits_at_def sop2_word_def top
    by (intro bit_word_eqI) (auto simp: bit_simps dest: small)
  show "bits_at 0 8 (sop2_word op sdst ssrc1 ssrc0) = ssrc0"
    unfolding bits_at_def sop2_word_def top
    by (intro bit_word_eqI) (auto simp: bit_simps dest: small)
qed

text \<open>The low word of the scalar memory instructions.\<close>

definition smem_word :: "u32 \<Rightarrow> u32 \<Rightarrow> u32 \<Rightarrow> u32" where
  "smem_word op data base =
     0xc0000000 OR push_bit 18 op OR push_bit 17 1 OR push_bit 6 data OR drop_bit 1 base"

lemma smem_fields:
  assumes "unat op < 2 ^ 8" "unat data < 2 ^ 7" "unat base < 2 ^ 7"
  shows "bits_at 26 6 (smem_word op data base) = 0x30" "bits_at 18 8 (smem_word op data base) = op"
    "bits_at 17 1 (smem_word op data base) = 1" "bits_at 6 7 (smem_word op data base) = data"
    "bits_at 0 6 (smem_word op data base) = drop_bit 1 base"
proof -
  have top: "(0xc0000000 :: u32) = push_bit 31 1 OR push_bit 30 1" "(0x30 :: u32) = push_bit 5 1 OR push_bit 4 1"
    by simp_all
  note small = small_word [OF assms(1)] small_word [OF assms(2)] small_word [OF assms(3)]
  show "bits_at 26 6 (smem_word op data base) = 0x30"
    unfolding bits_at_def smem_word_def top
    by (intro bit_word_eqI) (auto simp: bit_simps dest: small)
  show "bits_at 18 8 (smem_word op data base) = op"
    unfolding bits_at_def smem_word_def top
    by (intro bit_word_eqI) (auto simp: bit_simps dest: small)
  show "bits_at 17 1 (smem_word op data base) = 1"
    unfolding bits_at_def smem_word_def top
    by (intro bit_word_eqI) (auto simp: bit_simps dest: small)
  show "bits_at 6 7 (smem_word op data base) = data"
    unfolding bits_at_def smem_word_def top
    by (intro bit_word_eqI) (auto simp: bit_simps dest: small)
  show "bits_at 0 6 (smem_word op data base) = drop_bit 1 base"
    unfolding bits_at_def smem_word_def top
    by (intro bit_word_eqI) (auto simp: bit_simps dest: small)
qed

text \<open>The opcode and the encoder, as a function of destination and sources.\<close>

definition sop2_encoders :: "(u32 \<times> (u32 \<Rightarrow> u32 \<Rightarrow> u32 \<Rightarrow> MyInsn)) list" where
  "sop2_encoders =
     [(0, \<lambda>d s1 s0. create_s_add_u32 d s1 s0 False), (1, \<lambda>d s1 s0. create_s_sub_u32 d s0 s1 False),
      (4, \<lambda>d s1 s0. create_s_addc_u32 d s1 s0 False), (5, \<lambda>d s1 s0. create_s_subb_u32 d s0 s1 False),
      (12, create_s_and_b32), (28, create_s_lshl_b32), (29, create_s_lshl_b64), (30, create_s_lshr_b32),
      (32, create_s_ashr_i32), (44, create_s_mul_hi_u32)]"

definition smem_encoders :: "(u32 \<times> (u32 \<Rightarrow> u32 \<Rightarrow> u32 \<Rightarrow> MyInsn)) list" where
  "smem_encoders =
     [(0, create_s_load_dword), (1, create_s_load_dwordx2), (2, create_s_load_dwordx4), (3, create_s_load_dwordx8),
      (17, create_s_store_dword_x2), (18, create_s_store_dword_x4), (130, create_s_atomic_add), (139, create_s_atomic_inc)]"

lemma sop2_encoder:
  "(op, enc) \<in> set sop2_encoders \<Longrightarrow> insn_ptr (enc d s1 s0) = le_bytes 4 (sop2_word op d s1 s0)
     \<and> insn_size (enc d s1 s0) = 4 \<and> unat op < 2 ^ 7"
  unfolding sop2_encoders_def
  by (auto simp: MyInsn_of_def sop2_word_def create_s_add_u32_def create_s_sub_u32_def create_s_addc_u32_def
      create_s_subb_u32_def create_s_and_b32_def create_s_lshl_b32_def create_s_lshl_b64_def create_s_lshr_b32_def
      create_s_ashr_i32_def create_s_mul_hi_u32_def)

lemma smem_encoder:
  "(op, enc) \<in> set smem_encoders \<Longrightarrow>
     insn_ptr (enc data base offset) = le_bytes 4 (smem_word op data base) @ le_bytes 4 offset
     \<and> insn_size (enc data base offset) = 8 \<and> unat op < 2 ^ 8"
  unfolding smem_encoders_def
  by (auto simp: MyInsn_of_def smem_word_def create_s_load_dword_def create_s_load_dwordx2_def create_s_load_dwordx4_def
      create_s_load_dwordx8_def create_s_store_dword_x2_def create_s_store_dword_x4_def create_s_atomic_add_def
      create_s_atomic_inc_def)

text \<open>
  C34: the encoders of scalar arithmetic and scalar memory instructions put every operand in its
  field: as long as the registers fit, format, opcode and operands are read back from the bytes,
  so that distinct instructions have distinct encodings.
\<close>

theorem encoders_decode:
  assumes "unat x < 2 ^ 7" "unat y < 2 ^ 7" "unat z < 2 ^ 8"
  shows "(\<forall>(op, enc)\<in>set sop2_encoders. \<exists>c. insn_ptr (enc x y z) = le_bytes 4 c \<and> insn_size (enc x y z) = 4
      \<and> bits_at 30 2 c = 2 \<and> bits_at 23 7 c = op \<and> bits_at 16 7 c = x \<and> bits_at 8 8 c = y \<and> bits_at 0 8 c = z)
    \<and> (\<forall>(op, enc)\<in>set smem_encoders. \<exists>c. insn_ptr (enc x y offset) = le_bytes 4 c @ le_bytes 4 offset
      \<and> insn_size (enc x y offset) = 8 \<and> bits_at 26 6 c = 0x30 \<and> bits_at 18 8 c = op \<and> bits_at 17 1 c = 1
      \<and> bits_at 6 7 c = x \<and> bits_at 0 6 c = drop_bit 1 y)"
proof (intro conjI ballI; clarify)
  fix op enc assume "(op, enc) \<in> set sop2_encoders"
  note enc = sop2_encoder [OF this, of x y z]
  moreover have "unat y < 2 ^ 8" using assms(2) by simp
  ultimately show "\<exists>c. insn_ptr (enc x y z) = le_bytes 4 c \<and> insn_size (enc x y z) = 4
      \<and> bits_at 30 2 c = 2 \<and> bits_at 23 7 c = op \<and> bits_at 16 7 c = x \<and> bits_at 8 8 c = y \<and> bits_at 0 8 c = z"
    using sop2_fields [of op x y z] assms(1,3) by (intro exI [of _ "sop2_word op x y z"]) simp
next
  fix op enc assume "(op, enc) \<in> set smem_encoders"
  note enc = smem_encoder [OF this, of x y offset]
  then show "\<exists>c. insn_ptr (enc x y offset) = le_bytes 4 c @ le_bytes 4 offset
      \<and> insn_size (enc x y offset) = 8 \<and> bits_at 26 6 c = 0x30 \<and> bits_at 18 8 c = op \<and> bits_at 17 1 c = 1
      \<and> bits_at 6 7 c = x \<and> bits_at 0 6 c = drop_bit 1 y"
    using smem_fields [of op x y] assms(1,2) by (intro exI [of _ "smem_word op x y"]) simp
qed

theorem encoders_decode_witness:
  "\<exists>c. insn_ptr (create_s_lshl_b64 12 100 4) = le_bytes 4 c \<and> bits_at 23 7 c = 29 \<and> bits_at 16 7 c = 12"
  using encoders_decode [of 12 100 4] by (auto simp: sop2_encoders_def)

end
