(* ===== verification/Msgpack_Hints.thy ===== *)
theory Msgpack_Hints
  imports HT_Prelude
begin

text \<open>
  The two lookup tables of \<^verbatim>\<open>hip/hints.c\<close>: the type of a MessagePack item by its first byte
  (\<open>mp_type_hint\<close>) and the number of bytes or items that follow it (\<open>mp_parser_hint\<close>).
  The tables are written fold by fold, as the source groups them; \<open>mp_typeof_cases\<close> and
  \<open>mp_parser_hint_cases\<close> give them back as intervals of the first byte.
\<close>

section \<open>Types by first byte\<close>

datatype mp_type = MP_NIL | MP_UINT | MP_INT | MP_STR | MP_BIN | MP_ARRAY | MP_MAP
  | MP_BOOL | MP_FLOAT | MP_DOUBLE | MP_EXT

definition mp_type_hint_fixuint :: "mp_type list" where
  "mp_type_hint_fixuint = replicate 128 MP_UINT"

definition mp_type_hint_fixmap :: "mp_type list" where
  "mp_type_hint_fixmap = replicate 16 MP_MAP"

definition mp_type_hint_fixarray :: "mp_type list" where
  "mp_type_hint_fixarray = replicate 16 MP_ARRAY"

definition mp_type_hint_fixstr :: "mp_type list" where
  "mp_type_hint_fixstr = replicate 32 MP_STR"

definition mp_type_hint_c0_df :: "mp_type list" where
  "mp_type_hint_c0_df =
     [MP_NIL, MP_EXT, MP_BOOL, MP_BOOL] @
     [MP_BIN, MP_BIN, MP_BIN] @
     [MP_EXT, MP_EXT, MP_EXT] @
     [MP_FLOAT, MP_DOUBLE] @
     [MP_UINT, MP_UINT, MP_UINT, MP_UINT] @
     [MP_INT, MP_INT, MP_INT, MP_INT] @
     [MP_EXT, MP_EXT, MP_EXT, MP_EXT, MP_EXT] @
     [MP_STR, MP_STR, MP_STR] @
     [MP_ARRAY, MP_ARRAY] @
     [MP_MAP, MP_MAP]"

definition mp_type_hint_fixint :: "mp_type list" where
  "mp_type_hint_fixint = replicate 32 MP_INT"

definition mp_type_hint :: "mp_type list" where
  "mp_type_hint = mp_type_hint_fixuint @ mp_type_hint_fixmap @ mp_type_hint_fixarray @
     mp_type_hint_fixstr @ mp_type_hint_c0_df @ mp_type_hint_fixint"

definition mp_typeof :: "u8 \<Rightarrow> mp_type" where
  "mp_typeof c = mp_type_hint ! unat c"

section \<open>Item sizes by first byte\<close>

text \<open>The special values that \<open>mp_next\<close> and \<open>mp_check\<close> switch on.\<close>

definition MP_HINT :: int where "MP_HINT = -32"
definition MP_HINT_STR_8 :: int where "MP_HINT_STR_8 = MP_HINT"
definition MP_HINT_STR_16 :: int where "MP_HINT_STR_16 = MP_HINT - 1"
definition MP_HINT_STR_32 :: int where "MP_HINT_STR_32 = MP_HINT - 2"
definition MP_HINT_ARRAY_16 :: int where "MP_HINT_ARRAY_16 = MP_HINT - 3"
definition MP_HINT_ARRAY_32 :: int where "MP_HINT_ARRAY_32 = MP_HINT - 4"
definition MP_HINT_MAP_16 :: int where "MP_HINT_MAP_16 = MP_HINT - 5"
definition MP_HINT_MAP_32 :: int where "MP_HINT_MAP_32 = MP_HINT - 6"
definition MP_HINT_EXT_8 :: int where "MP_HINT_EXT_8 = MP_HINT - 7"
definition MP_HINT_EXT_16 :: int where "MP_HINT_EXT_16 = MP_HINT - 8"
definition MP_HINT_EXT_32 :: int where "MP_HINT_EXT_32 = MP_HINT - 9"

lemmas mp_hint_defs = MP_HINT_def MP_HINT_STR_8_def MP_HINT_STR_16_def MP_HINT_STR_32_def
  MP_HINT_ARRAY_16_def MP_HINT_ARRAY_32_def MP_HINT_MAP_16_def MP_HINT_MAP_32_def
  MP_HINT_EXT_8_def MP_HINT_EXT_16_def MP_HINT_EXT_32_def

definition mp_parser_hint_fixuint :: "int list" where
  "mp_parser_hint_fixuint = replicate 128 0"

definition mp_parser_hint_fixmap :: "int list" where
  "mp_parser_hint_fixmap =
     [0, -2, -4, -6, -8, -10, -12, -14, -16, -18, -20, -22, -24, -26, -28, -30]"

definition mp_parser_hint_fixarray :: "int list" where
  "mp_parser_hint_fixarray =
     [0, -1, -2, -3, -4, -5, -6, -7, -8, -9, -10, -11, -12, -13, -14, -15]"

definition mp_parser_hint_fixstr :: "int list" where
  "mp_parser_hint_fixstr =
     [0, 1, 2, 3, 4, 5, 6, 7, 8, 9, 10, 11, 12, 13, 14, 15,
      16, 17, 18, 19, 20, 21, 22, 23, 24, 25, 26, 27, 28, 29, 30, 31]"

definition mp_parser_hint_c0_df :: "int list" where
  "mp_parser_hint_c0_df =
     [0, 0, 0, 0] @
     [MP_HINT_STR_8, MP_HINT_STR_16, MP_HINT_STR_32] @
     [MP_HINT_EXT_8, MP_HINT_EXT_16, MP_HINT_EXT_32] @
     [4, 8] @
     [1, 2, 4, 8] @
     [1, 2, 4, 8] @
     [2, 3, 5, 9, 17] @
     [MP_HINT_STR_8, MP_HINT_STR_16, MP_HINT_STR_32] @
     [MP_HINT_ARRAY_16, MP_HINT_ARRAY_32] @
     [MP_HINT_MAP_16, MP_HINT_MAP_32]"

definition mp_parser_hint_fixint :: "int list" where
  "mp_parser_hint_fixint = replicate 32 0"

definition mp_parser_hint_table :: "int list" where
  "mp_parser_hint_table = mp_parser_hint_fixuint @ mp_parser_hint_fixmap @
     mp_parser_hint_fixarray @ mp_parser_hint_fixstr @ mp_parser_hint_c0_df @
     mp_parser_hint_fixint"

definition mp_parser_hint :: "u8 \<Rightarrow> int" where
  "mp_parser_hint c = mp_parser_hint_table ! unat c"

lemmas mp_type_hint_defs = mp_type_hint_def mp_type_hint_fixuint_def mp_type_hint_fixmap_def
  mp_type_hint_fixarray_def mp_type_hint_fixstr_def mp_type_hint_c0_df_def
  mp_type_hint_fixint_def

lemmas mp_parser_hint_defs = mp_parser_hint_table_def mp_parser_hint_fixuint_def
  mp_parser_hint_fixmap_def mp_parser_hint_fixarray_def mp_parser_hint_fixstr_def
  mp_parser_hint_c0_df_def mp_parser_hint_fixint_def

section \<open>The tables as intervals\<close>

text \<open>Both tables have an entry for each byte, so no lookup leaves them.\<close>

lemma length_mp_type_hint: "length mp_type_hint = 256"
  by (simp add: mp_type_hint_defs)

lemma length_mp_parser_hint: "length mp_parser_hint_table = 256"
  by (simp add: mp_parser_hint_defs)

lemma table_nth_u8:
  assumes "tab = map (\<lambda>n. f (word_of_nat n :: u8)) [0..<256]"
  shows "tab ! unat c = f c"
  using unat_u8_less [of c] by (simp add: assms)

lemma mp_typeof_cases:
  "mp_typeof c =
    (if c \<le> 0x7f then MP_UINT else if c \<le> 0x8f then MP_MAP else if c \<le> 0x9f then MP_ARRAY
     else if c \<le> 0xbf then MP_STR else if c = 0xc0 then MP_NIL else if c = 0xc1 then MP_EXT
     else if c \<le> 0xc3 then MP_BOOL else if c \<le> 0xc6 then MP_BIN else if c \<le> 0xc9 then MP_EXT
     else if c = 0xca then MP_FLOAT else if c = 0xcb then MP_DOUBLE
     else if c \<le> 0xcf then MP_UINT else if c \<le> 0xd3 then MP_INT else if c \<le> 0xd8 then MP_EXT
     else if c \<le> 0xdb then MP_STR else if c \<le> 0xdd then MP_ARRAY else if c \<le> 0xdf then MP_MAP
     else MP_INT)"
  unfolding mp_typeof_def by (rule table_nth_u8) code_simp

lemma mp_parser_hint_cases:
  "mp_parser_hint c =
    (if c \<le> 0x7f then 0 else if c \<le> 0x8f then - 2 * (uint c - 0x80)
     else if c \<le> 0x9f then - (uint c - 0x90) else if c \<le> 0xbf then uint c - 0xa0
     else if c \<le> 0xc3 then 0
     else if c = 0xc4 \<or> c = 0xd9 then MP_HINT_STR_8 else if c = 0xc5 \<or> c = 0xda then MP_HINT_STR_16
     else if c = 0xc6 \<or> c = 0xdb then MP_HINT_STR_32 else if c = 0xc7 then MP_HINT_EXT_8
     else if c = 0xc8 then MP_HINT_EXT_16 else if c = 0xc9 then MP_HINT_EXT_32
     else if c = 0xca \<or> c = 0xce \<or> c = 0xd2 then 4
     else if c = 0xcb \<or> c = 0xcf \<or> c = 0xd3 then 8
     else if c = 0xcc \<or> c = 0xd0 then 1 else if c = 0xcd \<or> c = 0xd1 then 2
     else if c = 0xd4 then 2 else if c = 0xd5 then 3 else if c = 0xd6 then 5
     else if c = 0xd7 then 9 else if c = 0xd8 then 17
     else if c = 0xdc then MP_HINT_ARRAY_16 else if c = 0xdd then MP_HINT_ARRAY_32
     else if c = 0xde then MP_HINT_MAP_16 else if c = 0xdf then MP_HINT_MAP_32 else 0)"
  unfolding mp_parser_hint_def by (rule table_nth_u8) code_simp

end
