(* ===== verification/Msgpack_Codec.thy ===== *)
theory Msgpack_Codec
  imports Msgpack_Hints
begin

text \<open>
  Encoding and decoding of MessagePack headers and scalars (\<^verbatim>\<open>include/msgpuck.h\<close>).
  A read cursor \<^verbatim>\<open>const char **data\<close> is the list of bytes from the cursor to the end of the
  buffer; a read past that end, which the C code does not detect, is the error
  \<open>Mp_OutOfBounds\<close>. A write cursor \<^verbatim>\<open>char *data\<close> is the list of bytes written before it.
  A \<^verbatim>\<open>float\<close> or \<^verbatim>\<open>double\<close> is its IEEE bit pattern, which is all the codec touches.
\<close>

datatype mp_error = Mp_OutOfBounds | Mp_AssertFailed | Mp_Unreachable

section \<open>Byte order\<close>

definition mp_bswap_u16 :: "u16 \<Rightarrow> u16" where
  "mp_bswap_u16 x = (push_bit 8 x AND 0xff00) OR (drop_bit 8 x AND 0x00ff)"

definition mp_bswap_u32 :: "u32 \<Rightarrow> u32" where
  "mp_bswap_u32 x = (push_bit 24 x AND 0xff000000) OR (push_bit 8 x AND 0x00ff0000) OR
     (drop_bit 8 x AND 0x0000ff00) OR (drop_bit 24 x AND 0x000000ff)"

definition mp_bswap_u64 :: "u64 \<Rightarrow> u64" where
  "mp_bswap_u64 x =
     (push_bit 56 x AND 0xff00000000000000) OR (push_bit 40 x AND 0x00ff000000000000) OR
     (push_bit 24 x AND 0x0000ff0000000000) OR (push_bit 8 x AND 0x000000ff00000000) OR
     (drop_bit 8 x AND 0x00000000ff000000) OR (drop_bit 24 x AND 0x0000000000ff0000) OR
     (drop_bit 40 x AND 0x000000000000ff00) OR (drop_bit 56 x AND 0x00000000000000ff)"

lemma bswap_u16_bits: "list_all (\<lambda>n. bit (mp_bswap_u16 x) n \<longleftrightarrow> bit x (8 * (2 - 1 - n div 8) + n mod 8)) [0..<8 * 2]"
  by (simp add: mp_bswap_u16_def bit_simps upt_from_01 [of 16] upt_from_01 [of 32] upt_from_01 [of 64] upt_rec_numeral numeral_2_eq_2 [symmetric])
lemma bswap_u32_bits: "list_all (\<lambda>n. bit (mp_bswap_u32 x) n \<longleftrightarrow> bit x (8 * (4 - 1 - n div 8) + n mod 8)) [0..<8 * 4]"
  by (simp add: mp_bswap_u32_def bit_simps upt_from_01 [of 16] upt_from_01 [of 32] upt_from_01 [of 64] upt_rec_numeral numeral_2_eq_2 [symmetric])
lemma bswap_u64_bits: "list_all (\<lambda>n. bit (mp_bswap_u64 x) n \<longleftrightarrow> bit x (8 * (8 - 1 - n div 8) + n mod 8)) [0..<8 * 8]"
  by (simp add: mp_bswap_u64_def bit_simps upt_from_01 [of 16] upt_from_01 [of 32] upt_from_01 [of 64] upt_rec_numeral numeral_2_eq_2 [symmetric])


lemmas le_bytes_bswap =
  le_bytes_reversed [of 2 "mp_bswap_u16 x" x for x, OF _ bswap_u16_bits, simplified]
  le_bytes_reversed [of 4 "mp_bswap_u32 x" x for x, OF _ bswap_u32_bits, simplified]
  le_bytes_reversed [of 8 "mp_bswap_u64 x" x for x, OF _ bswap_u64_bits, simplified]

lemma bswap_le_word:
  "length bs = 2 \<Longrightarrow> mp_bswap_u16 (le_word bs) = le_word (rev bs)"
  "length bs = 4 \<Longrightarrow> mp_bswap_u32 (le_word bs) = le_word (rev bs)"
  "length bs = 8 \<Longrightarrow> mp_bswap_u64 (le_word bs) = le_word (rev bs)"
  using le_word_le_bytes [of 2 "mp_bswap_u16 (le_word bs)"]
    le_word_le_bytes [of 4 "mp_bswap_u32 (le_word bs)"]
    le_word_le_bytes [of 8 "mp_bswap_u64 (le_word bs)"]
  by (simp_all add: le_bytes_bswap le_bytes_le_word)

section \<open>Loads and stores\<close>

definition mp_load_u8 :: "bytes \<Rightarrow> mp_error + u8 \<times> bytes" where
  "mp_load_u8 data =
     (if length data < 1 then Inl Mp_OutOfBounds else Inr (le_word (take 1 data), drop 1 data))"

definition mp_load_u16 :: "bytes \<Rightarrow> mp_error + u16 \<times> bytes" where
  "mp_load_u16 data =
     (if length data < 2 then Inl Mp_OutOfBounds
      else Inr (mp_bswap_u16 (le_word (take 2 data)), drop 2 data))"

definition mp_load_u32 :: "bytes \<Rightarrow> mp_error + u32 \<times> bytes" where
  "mp_load_u32 data =
     (if length data < 4 then Inl Mp_OutOfBounds
      else Inr (mp_bswap_u32 (le_word (take 4 data)), drop 4 data))"

definition mp_load_u64 :: "bytes \<Rightarrow> mp_error + u64 \<times> bytes" where
  "mp_load_u64 data =
     (if length data < 8 then Inl Mp_OutOfBounds
      else Inr (mp_bswap_u64 (le_word (take 8 data)), drop 8 data))"

definition mp_store_u8 :: "bytes \<Rightarrow> u8 \<Rightarrow> bytes" where
  "mp_store_u8 data val = data @ le_bytes 1 val"

definition mp_store_u16 :: "bytes \<Rightarrow> u16 \<Rightarrow> bytes" where
  "mp_store_u16 data val = data @ le_bytes 2 (mp_bswap_u16 val)"

definition mp_store_u32 :: "bytes \<Rightarrow> u32 \<Rightarrow> bytes" where
  "mp_store_u32 data val = data @ le_bytes 4 (mp_bswap_u32 val)"

definition mp_store_u64 :: "bytes \<Rightarrow> u64 \<Rightarrow> bytes" where
  "mp_store_u64 data val = data @ le_bytes 8 (mp_bswap_u64 val)"

text \<open>\<open>mp_load_float\<close> and \<open>mp_load_double\<close> swap the bit pattern inside a union.\<close>

definition mp_load_float :: "bytes \<Rightarrow> mp_error + u32 \<times> bytes" where
  "mp_load_float data =
     (if length data < 4 then Inl Mp_OutOfBounds
      else Inr (mp_bswap_u32 (le_word (take 4 data)), drop 4 data))"

definition mp_load_double :: "bytes \<Rightarrow> mp_error + u64 \<times> bytes" where
  "mp_load_double data =
     (if length data < 8 then Inl Mp_OutOfBounds
      else Inr (mp_bswap_u64 (le_word (take 8 data)), drop 8 data))"

definition mp_store_float :: "bytes \<Rightarrow> u32 \<Rightarrow> bytes" where
  "mp_store_float data val = data @ le_bytes 4 (mp_bswap_u32 val)"

definition mp_store_double :: "bytes \<Rightarrow> u64 \<Rightarrow> bytes" where
  "mp_store_double data val = data @ le_bytes 8 (mp_bswap_u64 val)"

text \<open>The bytes of an item are in big-endian order, most significant byte first.\<close>

definition be_bytes :: "nat \<Rightarrow> 'a::len word \<Rightarrow> bytes" where
  "be_bytes n w = rev (le_bytes n w)"

lemma length_be_bytes [simp]: "length (be_bytes n w) = n"
  by (simp add: be_bytes_def)

lemma mp_store_be_bytes [codec_simps]:
  "mp_store_u8 data b = data @ [b]"
  "mp_store_u16 data w16 = data @ be_bytes 2 w16"
  "mp_store_u32 data w32 = data @ be_bytes 4 w32"
  "mp_store_u64 data w64 = data @ be_bytes 8 w64"
  "mp_store_float data w32 = data @ be_bytes 4 w32"
  "mp_store_double data w64 = data @ be_bytes 8 w64"
  by (simp_all add: mp_store_u8_def mp_store_u16_def mp_store_u32_def mp_store_u64_def
      mp_store_float_def mp_store_double_def be_bytes_def le_bytes_bswap)
    (simp add: le_bytes_def)

lemma mp_load_u8_simps [simp]:
  "mp_load_u8 [] = Inl Mp_OutOfBounds"
  "mp_load_u8 (b # rest) = Inr (b, rest)"
  by (simp_all add: mp_load_u8_def le_word_def)

lemma mp_load_be_bytes [simp]:
  "mp_load_u16 (be_bytes 2 w16 @ rest) = Inr (w16, rest)"
  "mp_load_u32 (be_bytes 4 w32 @ rest) = Inr (w32, rest)"
  "mp_load_u64 (be_bytes 8 w64 @ rest) = Inr (w64, rest)"
  "mp_load_float (be_bytes 4 w32 @ rest) = Inr (w32, rest)"
  "mp_load_double (be_bytes 8 w64 @ rest) = Inr (w64, rest)"
  by (simp_all add: mp_load_u16_def mp_load_u32_def mp_load_u64_def mp_load_float_def
      mp_load_double_def be_bytes_def bswap_le_word le_word_le_bytes)

lemmas mp_wide_load_defs = mp_load_u16_def mp_load_u32_def mp_load_u64_def
  mp_load_float_def mp_load_double_def

lemmas mp_load_defs = mp_load_u8_def mp_wide_load_defs

section \<open>Array and map headers\<close>

definition mp_sizeof_array :: "u32 \<Rightarrow> u32" where
  "mp_sizeof_array sz =
     (if sz \<le> 15 then 1 else if sz \<le> 0xffff then 1 + 2 else 1 + 4)"

definition mp_encode_array :: "bytes \<Rightarrow> u32 \<Rightarrow> bytes" where
  "mp_encode_array data sz =
     (if sz \<le> 15 then mp_store_u8 data (ucast (0x90 OR sz))
      else if sz \<le> 0xffff then mp_store_u16 (mp_store_u8 data 0xdc) (ucast sz)
      else mp_store_u32 (mp_store_u8 data 0xdd) sz)"

definition mp_decode_array_slowpath :: "u8 \<Rightarrow> bytes \<Rightarrow> mp_error + u32 \<times> bytes" where
  "mp_decode_array_slowpath c data =
     (if c AND 0x1 = 0xdc AND 0x1 then
        rbind (mp_load_u16 data) (\<lambda>(n, data). Inr (ucast n, data))
      else if c AND 0x1 = 0xdd AND 0x1 then mp_load_u32 data
      else Inl Mp_Unreachable)"

definition mp_decode_array :: "bytes \<Rightarrow> mp_error + u32 \<times> bytes" where
  "mp_decode_array data = rbind (mp_load_u8 data) (\<lambda>(c, data).
     if c AND 0x40 = 0 then Inr (ucast (c AND 0xf), data)
     else mp_decode_array_slowpath c data)"

definition mp_sizeof_map :: "u32 \<Rightarrow> u32" where
  "mp_sizeof_map sz =
     (if sz \<le> 15 then 1 else if sz \<le> 0xffff then 1 + 2 else 1 + 4)"

definition mp_encode_map :: "bytes \<Rightarrow> u32 \<Rightarrow> bytes" where
  "mp_encode_map data sz =
     (if sz \<le> 15 then mp_store_u8 data (ucast (0x80 OR sz))
      else if sz \<le> 0xffff then mp_store_u16 (mp_store_u8 data 0xde) (ucast sz)
      else mp_store_u32 (mp_store_u8 data 0xdf) sz)"

definition mp_decode_map :: "bytes \<Rightarrow> mp_error + u32 \<times> bytes" where
  "mp_decode_map data = rbind (mp_load_u8 data) (\<lambda>(c, data).
     if c = 0xde then rbind (mp_load_u16 data) (\<lambda>(n, data). Inr (ucast n, data))
     else if c = 0xdf then mp_load_u32 data
     else if c < 0x80 \<or> c > 0x8f then Inl Mp_Unreachable
     else Inr (ucast (c AND 0xf), data))"

section \<open>Integers\<close>

definition mp_sizeof_uint :: "u64 \<Rightarrow> u32" where
  "mp_sizeof_uint num =
     (if num \<le> 0x7f then 1 else if num \<le> 0xff then 1 + 1 else if num \<le> 0xffff then 1 + 2
      else if num \<le> 0xffffffff then 1 + 4 else 1 + 8)"

text \<open>A negative number is passed as \<^verbatim>\<open>int64_t\<close>; \<open>sint\<close> reads it.\<close>

definition mp_sizeof_int :: "u64 \<Rightarrow> mp_error + u32" where
  "mp_sizeof_int num =
     (if \<not> sint num < 0 then Inl Mp_AssertFailed
      else if sint num \<ge> -0x20 then Inr 1
      else if sint num \<ge> -0x80 \<and> sint num \<le> 0x7f then Inr (1 + 1)
      else if sint num \<ge> -0x8000 \<and> sint num \<le> 0xffff then Inr (1 + 2)
      else if sint num \<ge> -0x80000000 \<and> sint num \<le> 0xffffffff then Inr (1 + 4)
      else Inr (1 + 8))"

definition mp_encode_uint :: "bytes \<Rightarrow> u64 \<Rightarrow> bytes" where
  "mp_encode_uint data num =
     (if num \<le> 0x7f then mp_store_u8 data (ucast num)
      else if num \<le> 0xff then mp_store_u8 (mp_store_u8 data 0xcc) (ucast num)
      else if num \<le> 0xffff then mp_store_u16 (mp_store_u8 data 0xcd) (ucast num)
      else if num \<le> 0xffffffff then mp_store_u32 (mp_store_u8 data 0xce) (ucast num)
      else mp_store_u64 (mp_store_u8 data 0xcf) num)"

definition mp_encode_int :: "bytes \<Rightarrow> u64 \<Rightarrow> mp_error + bytes" where
  "mp_encode_int data num =
     (if \<not> sint num < 0 then Inl Mp_AssertFailed
      else if sint num \<ge> -0x20 then Inr (mp_store_u8 data (ucast (0xe0 OR num)))
      else if sint num \<ge> -0x80 then Inr (mp_store_u8 (mp_store_u8 data 0xd0) (ucast num))
      else if sint num \<ge> -0x8000 then Inr (mp_store_u16 (mp_store_u8 data 0xd1) (ucast num))
      else if sint num \<ge> -0x80000000 then Inr (mp_store_u32 (mp_store_u8 data 0xd2) (ucast num))
      else Inr (mp_store_u64 (mp_store_u8 data 0xd3) num))"

definition mp_decode_uint :: "bytes \<Rightarrow> mp_error + u64 \<times> bytes" where
  "mp_decode_uint data = rbind (mp_load_u8 data) (\<lambda>(c, data).
     if c = 0xcc then rbind (mp_load_u8 data) (\<lambda>(v, data). Inr (ucast v, data))
     else if c = 0xcd then rbind (mp_load_u16 data) (\<lambda>(v, data). Inr (ucast v, data))
     else if c = 0xce then rbind (mp_load_u32 data) (\<lambda>(v, data). Inr (ucast v, data))
     else if c = 0xcf then mp_load_u64 data
     else if c > 0x7f then Inl Mp_Unreachable
     else Inr (ucast c, data))"

text \<open>The casts through \<^verbatim>\<open>int8_t\<close>, \<^verbatim>\<open>int16_t\<close> and \<^verbatim>\<open>int32_t\<close> sign-extend.\<close>

definition mp_decode_int :: "bytes \<Rightarrow> mp_error + u64 \<times> bytes" where
  "mp_decode_int data = rbind (mp_load_u8 data) (\<lambda>(c, data).
     if c = 0xd0 then rbind (mp_load_u8 data) (\<lambda>(v, data). Inr (scast v, data))
     else if c = 0xd1 then rbind (mp_load_u16 data) (\<lambda>(v, data). Inr (scast v, data))
     else if c = 0xd2 then rbind (mp_load_u32 data) (\<lambda>(v, data). Inr (scast v, data))
     else if c = 0xd3 then mp_load_u64 data
     else if c < 0xe0 then Inl Mp_Unreachable
     else Inr (scast c, data))"

text \<open>
  \<open>mp_compare_uint\<close> orders two encoded numbers without decoding them; the differences are
  taken in \<^verbatim>\<open>int\<close> on the first bytes and in \<^verbatim>\<open>int64_t\<close> on the payloads.
\<close>

definition mp_compare_uint :: "bytes \<Rightarrow> bytes \<Rightarrow> mp_error + int" where
  "mp_compare_uint data_a data_b =
     rbind (mp_load_u8 data_a) (\<lambda>(ca, data_a). rbind (mp_load_u8 data_b) (\<lambda>(cb, data_b).
     let r = uint ca - uint cb in
     if r \<noteq> 0 then Inr r
     else if ca \<le> 0x7f then Inr 0
     else
       let by_difference = (\<lambda>a b :: u64. let v = sint (a - b) in Inr (of_bool (v > 0) - of_bool (v < 0)))
       in
       if ca AND 0x3 = 0xcc AND 0x3 then
         rbind (mp_load_u8 data_a) (\<lambda>(a, _). rbind (mp_load_u8 data_b) (\<lambda>(b, _).
           by_difference (ucast a) (ucast b)))
       else if ca AND 0x3 = 0xcd AND 0x3 then
         rbind (mp_load_u16 data_a) (\<lambda>(a, _). rbind (mp_load_u16 data_b) (\<lambda>(b, _).
           by_difference (ucast a) (ucast b)))
       else if ca AND 0x3 = 0xce AND 0x3 then
         rbind (mp_load_u32 data_a) (\<lambda>(a, _). rbind (mp_load_u32 data_b) (\<lambda>(b, _).
           by_difference (ucast a) (ucast b)))
       else if ca AND 0x3 = 0xcf AND 0x3 then
         rbind (mp_load_u64 data_a) (\<lambda>(a, _). rbind (mp_load_u64 data_b) (\<lambda>(b, _).
           Inr (if a < b then -1 else of_bool (a > b))))
       else Inl Mp_Unreachable))"

section \<open>Floating point\<close>

definition mp_sizeof_float :: "u32 \<Rightarrow> u32" where
  "mp_sizeof_float num = 1 + 4"

definition mp_sizeof_double :: "u64 \<Rightarrow> u32" where
  "mp_sizeof_double num = 1 + 8"

definition mp_encode_float :: "bytes \<Rightarrow> u32 \<Rightarrow> bytes" where
  "mp_encode_float data num = mp_store_float (mp_store_u8 data 0xca) num"

definition mp_encode_double :: "bytes \<Rightarrow> u64 \<Rightarrow> bytes" where
  "mp_encode_double data num = mp_store_double (mp_store_u8 data 0xcb) num"

definition mp_decode_float :: "bytes \<Rightarrow> mp_error + u32 \<times> bytes" where
  "mp_decode_float data = rbind (mp_load_u8 data) (\<lambda>(c, data).
     if c \<noteq> 0xca then Inl Mp_AssertFailed else mp_load_float data)"

definition mp_decode_double :: "bytes \<Rightarrow> mp_error + u64 \<times> bytes" where
  "mp_decode_double data = rbind (mp_load_u8 data) (\<lambda>(c, data).
     if c \<noteq> 0xcb then Inl Mp_AssertFailed else mp_load_double data)"

section \<open>Strings and byte strings\<close>

definition mp_sizeof_strl :: "u32 \<Rightarrow> u32" where
  "mp_sizeof_strl len =
     (if len \<le> 31 then 1 else if len \<le> 0xff then 1 + 1 else if len \<le> 0xffff then 1 + 2 else 1 + 4)"

definition mp_sizeof_str :: "u32 \<Rightarrow> u32" where
  "mp_sizeof_str len = mp_sizeof_strl len + len"

definition mp_sizeof_binl :: "u32 \<Rightarrow> u32" where
  "mp_sizeof_binl len =
     (if len \<le> 0xff then 1 + 1 else if len \<le> 0xffff then 1 + 2 else 1 + 4)"

definition mp_sizeof_bin :: "u32 \<Rightarrow> u32" where
  "mp_sizeof_bin len = mp_sizeof_binl len + len"

definition mp_encode_strl :: "bytes \<Rightarrow> u32 \<Rightarrow> bytes" where
  "mp_encode_strl data len =
     (if len \<le> 31 then mp_store_u8 data (0xa0 OR ucast len)
      else if len \<le> 0xff then mp_store_u8 (mp_store_u8 data 0xd9) (ucast len)
      else if len \<le> 0xffff then mp_store_u16 (mp_store_u8 data 0xda) (ucast len)
      else mp_store_u32 (mp_store_u8 data 0xdb) len)"

text \<open>The source reads \<open>len\<close> bytes from \<open>str\<close>; reading past its end is out of bounds.\<close>

definition mp_encode_str :: "bytes \<Rightarrow> bytes \<Rightarrow> u32 \<Rightarrow> mp_error + bytes" where
  "mp_encode_str data str len =
     (if length str < unat len then Inl Mp_OutOfBounds
      else Inr (mp_encode_strl data len @ take (unat len) str))"

definition mp_encode_binl :: "bytes \<Rightarrow> u32 \<Rightarrow> bytes" where
  "mp_encode_binl data len =
     (if len \<le> 0xff then mp_store_u8 (mp_store_u8 data 0xc4) (ucast len)
      else if len \<le> 0xffff then mp_store_u16 (mp_store_u8 data 0xc5) (ucast len)
      else mp_store_u32 (mp_store_u8 data 0xc6) len)"

definition mp_encode_bin :: "bytes \<Rightarrow> bytes \<Rightarrow> u32 \<Rightarrow> mp_error + bytes" where
  "mp_encode_bin data str len =
     (if length str < unat len then Inl Mp_OutOfBounds
      else Inr (mp_encode_binl data len @ take (unat len) str))"

definition mp_decode_strl :: "bytes \<Rightarrow> mp_error + u32 \<times> bytes" where
  "mp_decode_strl data = rbind (mp_load_u8 data) (\<lambda>(c, data).
     if c = 0xd9 then rbind (mp_load_u8 data) (\<lambda>(n, data). Inr (ucast n, data))
     else if c = 0xda then rbind (mp_load_u16 data) (\<lambda>(n, data). Inr (ucast n, data))
     else if c = 0xdb then mp_load_u32 data
     else if c < 0xa0 \<or> c > 0xbf then Inl Mp_Unreachable
     else Inr (ucast (c AND 0x1f), data))"

definition mp_decode_binl :: "bytes \<Rightarrow> mp_error + u32 \<times> bytes" where
  "mp_decode_binl data = rbind (mp_load_u8 data) (\<lambda>(c, data).
     if c = 0xc4 then rbind (mp_load_u8 data) (\<lambda>(n, data). Inr (ucast n, data))
     else if c = 0xc5 then rbind (mp_load_u16 data) (\<lambda>(n, data). Inr (ucast n, data))
     else if c = 0xc6 then mp_load_u32 data
     else Inl Mp_Unreachable)"

definition mp_decode_strbinl :: "bytes \<Rightarrow> mp_error + u32 \<times> bytes" where
  "mp_decode_strbinl data = rbind (mp_load_u8 data) (\<lambda>(c, data).
     if c = 0xd9 then rbind (mp_load_u8 data) (\<lambda>(n, data). Inr (ucast n, data))
     else if c = 0xda then rbind (mp_load_u16 data) (\<lambda>(n, data). Inr (ucast n, data))
     else if c = 0xdb then mp_load_u32 data
     else if c = 0xc4 then rbind (mp_load_u8 data) (\<lambda>(n, data). Inr (ucast n, data))
     else if c = 0xc5 then rbind (mp_load_u16 data) (\<lambda>(n, data). Inr (ucast n, data))
     else if c = 0xc6 then mp_load_u32 data
     else if c < 0xa0 \<or> c > 0xbf then Inl Mp_Unreachable
     else Inr (ucast (c AND 0x1f), data))"

text \<open>
  Moving the cursor, \<^verbatim>\<open>*data += n\<close>: past the end of the buffer the pointer is invalid. The
  string decoders return the bytes between the two cursors (their pointer and length).
\<close>

definition mp_advance :: "nat \<Rightarrow> bytes \<Rightarrow> mp_error + bytes" where
  "mp_advance n data = (if length data < n then Inl Mp_OutOfBounds else Inr (drop n data))"

definition mp_decode_str :: "bytes \<Rightarrow> mp_error + bytes \<times> bytes" where
  "mp_decode_str data = rbind (mp_decode_strl data) (\<lambda>(len, data).
     rbind (mp_advance (unat len) data) (\<lambda>rest. Inr (take (unat len) data, rest)))"

definition mp_decode_bin :: "bytes \<Rightarrow> mp_error + bytes \<times> bytes" where
  "mp_decode_bin data = rbind (mp_decode_binl data) (\<lambda>(len, data).
     rbind (mp_advance (unat len) data) (\<lambda>rest. Inr (take (unat len) data, rest)))"

definition mp_decode_strbin :: "bytes \<Rightarrow> mp_error + bytes \<times> bytes" where
  "mp_decode_strbin data = rbind (mp_decode_strbinl data) (\<lambda>(len, data).
     rbind (mp_advance (unat len) data) (\<lambda>rest. Inr (take (unat len) data, rest)))"

section \<open>Nil and booleans\<close>

definition mp_sizeof_nil :: u32 where
  "mp_sizeof_nil = 1"

definition mp_encode_nil :: "bytes \<Rightarrow> bytes" where
  "mp_encode_nil data = mp_store_u8 data 0xc0"

definition mp_decode_nil :: "bytes \<Rightarrow> mp_error + bytes" where
  "mp_decode_nil data = rbind (mp_load_u8 data) (\<lambda>(c, data).
     if c \<noteq> 0xc0 then Inl Mp_AssertFailed else Inr data)"

definition mp_sizeof_bool :: "bool \<Rightarrow> u32" where
  "mp_sizeof_bool val = 1"

definition mp_encode_bool :: "bytes \<Rightarrow> bool \<Rightarrow> bytes" where
  "mp_encode_bool data val = mp_store_u8 data (0xc2 OR (of_bool val AND 1))"

definition mp_decode_bool :: "bytes \<Rightarrow> mp_error + bool \<times> bytes" where
  "mp_decode_bool data = rbind (mp_load_u8 data) (\<lambda>(c, data).
     if c = 0xc3 then Inr (True, data)
     else if c = 0xc2 then Inr (False, data)
     else Inl Mp_Unreachable)"

section \<open>Checked integer reads\<close>

text \<open>
  \<open>mp_read_int32\<close> and \<open>mp_read_int64\<close> return \<^verbatim>\<open>-1\<close> (here \<open>None\<close>) and leave the cursor where it
  was when the item is no integer or does not fit; otherwise the value and the new cursor.
\<close>

definition mp_read_int32 :: "bytes \<Rightarrow> mp_error + (u32 \<times> bytes) option" where
  "mp_read_int32 data = rbind (mp_load_u8 data) (\<lambda>(c, p).
     if c = 0xd0 then rbind (mp_load_u8 p) (\<lambda>(v, p). Inr (Some (scast v, p)))
     else if c = 0xd1 then rbind (mp_load_u16 p) (\<lambda>(v, p). Inr (Some (scast v, p)))
     else if c = 0xd2 then rbind (mp_load_u32 p) (\<lambda>(v, p). Inr (Some (v, p)))
     else if c = 0xcc then rbind (mp_load_u8 p) (\<lambda>(v, p). Inr (Some (ucast v, p)))
     else if c = 0xcd then rbind (mp_load_u16 p) (\<lambda>(v, p). Inr (Some (ucast v, p)))
     else if c = 0xce then rbind (mp_load_u32 p) (\<lambda>(uval, p).
       if uval > 0x7fffffff then Inr None else Inr (Some (uval, p)))
     else if c < 0xe0 \<and> c > 0x7f then Inr None
     else Inr (Some (scast c, p)))"

definition mp_read_int64 :: "bytes \<Rightarrow> mp_error + (u64 \<times> bytes) option" where
  "mp_read_int64 data = rbind (mp_load_u8 data) (\<lambda>(c, p).
     if c = 0xd0 then rbind (mp_load_u8 p) (\<lambda>(v, p). Inr (Some (scast v, p)))
     else if c = 0xd1 then rbind (mp_load_u16 p) (\<lambda>(v, p). Inr (Some (scast v, p)))
     else if c = 0xd2 then rbind (mp_load_u32 p) (\<lambda>(v, p). Inr (Some (scast v, p)))
     else if c = 0xd3 then rbind (mp_load_u64 p) (\<lambda>(v, p). Inr (Some (v, p)))
     else if c = 0xcc then rbind (mp_load_u8 p) (\<lambda>(v, p). Inr (Some (ucast v, p)))
     else if c = 0xcd then rbind (mp_load_u16 p) (\<lambda>(v, p). Inr (Some (ucast v, p)))
     else if c = 0xce then rbind (mp_load_u32 p) (\<lambda>(v, p). Inr (Some (ucast v, p)))
     else if c = 0xcf then rbind (mp_load_u64 p) (\<lambda>(uval, p).
       if uval > 0x7fffffffffffffff then Inr None else Inr (Some (uval, p)))
     else if c < 0xe0 \<and> c > 0x7f then Inr None
     else Inr (Some (scast c, p)))"

end
