(* ===== verification/Msgpack_Roundtrip.thy ===== *)
theory Msgpack_Roundtrip
  imports Msgpack_Codec
begin

text \<open>
  The contract between the encoders and the decoders of \<^verbatim>\<open>include/msgpuck.h\<close>: what is encoded
  decodes to the same value, leaves what follows untouched and takes exactly the announced
  number of bytes. The contract is the locale \<open>item_codec\<close>; every encoder/decoder pair of
  the source interprets it.
\<close>

section \<open>Narrowing casts that lose nothing\<close>

lemma ucast_ucast_below [codec_simps]:
  "n \<le> (0xff :: u32) \<Longrightarrow> ucast (ucast n :: u8) = n"
  "n \<le> (0xffff :: u32) \<Longrightarrow> ucast (ucast n :: u16) = n"
  "m \<le> (0xff :: u64) \<Longrightarrow> ucast (ucast m :: u8) = m"
  "m \<le> (0xffff :: u64) \<Longrightarrow> ucast (ucast m :: u16) = m"
  "m \<le> (0xffffffff :: u64) \<Longrightarrow> ucast (ucast m :: u32) = m"
  by (simp_all add: word_le_nat_alt word_unat_eq_iff unsigned_ucast_eq take_bit_eq_mod unat_mod)

lemma scast_ucast_self:
  fixes w :: "'a::len word"
  assumes "LENGTH('b) \<le> LENGTH('a)"
    and "- (2 ^ (LENGTH('b::len) - 1)) \<le> sint w" "sint w < 2 ^ (LENGTH('b) - 1)"
  shows "scast (ucast w :: 'b word) = w"
proof -
  have "sint (ucast w :: 'b word) = signed_take_bit (LENGTH('b) - 1) (uint w)"
    using assms(1) by (simp add: signed_ucast_eq)
  also have "\<dots> = signed_take_bit (LENGTH('b) - 1) (sint w)"
    using assms(1) by (simp add: sint_uint)
  also have "\<dots> = sint w"
    using assms(2,3) by (simp add: signed_take_bit_int_eq_self)
  finally have "scast (ucast w :: 'b word) = (word_of_int (sint w) :: 'a word)"
    by (metis of_int_sint)
  then show ?thesis by simp
qed

lemma scast_ucast_below [codec_simps]:
  "- 0x80 \<le> sint (m :: u64) \<Longrightarrow> sint m < 0 \<Longrightarrow> scast (ucast m :: u8) = m"
  "- 0x8000 \<le> sint m \<Longrightarrow> sint m < 0 \<Longrightarrow> scast (ucast m :: u16) = m"
  "- 0x80000000 \<le> sint m \<Longrightarrow> sint m < 0 \<Longrightarrow> scast (ucast m :: u32) = m"
  by (simp_all add: scast_ucast_self)

section \<open>Headers that carry their value in the first byte\<close>

lemma fixarray_byte [codec_simps]:
  assumes "n \<le> (15 :: u32)"
  shows "(ucast (0x90 OR n) :: u8) AND 0x40 = 0" "ucast ((ucast (0x90 OR n) :: u8) AND 0xf) = n"
proof -
  have "unat n < 16" using assms by (simp add: word_le_nat_alt)
  then have "(ucast (0x90 OR n) :: u8) AND 0x40 = 0 \<and> ucast ((ucast (0x90 OR n) :: u8) AND 0xf) = n"
    by (rule small_word_exhaust) code_simp
  then show "(ucast (0x90 OR n) :: u8) AND 0x40 = 0" "ucast ((ucast (0x90 OR n) :: u8) AND 0xf) = n"
    by auto
qed

lemma fixmap_byte [codec_simps]:
  assumes "n \<le> (15 :: u32)"
  shows "\<not> (ucast (0x80 OR n) :: u8) < 0x80"
    "\<not> 0x8f < (ucast (0x80 OR n) :: u8)"
    "(ucast (0x80 OR n) :: u8) \<noteq> 0xde"
    "(ucast (0x80 OR n) :: u8) \<noteq> 0xdf"
    "ucast ((ucast (0x80 OR n) :: u8) AND 0xf) = n"
proof -
  have "unat n < 16" using assms by (simp add: word_le_nat_alt)
  then have "\<not> (ucast (0x80 OR n) :: u8) < 0x80
      \<and> \<not> 0x8f < (ucast (0x80 OR n) :: u8)
      \<and> (ucast (0x80 OR n) :: u8) \<noteq> 0xde
      \<and> (ucast (0x80 OR n) :: u8) \<noteq> 0xdf
      \<and> ucast ((ucast (0x80 OR n) :: u8) AND 0xf) = n"
    by (rule small_word_exhaust) code_simp
  then show "\<not> (ucast (0x80 OR n) :: u8) < 0x80"
    "\<not> 0x8f < (ucast (0x80 OR n) :: u8)"
    "(ucast (0x80 OR n) :: u8) \<noteq> 0xde"
    "(ucast (0x80 OR n) :: u8) \<noteq> 0xdf"
    "ucast ((ucast (0x80 OR n) :: u8) AND 0xf) = n"
    by simp_all
qed

lemma fixstr_byte [codec_simps]:
  assumes "n \<le> (31 :: u32)"
  shows "\<not> (0xa0 OR ucast n :: u8) < 0xa0"
    "\<not> 0xbf < (0xa0 OR ucast n :: u8)"
    "(0xa0 OR ucast n :: u8) \<noteq> 0xc4"
    "(0xa0 OR ucast n :: u8) \<noteq> 0xc5"
    "(0xa0 OR ucast n :: u8) \<noteq> 0xc6"
    "(0xa0 OR ucast n :: u8) \<noteq> 0xd9"
    "(0xa0 OR ucast n :: u8) \<noteq> 0xda"
    "(0xa0 OR ucast n :: u8) \<noteq> 0xdb"
    "ucast ((0xa0 OR ucast n :: u8) AND 0x1f) = n"
proof -
  have "unat n < 32" using assms by (simp add: word_le_nat_alt)
  then have "\<not> (0xa0 OR ucast n :: u8) < 0xa0
      \<and> \<not> 0xbf < (0xa0 OR ucast n :: u8)
      \<and> (0xa0 OR ucast n :: u8) \<noteq> 0xc4
      \<and> (0xa0 OR ucast n :: u8) \<noteq> 0xc5
      \<and> (0xa0 OR ucast n :: u8) \<noteq> 0xc6
      \<and> (0xa0 OR ucast n :: u8) \<noteq> 0xd9
      \<and> (0xa0 OR ucast n :: u8) \<noteq> 0xda
      \<and> (0xa0 OR ucast n :: u8) \<noteq> 0xdb
      \<and> ucast ((0xa0 OR ucast n :: u8) AND 0x1f) = n"
    by (rule small_word_exhaust) code_simp
  then show "\<not> (0xa0 OR ucast n :: u8) < 0xa0"
    "\<not> 0xbf < (0xa0 OR ucast n :: u8)"
    "(0xa0 OR ucast n :: u8) \<noteq> 0xc4"
    "(0xa0 OR ucast n :: u8) \<noteq> 0xc5"
    "(0xa0 OR ucast n :: u8) \<noteq> 0xc6"
    "(0xa0 OR ucast n :: u8) \<noteq> 0xd9"
    "(0xa0 OR ucast n :: u8) \<noteq> 0xda"
    "(0xa0 OR ucast n :: u8) \<noteq> 0xdb"
    "ucast ((0xa0 OR ucast n :: u8) AND 0x1f) = n"
    by simp_all
qed

lemma fixuint_byte [codec_simps]:
  assumes "n \<le> (0x7f :: u64)"
  shows "\<not> 0x7f < (ucast n :: u8)"
    "(ucast n :: u8) \<noteq> 0xcc"
    "(ucast n :: u8) \<noteq> 0xcd"
    "(ucast n :: u8) \<noteq> 0xce"
    "(ucast n :: u8) \<noteq> 0xcf"
    "(ucast n :: u8) \<noteq> 0xd0"
    "(ucast n :: u8) \<noteq> 0xd1"
    "(ucast n :: u8) \<noteq> 0xd2"
    "(ucast n :: u8) \<noteq> 0xd3"
    "scast (ucast n :: u8) = n"
    "ucast (ucast n :: u8) = n"
proof -
  have "unat n < 128" using assms by (simp add: word_le_nat_alt)
  then have "\<not> 0x7f < (ucast n :: u8)
      \<and> (ucast n :: u8) \<noteq> 0xcc
      \<and> (ucast n :: u8) \<noteq> 0xcd
      \<and> (ucast n :: u8) \<noteq> 0xce
      \<and> (ucast n :: u8) \<noteq> 0xcf
      \<and> (ucast n :: u8) \<noteq> 0xd0
      \<and> (ucast n :: u8) \<noteq> 0xd1
      \<and> (ucast n :: u8) \<noteq> 0xd2
      \<and> (ucast n :: u8) \<noteq> 0xd3
      \<and> scast (ucast n :: u8) = n
      \<and> ucast (ucast n :: u8) = n"
    by (rule small_word_exhaust) code_simp
  then show "\<not> 0x7f < (ucast n :: u8)"
    "(ucast n :: u8) \<noteq> 0xcc"
    "(ucast n :: u8) \<noteq> 0xcd"
    "(ucast n :: u8) \<noteq> 0xce"
    "(ucast n :: u8) \<noteq> 0xcf"
    "(ucast n :: u8) \<noteq> 0xd0"
    "(ucast n :: u8) \<noteq> 0xd1"
    "(ucast n :: u8) \<noteq> 0xd2"
    "(ucast n :: u8) \<noteq> 0xd3"
    "scast (ucast n :: u8) = n"
    "ucast (ucast n :: u8) = n"
    by simp_all
qed

lemma fixint_byte [codec_simps]:
  assumes "- 0x20 \<le> sint (m :: u64)" "sint m < 0"
  shows "\<not> (ucast (0xe0 OR m) :: u8) < 0xe0"
    "(ucast (0xe0 OR m) :: u8) \<noteq> 0xd0"
    "(ucast (0xe0 OR m) :: u8) \<noteq> 0xd1"
    "(ucast (0xe0 OR m) :: u8) \<noteq> 0xd2"
    "(ucast (0xe0 OR m) :: u8) \<noteq> 0xd3"
    "(ucast (0xe0 OR m) :: u8) \<noteq> 0xcc"
    "(ucast (0xe0 OR m) :: u8) \<noteq> 0xcd"
    "(ucast (0xe0 OR m) :: u8) \<noteq> 0xce"
    "(ucast (0xe0 OR m) :: u8) \<noteq> 0xcf"
    "scast (ucast (0xe0 OR m) :: u8) = m"
proof -
  have "m = word_of_int (sint m)" by simp
  moreover have "sint m \<in> set [-32..-1]" using assms by auto
  ultimately obtain k where k: "m = word_of_int k" "k \<in> set [-32..-1]" by blast
  have "\<forall>k\<in>set [-32..-1]. let m = word_of_int k :: u64 in \<not> (ucast (0xe0 OR m) :: u8) < 0xe0
      \<and> (ucast (0xe0 OR m) :: u8) \<noteq> 0xd0
      \<and> (ucast (0xe0 OR m) :: u8) \<noteq> 0xd1
      \<and> (ucast (0xe0 OR m) :: u8) \<noteq> 0xd2
      \<and> (ucast (0xe0 OR m) :: u8) \<noteq> 0xd3
      \<and> (ucast (0xe0 OR m) :: u8) \<noteq> 0xcc
      \<and> (ucast (0xe0 OR m) :: u8) \<noteq> 0xcd
      \<and> (ucast (0xe0 OR m) :: u8) \<noteq> 0xce
      \<and> (ucast (0xe0 OR m) :: u8) \<noteq> 0xcf
      \<and> scast (ucast (0xe0 OR m) :: u8) = m"
    by code_simp
  with k have "\<not> (ucast (0xe0 OR m) :: u8) < 0xe0
      \<and> (ucast (0xe0 OR m) :: u8) \<noteq> 0xd0
      \<and> (ucast (0xe0 OR m) :: u8) \<noteq> 0xd1
      \<and> (ucast (0xe0 OR m) :: u8) \<noteq> 0xd2
      \<and> (ucast (0xe0 OR m) :: u8) \<noteq> 0xd3
      \<and> (ucast (0xe0 OR m) :: u8) \<noteq> 0xcc
      \<and> (ucast (0xe0 OR m) :: u8) \<noteq> 0xcd
      \<and> (ucast (0xe0 OR m) :: u8) \<noteq> 0xce
      \<and> (ucast (0xe0 OR m) :: u8) \<noteq> 0xcf
      \<and> scast (ucast (0xe0 OR m) :: u8) = m"
    by (simp add: Let_def)
  then show "\<not> (ucast (0xe0 OR m) :: u8) < 0xe0"
    "(ucast (0xe0 OR m) :: u8) \<noteq> 0xd0"
    "(ucast (0xe0 OR m) :: u8) \<noteq> 0xd1"
    "(ucast (0xe0 OR m) :: u8) \<noteq> 0xd2"
    "(ucast (0xe0 OR m) :: u8) \<noteq> 0xd3"
    "(ucast (0xe0 OR m) :: u8) \<noteq> 0xcc"
    "(ucast (0xe0 OR m) :: u8) \<noteq> 0xcd"
    "(ucast (0xe0 OR m) :: u8) \<noteq> 0xce"
    "(ucast (0xe0 OR m) :: u8) \<noteq> 0xcf"
    "scast (ucast (0xe0 OR m) :: u8) = m"
    by simp_all
qed

section \<open>The contract\<close>

locale item_codec =
  fixes enc :: "bytes \<Rightarrow> 'a \<Rightarrow> bytes"
    and dec :: "bytes \<Rightarrow> mp_error + 'a \<times> bytes"
    and sizeof :: "'a \<Rightarrow> nat"
    and valid :: "'a \<Rightarrow> bool"
  assumes enc_append: "valid x \<Longrightarrow> enc data x = data @ enc [] x"
    and dec_enc: "valid x \<Longrightarrow> dec (enc [] x @ rest) = Inr (x, rest)"
    and enc_size: "valid x \<Longrightarrow> length (enc [] x) = sizeof x"
begin

text \<open>No encoding is a proper prefix of another one, and equal encodings have equal values.\<close>

lemma prefix_free:
  assumes "valid x" "valid y" "enc [] x @ r = enc [] y @ s"
  shows "x = y \<and> r = s"
proof -
  have "Inr (x, r) = dec (enc [] y @ s)"
    unfolding assms(3) [symmetric] by (rule dec_enc [OF assms(1), symmetric])
  then show ?thesis by (simp add: dec_enc assms(2))
qed

lemma enc_at_cursor:
  assumes "valid x"
  shows "length (enc data x) = length data + sizeof x \<and> take (length data) (enc data x) = data"
  by (subst (1 2) enc_append) (use assms in \<open>simp_all add: enc_size\<close>)

text \<open>Items written one after the other are read back one after the other.\<close>

lemma two_items:
  assumes "valid x" "valid y"
  shows "rbind (dec (enc (enc [] x) y @ rest)) (\<lambda>(a, d). rbind (dec d) (\<lambda>(b, d). Inr (a, b, d)))
    = Inr (x, y, rest)"
proof -
  have "enc (enc [] x) y = enc [] x @ enc [] y"
    by (rule enc_append) (rule assms(2))
  with assms show ?thesis by (simp add: dec_enc)
qed

end

section \<open>Interpretations on the encoders of the source\<close>

lemmas mp_encode_defs = mp_encode_array_def mp_encode_map_def mp_encode_uint_def
  mp_encode_strl_def mp_encode_binl_def mp_encode_bool_def mp_encode_float_def
  mp_encode_double_def mp_encode_nil_def

lemmas mp_decode_defs = mp_decode_array_def mp_decode_array_slowpath_def mp_decode_map_def
  mp_decode_uint_def mp_decode_strl_def mp_decode_binl_def mp_decode_bool_def
  mp_decode_float_def mp_decode_double_def mp_decode_nil_def

lemmas mp_sizeof_defs = mp_sizeof_array_def mp_sizeof_map_def mp_sizeof_uint_def
  mp_sizeof_strl_def mp_sizeof_binl_def mp_sizeof_bool_def mp_sizeof_float_def
  mp_sizeof_double_def mp_sizeof_nil_def

interpretation array_item: item_codec mp_encode_array mp_decode_array
  "\<lambda>n. unat (mp_sizeof_array n)" "\<lambda>_. True"
  by unfold_locales (simp_all add: mp_encode_defs mp_decode_defs mp_sizeof_defs codec_simps)

interpretation map_item: item_codec mp_encode_map mp_decode_map
  "\<lambda>n. unat (mp_sizeof_map n)" "\<lambda>_. True"
  by unfold_locales (simp_all add: mp_encode_defs mp_decode_defs mp_sizeof_defs codec_simps)

interpretation uint_item: item_codec mp_encode_uint mp_decode_uint
  "\<lambda>n. unat (mp_sizeof_uint n)" "\<lambda>_. True"
  by unfold_locales (simp_all add: mp_encode_defs mp_decode_defs mp_sizeof_defs codec_simps)

interpretation strl_item: item_codec mp_encode_strl mp_decode_strl
  "\<lambda>n. unat (mp_sizeof_strl n)" "\<lambda>_. True"
  by unfold_locales (simp_all add: mp_encode_defs mp_decode_defs mp_sizeof_defs codec_simps)

interpretation binl_item: item_codec mp_encode_binl mp_decode_binl
  "\<lambda>n. unat (mp_sizeof_binl n)" "\<lambda>_. True"
  by unfold_locales (simp_all add: mp_encode_defs mp_decode_defs mp_sizeof_defs codec_simps)

interpretation bool_item: item_codec mp_encode_bool mp_decode_bool
  "\<lambda>b. unat (mp_sizeof_bool b)" "\<lambda>_. True"
  by unfold_locales (simp_all add: mp_encode_defs mp_decode_defs mp_sizeof_defs codec_simps)

interpretation float_item: item_codec mp_encode_float mp_decode_float
  "\<lambda>v. unat (mp_sizeof_float v)" "\<lambda>_. True"
  by unfold_locales (simp_all add: mp_encode_defs mp_decode_defs mp_sizeof_defs codec_simps)

interpretation double_item: item_codec mp_encode_double mp_decode_double
  "\<lambda>v. unat (mp_sizeof_double v)" "\<lambda>_. True"
  by unfold_locales (simp_all add: mp_encode_defs mp_decode_defs mp_sizeof_defs codec_simps)

section \<open>Length bookkeeping\<close>

lemma load_length:
  "mp_load_u8 data = Inr (b, rest) \<Longrightarrow> length data = 1 + length rest"
  "mp_load_u16 data = Inr (h, rest) \<Longrightarrow> length data = 2 + length rest"
  "mp_load_u32 data = Inr (w, rest) \<Longrightarrow> length data = 4 + length rest"
  "mp_load_u64 data = Inr (d, rest) \<Longrightarrow> length data = 8 + length rest"
  by (auto simp: mp_load_defs split: if_splits)

lemma ucast_le_bound:
  "b \<le> 0x7f \<Longrightarrow> ucast (b :: u8) \<le> (0x7f :: u64)"
  "ucast (b :: u8) \<le> (0xff :: u64)"
  "ucast (h :: u16) \<le> (0xffff :: u64)"
  "ucast (w :: u32) \<le> (0xffffffff :: u64)"
  using unat_u8_less [of b] unat_u16_less [of h] unat_u32_less [of w]
  by (simp_all add: word_le_nat_alt unsigned_ucast_eq take_bit_eq_mod)

lemma sizeof_uint_le:
  "n \<le> 0x7f \<Longrightarrow> unat (mp_sizeof_uint n) \<le> 1"
  "n \<le> 0xff \<Longrightarrow> unat (mp_sizeof_uint n) \<le> 2"
  "n \<le> 0xffff \<Longrightarrow> unat (mp_sizeof_uint n) \<le> 3"
  "n \<le> 0xffffffff \<Longrightarrow> unat (mp_sizeof_uint n) \<le> 5"
  "unat (mp_sizeof_uint n) \<le> 9"
  by (simp_all add: mp_sizeof_uint_def)

section \<open>Properties of the codec\<close>

text \<open>
  C20: every unsigned 64-bit number decodes to itself from its encoding, whatever follows, and
  the encoding has exactly the length that \<open>mp_sizeof_uint\<close> announces.
\<close>

theorem mp_uint_roundtrip:
  "mp_decode_uint (mp_encode_uint [] n @ rest) = Inr (n, rest)
    \<and> length (mp_encode_uint [] n) = unat (mp_sizeof_uint n)"
  by (simp add: uint_item.dec_enc uint_item.enc_size)

text \<open>
  The encoder picks the shortest form: no byte sequence that \<open>mp_decode_uint\<close> reads as \<open>n\<close>
  is shorter than the size the encoder uses for \<open>n\<close>.
\<close>

theorem mp_uint_shortest:
  assumes "mp_decode_uint data = Inr (n, rest)"
  shows "length rest + unat (mp_sizeof_uint n) \<le> length data"
proof -
  from assms obtain c d where c: "mp_load_u8 data = Inr (c, d)"
    by (auto simp: mp_decode_uint_def outcome_simps)
  note size = sizeof_uint_le(1) [OF ucast_le_bound(1), of c]
    sizeof_uint_le(2) [OF ucast_le_bound(2)] sizeof_uint_le(3) [OF ucast_le_bound(3)]
    sizeof_uint_le(4) [OF ucast_le_bound(4)] sizeof_uint_le(5) [of n]
  have "(\<exists>v. mp_load_u8 d = Inr (v, rest) \<and> n = ucast v)
      \<or> (\<exists>v. mp_load_u16 d = Inr (v, rest) \<and> n = ucast v)
      \<or> (\<exists>v. mp_load_u32 d = Inr (v, rest) \<and> n = ucast v)
      \<or> mp_load_u64 d = Inr (n, rest) \<or> rest = d \<and> c \<le> 0x7f \<and> n = ucast c"
    using assms c by (simp add: mp_decode_uint_def rbind_eq_Inr not_less split: if_splits) auto
  then consider (u8) v where "mp_load_u8 d = Inr (v, rest)" "n = ucast v"
    | (u16) v where "mp_load_u16 d = Inr (v, rest)" "n = ucast v"
    | (u32) v where "mp_load_u32 d = Inr (v, rest)" "n = ucast v"
    | (u64) "mp_load_u64 d = Inr (n, rest)"
    | (fixed) "rest = d" "c \<le> 0x7f" "n = ucast c"
    by blast
  then show ?thesis
  proof cases
    case u8
    with load_length(1) [OF c] load_length(1) [OF u8(1)] size(2) [of v] show ?thesis by simp
  next
    case u16
    with load_length(1) [OF c] load_length(2) [OF u16(1)] size(3) [of v] show ?thesis by simp
  next
    case u32
    with load_length(1) [OF c] load_length(3) [OF u32(1)] size(4) [of v] show ?thesis by simp
  next
    case u64
    with load_length(1) [OF c] load_length(4) [OF u64] size(5) show ?thesis by simp
  next
    case fixed
    with load_length(1) [OF c] size(1) show ?thesis by simp
  qed
qed

theorem mp_uint_shortest_witness:
  "mp_decode_uint [0xcd, 0, 5, 9] = Inr (5, [9])
    \<and> length [9 :: u8] + unat (mp_sizeof_uint 5) \<le> length [0xcd, 0, 5, 9 :: u8]"
proof -
  have "mp_decode_uint [0xcd, 0, 5, 9] = Inr (5, [9])" by code_simp
  with mp_uint_shortest [OF this] show ?thesis by blast
qed

text \<open>
  Every negative 64-bit number decodes to itself from its encoding and takes exactly the
  length that \<open>mp_sizeof_int\<close> announces; the encoder never fails on a negative number.
\<close>

theorem mp_int_roundtrip:
  assumes "sint n < 0"
  shows "\<exists>b. mp_encode_int [] n = Inr b \<and> mp_decode_int (b @ rest) = Inr (n, rest)
    \<and> mp_sizeof_int n = Inr (word_of_nat (length b))"
  using assms by (auto simp: mp_encode_int_def mp_decode_int_def mp_sizeof_int_def codec_simps)

theorem mp_int_roundtrip_witness:
  "sint (-129 :: u64) < 0 \<and>
    (\<exists>b. mp_encode_int [] (-129) = Inr b \<and> mp_decode_int (b @ [7]) = Inr (-129, [7])
      \<and> mp_sizeof_int (-129) = Inr (word_of_nat (length b)))"
proof -
  have neg: "sint (-129 :: u64) < 0" by simp
  show ?thesis using neg mp_int_roundtrip [OF neg, of "[7]"] by simp
qed

text \<open>
  Array and map headers of every size decode to the same size, whatever follows, and take
  one, three or five bytes as the \<open>mp_sizeof\<close> functions announce.
\<close>

theorem mp_headers_roundtrip:
  "mp_decode_array (mp_encode_array [] n @ rest) = Inr (n, rest)
    \<and> length (mp_encode_array [] n) = unat (mp_sizeof_array n)
    \<and> mp_decode_map (mp_encode_map [] n @ rest) = Inr (n, rest)
    \<and> length (mp_encode_map [] n) = unat (mp_sizeof_map n)"
  by (simp add: array_item.dec_enc array_item.enc_size map_item.dec_enc map_item.enc_size)

lemma unat_length_u32: "length s < 2 ^ 32 \<Longrightarrow> unat (word_of_nat (length s) :: u32) = length s"
  by (simp add: unsigned_of_nat take_bit_nat_eq_self)

lemma strings_roundtrip:
  assumes "length s < 2 ^ 32" and "n = word_of_nat (length s)"
  shows "(\<exists>b. mp_encode_str [] s n = Inr b \<and> mp_decode_str (b @ rest) = Inr (s, rest)
        \<and> mp_decode_strbin (b @ rest) = Inr (s, rest) \<and> mp_sizeof_str n = word_of_nat (length b))
    \<and> (\<exists>b. mp_encode_bin [] s n = Inr b \<and> mp_decode_bin (b @ rest) = Inr (s, rest)
        \<and> mp_decode_strbin (b @ rest) = Inr (s, rest) \<and> mp_sizeof_bin n = word_of_nat (length b))"
proof -
  have len: "unat n = length s" using assms by (simp add: unat_length_u32)
  have strl: "mp_decode_strbinl (mp_encode_strl [] n @ s @ rest) = Inr (n, s @ rest)"
    by (simp add: mp_decode_strbinl_def mp_encode_strl_def codec_simps)
  have binl: "mp_decode_strbinl (mp_encode_binl [] n @ s @ rest) = Inr (n, s @ rest)"
    by (simp add: mp_decode_strbinl_def mp_encode_binl_def codec_simps)
  have n: "n = word_of_nat (unat n)" by simp
  have sizes: "mp_sizeof_str n = word_of_nat (length (mp_encode_strl [] n @ s))"
    "mp_sizeof_bin n = word_of_nat (length (mp_encode_binl [] n @ s))"
    unfolding mp_sizeof_str_def mp_sizeof_bin_def length_append of_nat_add
      strl_item.enc_size [OF TrueI] binl_item.enc_size [OF TrueI] len [symmetric] by simp_all
  have str: "mp_encode_str [] s n = Inr (mp_encode_strl [] n @ s)"
    "mp_encode_bin [] s n = Inr (mp_encode_binl [] n @ s)"
    by (simp_all add: mp_encode_str_def mp_encode_bin_def len)
  show ?thesis
    unfolding str sizes
    by (simp add: mp_decode_str_def mp_decode_bin_def mp_decode_strbin_def mp_advance_def len
        strl binl strl_item.dec_enc binl_item.dec_enc)
qed

text \<open>
  a string and a byte string of fewer than \<open>2 ^ 32\<close> bytes are read back unchanged by their
  decoders and by the common decoder \<open>mp_decode_strbin\<close>, and the announced sizes are the
  lengths of the encodings modulo \<open>2 ^ 32\<close>, the width in which the C code adds them.
\<close>

theorem mp_strings_roundtrip:
  assumes "length s < 2 ^ 32" and "n = word_of_nat (length s)"
  shows "(\<exists>b. mp_encode_str [] s n = Inr b \<and> mp_decode_str (b @ rest) = Inr (s, rest)
        \<and> mp_decode_strbin (b @ rest) = Inr (s, rest) \<and> mp_sizeof_str n = word_of_nat (length b))
    \<and> (\<exists>b. mp_encode_bin [] s n = Inr b \<and> mp_decode_bin (b @ rest) = Inr (s, rest)
        \<and> mp_decode_strbin (b @ rest) = Inr (s, rest) \<and> mp_sizeof_bin n = word_of_nat (length b))"
  using assms by (rule strings_roundtrip)

theorem mp_strings_roundtrip_witness:
  "(\<exists>b. mp_encode_str [] [104, 105] 2 = Inr b \<and> mp_decode_str (b @ [9]) = Inr ([104, 105], [9])
      \<and> mp_decode_strbin (b @ [9]) = Inr ([104, 105], [9]) \<and> mp_sizeof_str 2 = word_of_nat (length b))
    \<and> (\<exists>b. mp_encode_bin [] [104, 105] 2 = Inr b \<and> mp_decode_bin (b @ [9]) = Inr ([104, 105], [9])
      \<and> mp_decode_strbin (b @ [9]) = Inr ([104, 105], [9]) \<and> mp_sizeof_bin 2 = word_of_nat (length b))"
  by (rule mp_strings_roundtrip) simp_all

section \<open>Comparing encoded numbers\<close>

lemma sint_diff_small:
  fixes a b :: u64
  assumes "a \<le> 0xffffffff" "b \<le> 0xffffffff"
  shows "sint (a - b) = uint a - uint b"
proof -
  have ab: "uint a \<le> 0xffffffff" "uint b \<le> 0xffffffff"
    using assms by (simp_all add: word_le_def)
  have nonneg: "0 \<le> uint a" "0 \<le> uint b" by simp_all
  have "a - b = word_of_int (uint a - uint b)" by simp
  then have "sint (a - b) = signed_take_bit 63 (uint a - uint b)"
    by (simp only: signed_of_int) simp
  also have "\<dots> = uint a - uint b"
    by (rule signed_take_bit_int_eq_self) (use ab nonneg in \<open>simp_all, linarith+\<close>)
  finally show ?thesis .
qed

text \<open>An encoded number is a leading byte, increasing with the number, and a payload.\<close>

lemma mp_encode_uint_lead:
  "\<exists>lead payload. mp_encode_uint [] n = lead # payload
    \<and> uint lead = (if uint n \<le> 0x7f then uint n else if uint n \<le> 0xff then 0xcc
        else if uint n \<le> 0xffff then 0xcd else if uint n \<le> 0xffffffff then 0xce else 0xcf)"
  by (auto simp: mp_encode_uint_def codec_simps word_le_def unsigned_ucast_eq take_bit_int_eq_self)

lemma mp_encode_uint_same_form:
  assumes "\<not> a \<le> 0x7f" "\<not> b \<le> 0x7f" "hd (mp_encode_uint [] a) = hd (mp_encode_uint [] b)"
  obtains (u8) "a \<le> 0xff" "b \<le> 0xff"
      "mp_encode_uint [] a = [0xcc, ucast a]" "mp_encode_uint [] b = [0xcc, ucast b]"
  | (u16) "a \<le> 0xffff" "b \<le> 0xffff" "mp_encode_uint [] a = 0xcd # be_bytes 2 (ucast a :: u16)"
      "mp_encode_uint [] b = 0xcd # be_bytes 2 (ucast b :: u16)"
  | (u32) "a \<le> 0xffffffff" "b \<le> 0xffffffff" "mp_encode_uint [] a = 0xce # be_bytes 4 (ucast a :: u32)"
      "mp_encode_uint [] b = 0xce # be_bytes 4 (ucast b :: u32)"
  | (u64) "mp_encode_uint [] a = 0xcf # be_bytes 8 a" "mp_encode_uint [] b = 0xcf # be_bytes 8 b"
  using assms
  by (cases "a \<le> 0xff"; cases "a \<le> 0xffff"; cases "a \<le> 0xffffffff";
      cases "b \<le> 0xff"; cases "b \<le> 0xffff"; cases "b \<le> 0xffffffff")
    (simp_all add: mp_encode_uint_def codec_simps)

lemma mp_compare_uint_same_form:
  assumes "\<not> a \<le> 0x7f" "\<not> b \<le> 0x7f" "hd (mp_encode_uint [] a) = hd (mp_encode_uint [] b)"
  shows "mp_compare_uint (mp_encode_uint [] a @ x) (mp_encode_uint [] b @ y)
    = Inr (of_bool (a > b) - of_bool (a < b))"
proof -
  have up: "n \<le> 0xffff \<Longrightarrow> n \<le> 0xffffffff" "n \<le> 0xff \<Longrightarrow> n \<le> 0xffffffff" for n :: u64
    by (simp_all add: word_le_def)
  have gt: "0 < sint (a - b) \<longleftrightarrow> b < a" "sint (a - b) < 0 \<longleftrightarrow> a < b"
    if "a \<le> 0xffffffff" "b \<le> 0xffffffff"
    using that by (simp_all add: sint_diff_small word_less_def)
  from assms show ?thesis
  proof (cases rule: mp_encode_uint_same_form)
    case u8
    then show ?thesis by (simp add: mp_compare_uint_def Let_def codec_simps gt up)
  next
    case u16
    then show ?thesis by (simp add: mp_compare_uint_def Let_def codec_simps gt up)
  next
    case u32
    then show ?thesis by (simp add: mp_compare_uint_def Let_def codec_simps gt up)
  next
    case u64
    then show ?thesis by (auto simp: mp_compare_uint_def Let_def)
  qed
qed

text \<open>
  \<open>mp_compare_uint\<close> orders encoded numbers as the numbers are ordered: on the encodings of
  \<open>a\<close> and \<open>b\<close> it returns a negative, zero or positive result exactly when \<open>a\<close> is below, equal
  to or above \<open>b\<close>, and never fails, whatever follows the two items.
\<close>

theorem mp_compare_uint_order:
  "\<exists>r. mp_compare_uint (mp_encode_uint [] a @ x) (mp_encode_uint [] b @ y) = Inr r
    \<and> sgn r = (if a < b then -1 else if a = b then 0 else 1)"
proof -
  obtain la pa where a: "mp_encode_uint [] a = la # pa"
    "uint la = (if uint a \<le> 0x7f then uint a else if uint a \<le> 0xff then 0xcc
        else if uint a \<le> 0xffff then 0xcd else if uint a \<le> 0xffffffff then 0xce else 0xcf)"
    using mp_encode_uint_lead by blast
  obtain lb pb where b: "mp_encode_uint [] b = lb # pb"
    "uint lb = (if uint b \<le> 0x7f then uint b else if uint b \<le> 0xff then 0xcc
        else if uint b \<le> 0xffff then 0xcd else if uint b \<le> 0xffffffff then 0xce else 0xcf)"
    using mp_encode_uint_lead by blast
  show ?thesis
  proof (cases "uint la = uint lb")
    case False
    then have "mp_compare_uint (mp_encode_uint [] a @ x) (mp_encode_uint [] b @ y) = Inr (uint la - uint lb)"
      by (simp add: mp_compare_uint_def a(1) b(1) Let_def)
    moreover from False a(2) b(2) have "uint la < uint lb \<longleftrightarrow> a < b" "a \<noteq> b"
      by (auto simp: word_less_def split: if_splits)
    ultimately show ?thesis using False by (auto simp: sgn_if)
  next
    case eq: True
    show ?thesis
    proof (cases "a \<le> 0x7f")
      case True
      with eq a(2) b(2) have "a = b" by (auto simp: word_uint_eq_iff word_le_def split: if_splits)
      moreover have "(ucast b :: u8) \<le> 0x7f" using True \<open>a = b\<close> fixuint_byte(1) [of b] by (simp add: not_less)
      ultimately show ?thesis using True
        by (simp add: mp_compare_uint_def mp_encode_uint_def codec_simps Let_def)
    next
      case False
      with eq a b have "\<not> b \<le> 0x7f" "hd (mp_encode_uint [] a) = hd (mp_encode_uint [] b)"
        by (auto simp: word_uint_eq_iff word_le_def split: if_splits)
      with False show ?thesis by (auto simp: mp_compare_uint_same_form)
    qed
  qed
qed

section \<open>Checked reads\<close>

text \<open>
  \<open>mp_read_int64\<close> returns every encoded number that fits the signed range, negative or
  not, with the cursor after it, and refuses (\<open>None\<close>, cursor unmoved) exactly the unsigned
  numbers above \<open>INT64_MAX\<close>.
\<close>

theorem mp_read_int64_encoded:
  "mp_read_int64 (mp_encode_uint [] n @ rest)
      = Inr (if n \<le> 0x7fffffffffffffff then Some (n, rest) else None)
    \<and> (sint n < 0 \<longrightarrow> rbind (mp_encode_int [] n) (\<lambda>b. mp_read_int64 (b @ rest)) = Inr (Some (n, rest)))"
proof
  have up: "n \<le> 0xffffffff \<Longrightarrow> n \<le> 0x7fffffffffffffff" "n \<le> 0xffff \<Longrightarrow> n \<le> 0x7fffffffffffffff"
    "n \<le> 0xff \<Longrightarrow> n \<le> 0x7fffffffffffffff" "n \<le> 0x7f \<Longrightarrow> n \<le> 0x7fffffffffffffff"
    by (simp_all add: word_le_def)
  have big: "0x7fffffffffffffff < n \<Longrightarrow> 0xffffffff < n" "0x7fffffffffffffff < n \<Longrightarrow> 0xffff < n"
    "0x7fffffffffffffff < n \<Longrightarrow> 0xff < n" "0x7fffffffffffffff < n \<Longrightarrow> 0x7f < n"
    by (simp_all add: word_less_def)
  show "mp_read_int64 (mp_encode_uint [] n @ rest)
      = Inr (if n \<le> 0x7fffffffffffffff then Some (n, rest) else None)"
    by (simp add: mp_read_int64_def mp_encode_uint_def codec_simps up big not_le)
  show "sint n < 0 \<longrightarrow> rbind (mp_encode_int [] n) (\<lambda>b. mp_read_int64 (b @ rest)) = Inr (Some (n, rest))"
    by (simp add: mp_read_int64_def mp_encode_int_def codec_simps not_less)
qed

theorem mp_read_int64_encoded_witness:
  "mp_read_int64 (mp_encode_uint [] 0xffffffffffffffff @ [1]) = Inr None
    \<and> rbind (mp_encode_int [] (-5)) (\<lambda>b. mp_read_int64 (b @ [1])) = Inr (Some (-5, [1]))"
  using mp_read_int64_encoded [where n = "0xffffffffffffffff" and rest = "[1]"]
    mp_read_int64_encoded [where n = "-5" and rest = "[1]"]
  by simp

text \<open>
  \<open>mp_read_int32\<close> on an encoded unsigned number returns it exactly when it fits
  \<^verbatim>\<open>int32_t\<close>, and otherwise refuses without moving the cursor.
\<close>

theorem mp_read_int32_encoded:
  "mp_read_int32 (mp_encode_uint [] n @ rest)
    = Inr (if n \<le> 0x7fffffff then Some (ucast n, rest) else None)"
proof -
  have up: "n \<le> 0xffff \<Longrightarrow> \<not> 0x7fffffff < n" "n \<le> 0xff \<Longrightarrow> \<not> 0x7fffffff < n"
    "n \<le> 0x7f \<Longrightarrow> \<not> 0x7fffffff < n" "0xffffffff < n \<Longrightarrow> 0x7fffffff < n"
    by (simp_all add: word_le_def word_less_def)
  have narrow: "n \<le> 0xff \<Longrightarrow> ucast (ucast n :: u8) = (ucast n :: u32)"
    "n \<le> 0xffff \<Longrightarrow> ucast (ucast n :: u16) = (ucast n :: u32)"
    by (simp_all add: word_le_nat_alt word_unat_eq_iff unsigned_ucast_eq take_bit_eq_mod unat_mod)
  have top: "n \<le> 0xffffffff \<Longrightarrow> 0x7fffffff < (ucast n :: u32) \<longleftrightarrow> \<not> n \<le> 0x7fffffff"
    by (simp add: word_le_nat_alt word_less_nat_alt unsigned_ucast_eq take_bit_nat_eq_self not_le)
  have fixed: "scast (ucast n :: u8) = (ucast n :: u32)" if "n \<le> 0x7f"
  proof -
    have "unat n < 128" using that by (simp add: word_le_nat_alt)
    then show ?thesis by (rule small_word_exhaust) code_simp
  qed
  show ?thesis
    by (simp add: mp_read_int32_def mp_encode_uint_def codec_simps up narrow top fixed not_le)
qed

end
