(* ===== verification/Msgpack_Skip.thy ===== *)
theory Msgpack_Skip
  imports Msgpack_Roundtrip "HOL-Library.Sublist"
begin

text \<open>
  Validation of MessagePack input (\<^verbatim>\<open>include/msgpuck.h\<close>): the \<^verbatim>\<open>mp_check_*\<close> functions for one
  header, and the loops \<open>mp_next\<close>, \<open>mp_next_slowpath\<close> and \<open>mp_check\<close> that step over a whole,
  possibly nested, value. The list of bytes runs from the cursor to \<^verbatim>\<open>end\<close>. The \<^verbatim>\<open>int64_t\<close>
  counter \<open>k\<close> of the loops is an integer; \<open>mp_check_step_counter\<close> bounds its growth by the bytes
  consumed, so that no input below \<open>2 ^ 30\<close> bytes overflows 64 bits.
\<close>

section \<open>Checking one header\<close>

definition mp_check_array :: "bytes \<Rightarrow> mp_error + int" where
  "mp_check_array cur =
     (if length cur = 0 \<or> mp_typeof (hd cur) \<noteq> MP_ARRAY then Inl Mp_AssertFailed
      else rbind (mp_load_u8 cur) (\<lambda>(c, cur).
        if c AND 0x40 = 0 then Inr (- int (length cur))
        else if \<not> (c \<ge> 0xdc \<and> c \<le> 0xdd) then Inl Mp_AssertFailed
        else Inr (uint (push_bit (unat (c AND 0x1)) 2 :: u32) - int (length cur))))"

definition mp_check_map :: "bytes \<Rightarrow> mp_error + int" where
  "mp_check_map cur =
     (if length cur = 0 \<or> mp_typeof (hd cur) \<noteq> MP_MAP then Inl Mp_AssertFailed
      else rbind (mp_load_u8 cur) (\<lambda>(c, cur).
        if c AND NOT 0xf = 0x80 then Inr (- int (length cur))
        else if \<not> (c \<ge> 0xde \<and> c \<le> 0xdf) then Inl Mp_AssertFailed
        else Inr (uint (push_bit (unat (c AND 0x1)) 2 :: u32) - int (length cur))))"

definition mp_check_uint :: "bytes \<Rightarrow> mp_error + int" where
  "mp_check_uint cur =
     (if length cur = 0 \<or> mp_typeof (hd cur) \<noteq> MP_UINT then Inl Mp_AssertFailed
      else rbind (mp_load_u8 cur) (\<lambda>(c, cur). Inr (mp_parser_hint c - int (length cur))))"

definition mp_check_int :: "bytes \<Rightarrow> mp_error + int" where
  "mp_check_int cur =
     (if length cur = 0 \<or> mp_typeof (hd cur) \<noteq> MP_INT then Inl Mp_AssertFailed
      else rbind (mp_load_u8 cur) (\<lambda>(c, cur). Inr (mp_parser_hint c - int (length cur))))"

definition mp_check_float :: "bytes \<Rightarrow> mp_error + int" where
  "mp_check_float cur =
     (if length cur = 0 \<or> mp_typeof (hd cur) \<noteq> MP_FLOAT then Inl Mp_AssertFailed
      else Inr (1 + 4 - int (length cur)))"

definition mp_check_double :: "bytes \<Rightarrow> mp_error + int" where
  "mp_check_double cur =
     (if length cur = 0 \<or> mp_typeof (hd cur) \<noteq> MP_DOUBLE then Inl Mp_AssertFailed
      else Inr (1 + 8 - int (length cur)))"

definition mp_check_strl :: "bytes \<Rightarrow> mp_error + int" where
  "mp_check_strl cur =
     (if length cur = 0 \<or> mp_typeof (hd cur) \<noteq> MP_STR then Inl Mp_AssertFailed
      else rbind (mp_load_u8 cur) (\<lambda>(c, cur).
        if c AND NOT 0x1f = 0xa0 then Inr (- int (length cur))
        else if \<not> (c \<ge> 0xd9 \<and> c \<le> 0xdb) then Inl Mp_AssertFailed
        else Inr (uint (drop_bit 1 (push_bit (unat (c AND 0x3)) 1) :: u32) - int (length cur))))"

text \<open>
  \<open>mp_check_binl\<close> loads the first byte before it asserts that the cursor is inside the buffer,
  so that its assertion requires a second byte.
\<close>

definition mp_check_binl :: "bytes \<Rightarrow> mp_error + int" where
  "mp_check_binl cur = rbind (mp_load_u8 cur) (\<lambda>(c, cur).
     if length cur = 0 then Inl Mp_AssertFailed
     else if mp_typeof c \<noteq> MP_BIN then Inl Mp_AssertFailed
     else if \<not> (c \<ge> 0xc4 \<and> c \<le> 0xc6) then Inl Mp_AssertFailed
     else Inr (uint (push_bit (unat (c AND 0x3)) 1 :: u32) - int (length cur)))"

definition mp_check_nil :: "bytes \<Rightarrow> mp_error + int" where
  "mp_check_nil cur =
     (if length cur = 0 \<or> mp_typeof (hd cur) \<noteq> MP_NIL then Inl Mp_AssertFailed
      else Inr (1 - int (length cur)))"

definition mp_check_bool :: "bytes \<Rightarrow> mp_error + int" where
  "mp_check_bool cur =
     (if length cur = 0 \<or> mp_typeof (hd cur) \<noteq> MP_BOOL then Inl Mp_AssertFailed
      else Inr (1 - int (length cur)))"

lemmas mp_check_defs = mp_check_array_def mp_check_map_def mp_check_uint_def mp_check_int_def
  mp_check_float_def mp_check_double_def mp_check_strl_def mp_check_binl_def mp_check_nil_def
  mp_check_bool_def

section \<open>Stepping over values\<close>

text \<open>One iteration of \<open>mp_next_slowpath\<close>: the new counter, before \<^verbatim>\<open>k--\<close>, and cursor.\<close>

definition mp_next_slowpath_step :: "int \<Rightarrow> bytes \<Rightarrow> mp_error + int \<times> bytes" where
  "mp_next_slowpath_step k data = rbind (mp_load_u8 data) (\<lambda>(c, data).
     let l = mp_parser_hint c in
     if l \<ge> 0 then rbind (mp_advance (nat l) data) (\<lambda>data. Inr (k, data))
     else if l > MP_HINT then Inr (k - l, data)
     else if l = MP_HINT_STR_8 then
       rbind (mp_load_u8 data) (\<lambda>(len, data).
       rbind (mp_advance (unat len) data) (\<lambda>data. Inr (k, data)))
     else if l = MP_HINT_STR_16 then
       rbind (mp_load_u16 data) (\<lambda>(len, data).
       rbind (mp_advance (unat len) data) (\<lambda>data. Inr (k, data)))
     else if l = MP_HINT_STR_32 then
       rbind (mp_load_u32 data) (\<lambda>(len, data).
       rbind (mp_advance (unat len) data) (\<lambda>data. Inr (k, data)))
     else if l = MP_HINT_ARRAY_16 then
       rbind (mp_load_u16 data) (\<lambda>(n, data). Inr (k + uint n, data))
     else if l = MP_HINT_ARRAY_32 then
       rbind (mp_load_u32 data) (\<lambda>(n, data). Inr (k + uint n, data))
     else if l = MP_HINT_MAP_16 then
       rbind (mp_load_u16 data) (\<lambda>(n, data). Inr (k + 2 * uint n, data))
     else if l = MP_HINT_MAP_32 then
       rbind (mp_load_u32 data) (\<lambda>(n, data). Inr (k + uint (2 * n), data))
     else if l = MP_HINT_EXT_8 then
       rbind (mp_load_u8 data) (\<lambda>(len, data). rbind (mp_load_u8 data) (\<lambda>(_, data).
       rbind (mp_advance (unat len) data) (\<lambda>data. Inr (k, data))))
     else if l = MP_HINT_EXT_16 then
       rbind (mp_load_u16 data) (\<lambda>(len, data). rbind (mp_load_u8 data) (\<lambda>(_, data).
       rbind (mp_advance (unat len) data) (\<lambda>data. Inr (k, data))))
     else if l = MP_HINT_EXT_32 then
       rbind (mp_load_u32 data) (\<lambda>(len, data). rbind (mp_load_u8 data) (\<lambda>(_, data).
       rbind (mp_advance (unat len) data) (\<lambda>data. Inr (k, data))))
     else Inl Mp_Unreachable)"

lemma mp_advance_eq_Inr [outcome_simps]:
  "mp_advance n data = Inr rest \<longleftrightarrow> n \<le> length data \<and> rest = drop n data"
  by (auto simp: mp_advance_def)

lemma load_suffix:
  "mp_load_u8 data = Inr (b, rest) \<Longrightarrow> suffix rest data \<and> length rest < length data"
  "mp_load_u16 data = Inr (h, rest) \<Longrightarrow> suffix rest data"
  "mp_load_u32 data = Inr (w, rest) \<Longrightarrow> suffix rest data"
  "mp_advance n data = Inr rest \<Longrightarrow> suffix rest data"
  by (auto simp: mp_load_defs mp_advance_def suffix_drop split: if_splits)

text \<open>The table holds no other value than the ones that the loops distinguish.\<close>

lemma mp_parser_hint_values:
  "mp_parser_hint c \<ge> 0 \<or> mp_parser_hint c > MP_HINT \<or> mp_parser_hint c = MP_HINT_STR_8
    \<or> mp_parser_hint c = MP_HINT_STR_16 \<or> mp_parser_hint c = MP_HINT_STR_32
    \<or> mp_parser_hint c = MP_HINT_ARRAY_16 \<or> mp_parser_hint c = MP_HINT_ARRAY_32
    \<or> mp_parser_hint c = MP_HINT_MAP_16 \<or> mp_parser_hint c = MP_HINT_MAP_32
    \<or> mp_parser_hint c = MP_HINT_EXT_8 \<or> mp_parser_hint c = MP_HINT_EXT_16
    \<or> mp_parser_hint c = MP_HINT_EXT_32"
proof -
  have "\<forall>l\<in>set mp_parser_hint_table. l \<ge> 0 \<or> l > MP_HINT \<or> l = MP_HINT_STR_8
    \<or> l = MP_HINT_STR_16 \<or> l = MP_HINT_STR_32 \<or> l = MP_HINT_ARRAY_16 \<or> l = MP_HINT_ARRAY_32
    \<or> l = MP_HINT_MAP_16 \<or> l = MP_HINT_MAP_32 \<or> l = MP_HINT_EXT_8 \<or> l = MP_HINT_EXT_16
    \<or> l = MP_HINT_EXT_32"
    by code_simp
  moreover have "mp_parser_hint c \<in> set mp_parser_hint_table"
    unfolding mp_parser_hint_def using unat_u8_less [of c] by (intro nth_mem) (simp add: length_mp_parser_hint)
  ultimately show ?thesis by (rule bspec)
qed

lemma mp_next_slowpath_step_consumes:
  assumes "mp_next_slowpath_step k data = Inr (k', rest)"
  shows "suffix rest data \<and> length rest < length data \<and> k \<le> k' \<and> k' \<le> k + 2 ^ 32"
proof -
  obtain c d where c: "mp_load_u8 data = Inr (c, d)"
    using assms by (auto simp: mp_next_slowpath_step_def outcome_simps)
  have bounds: "uint (h :: u16) \<le> 2 ^ 32" "2 * uint h \<le> 2 ^ 32" "uint (w :: u32) \<le> 2 ^ 32" for h w
    using uint_bounded [of h] uint_bounded [of w] by simp_all
  have "suffix rest d \<and> k \<le> k' \<and> k' \<le> k + 2 ^ 32"
    using assms unfolding mp_next_slowpath_step_def c rbind_Inr prod.case Let_def
    apply (simp only: split: if_split_asm)
    apply (auto simp only: rbind_pair_eq_Inr rbind_eq_Inr sum.inject prod.inject dest!: load_suffix)
    using bounds apply (auto simp: MP_HINT_def intro: order_trans dest: suffix_order.trans)
    done
  with load_suffix(1) [OF c] show ?thesis by (auto intro: suffix_order.trans dest: suffix_length_le)
qed

function mp_next_slowpath :: "int \<Rightarrow> bytes \<Rightarrow> mp_error + bytes" where
  "mp_next_slowpath k data =
     (if k > 0 then
        rbind (mp_next_slowpath_step k data) (\<lambda>(k', data'). mp_next_slowpath (k' - 1) data')
      else Inr data)"
  by pat_completeness auto

termination
  by (relation "measure (length \<circ> snd)") (auto dest: mp_next_slowpath_step_consumes)

declare mp_next_slowpath.simps [simp del]

text \<open>
  The loop of \<open>mp_next\<close> handles the common items and hands the others, cursor moved back, to
  the slow path.
\<close>

function mp_next_loop :: "int \<Rightarrow> bytes \<Rightarrow> mp_error + bytes" where
  "mp_next_loop k data =
     (if k > 0 then
        rbind (mp_load_u8 data) (\<lambda>(c, data').
          let l = mp_parser_hint c in
          if l \<ge> 0 then rbind (mp_advance (nat l) data') (\<lambda>data'. mp_next_loop (k - 1) data')
          else if c = 0xd9 then
            rbind (mp_load_u8 data') (\<lambda>(len, data').
            rbind (mp_advance (unat len) data') (\<lambda>data'. mp_next_loop (k - 1) data'))
          else if l > MP_HINT then mp_next_loop (k - l - 1) data'
          else mp_next_slowpath k data)
      else Inr data)"
  by pat_completeness auto

termination
  by (relation "measure (length \<circ> snd)") (auto simp: outcome_simps dest!: load_length)

declare mp_next_loop.simps [simp del]

definition mp_next :: "bytes \<Rightarrow> mp_error + bytes" where
  "mp_next data = mp_next_loop 1 data"

text \<open>
  \<open>mp_check\<close> returns 0 with the cursor after the value, or 1 as soon as fewer bytes are left
  than the next step needs (\<^verbatim>\<open>MP_CHECK_LEN\<close>).
\<close>

datatype mp_flow = Mp_Continue int bytes | Mp_Return int bytes

definition MP_CHECK_LEN :: "nat \<Rightarrow> bytes \<Rightarrow> (mp_error + mp_flow) \<Rightarrow> mp_error + mp_flow" where
  "MP_CHECK_LEN l data m = (if length data < l then Inr (Mp_Return 1 data) else m)"

definition mp_check_step :: "int \<Rightarrow> bytes \<Rightarrow> mp_error + mp_flow" where
  "mp_check_step k data = MP_CHECK_LEN 1 data (rbind (mp_load_u8 data) (\<lambda>(c, data).
     let l = mp_parser_hint c in
     if l \<ge> 0 then MP_CHECK_LEN (nat l) data
       (rbind (mp_advance (nat l) data) (\<lambda>data. Inr (Mp_Continue k data)))
     else if l > MP_HINT then Inr (Mp_Continue (k - l) data)
     else if l = MP_HINT_STR_8 then
       MP_CHECK_LEN 1 data (rbind (mp_load_u8 data) (\<lambda>(len, data).
       MP_CHECK_LEN (unat len) data
         (rbind (mp_advance (unat len) data) (\<lambda>data. Inr (Mp_Continue k data)))))
     else if l = MP_HINT_STR_16 then
       MP_CHECK_LEN 2 data (rbind (mp_load_u16 data) (\<lambda>(len, data).
       MP_CHECK_LEN (unat len) data
         (rbind (mp_advance (unat len) data) (\<lambda>data. Inr (Mp_Continue k data)))))
     else if l = MP_HINT_STR_32 then
       MP_CHECK_LEN 4 data (rbind (mp_load_u32 data) (\<lambda>(len, data).
       MP_CHECK_LEN (unat len) data
         (rbind (mp_advance (unat len) data) (\<lambda>data. Inr (Mp_Continue k data)))))
     else if l = MP_HINT_ARRAY_16 then
       MP_CHECK_LEN 2 data (rbind (mp_load_u16 data) (\<lambda>(n, data). Inr (Mp_Continue (k + uint n) data)))
     else if l = MP_HINT_ARRAY_32 then
       MP_CHECK_LEN 4 data (rbind (mp_load_u32 data) (\<lambda>(n, data). Inr (Mp_Continue (k + uint n) data)))
     else if l = MP_HINT_MAP_16 then
       MP_CHECK_LEN 2 data (rbind (mp_load_u16 data) (\<lambda>(n, data). Inr (Mp_Continue (k + 2 * uint n) data)))
     else if l = MP_HINT_MAP_32 then
       MP_CHECK_LEN 4 data (rbind (mp_load_u32 data) (\<lambda>(n, data). Inr (Mp_Continue (k + uint (2 * n)) data)))
     else if l = MP_HINT_EXT_8 then
       MP_CHECK_LEN (1 + 1) data (rbind (mp_load_u8 data) (\<lambda>(len, data).
       rbind (mp_load_u8 data) (\<lambda>(_, data). MP_CHECK_LEN (unat len) data
         (rbind (mp_advance (unat len) data) (\<lambda>data. Inr (Mp_Continue k data))))))
     else if l = MP_HINT_EXT_16 then
       MP_CHECK_LEN (2 + 1) data (rbind (mp_load_u16 data) (\<lambda>(len, data).
       rbind (mp_load_u8 data) (\<lambda>(_, data). MP_CHECK_LEN (unat len) data
         (rbind (mp_advance (unat len) data) (\<lambda>data. Inr (Mp_Continue k data))))))
     else if l = MP_HINT_EXT_32 then
       MP_CHECK_LEN (4 + 1) data (rbind (mp_load_u32 data) (\<lambda>(len, data).
       rbind (mp_load_u8 data) (\<lambda>(_, data). MP_CHECK_LEN (unat len) data
         (rbind (mp_advance (unat len) data) (\<lambda>data. Inr (Mp_Continue k data))))))
     else Inl Mp_Unreachable))"

function mp_check_loop :: "int \<Rightarrow> bytes \<Rightarrow> mp_error + int \<times> bytes" where
  "mp_check_loop k data =
     (if k > 0 then
        rbind (mp_check_step k data) (\<lambda>flow. case flow of
          Mp_Return r data' \<Rightarrow> Inr (r, data')
        | Mp_Continue k' data' \<Rightarrow> mp_check_loop (k' - 1) data')
      else Inr (0, data))"
  by pat_completeness auto

text \<open>A step of \<open>mp_check\<close> is a step of the slow path, with running out of bytes reported.\<close>

definition reports :: "mp_error + mp_flow \<Rightarrow> mp_error + int \<times> bytes \<Rightarrow> bool" where
  "reports m n = (case n of
      Inr (k, data) \<Rightarrow> m = Inr (Mp_Continue k data)
    | Inl e \<Rightarrow> e = Mp_OutOfBounds \<and> (\<exists>data. m = Inr (Mp_Return 1 data)))"

lemma reports_continue [simp]: "reports (Inr (Mp_Continue k data)) (Inr (k, data))"
  by (simp add: reports_def)

lemma reports_check_len:
  assumes "length data < n \<Longrightarrow> m' = Inl Mp_OutOfBounds" "\<not> length data < n \<Longrightarrow> reports m m'"
  shows "reports (MP_CHECK_LEN n data m) m'"
  using assms by (auto simp: MP_CHECK_LEN_def reports_def)

lemma mp_check_step_reports: "reports (mp_check_step k data) (mp_next_slowpath_step k data)"
proof (cases data)
  case Nil
  then show ?thesis by (simp add: mp_check_step_def mp_next_slowpath_step_def MP_CHECK_LEN_def reports_def)
next
  case (Cons c d)
  have start: "mp_check_step k data = mp_check_step k (c # d)" "length (c # d) \<ge> 1" using Cons by simp_all
  show ?thesis
    unfolding Cons mp_check_step_def mp_next_slowpath_step_def mp_load_u8_simps rbind_Inr prod.case Let_def
    apply (rule reports_check_len)
     apply simp
    apply (simp add: mp_hint_defs MP_CHECK_LEN_def mp_load_defs mp_advance_def reports_def)
    using mp_parser_hint_values [of c] apply (simp add: mp_hint_defs)
    apply arith
    done
qed

termination mp_check_loop
proof (relation "measure (length \<circ> snd)", simp_all, goal_cases)
  case (1 k data flow k' rest)
  then have "mp_next_slowpath_step k data = Inr (k', rest)"
    using mp_check_step_reports [of k data] by (auto simp: reports_def split: sum.splits)
  then show ?case by (simp add: mp_next_slowpath_step_consumes)
qed

declare mp_check_loop.simps [simp del]

definition mp_check :: "bytes \<Rightarrow> mp_error + int \<times> bytes" where
  "mp_check data = mp_check_loop 1 data"

section \<open>The three loops agree\<close>

lemma mp_next_loop_slowpath: "mp_next_loop k data = mp_next_slowpath k data"
proof (induction k data rule: mp_next_loop.induct)
  case (1 k data)
  show ?case
  proof (cases "k > 0 \<and> data \<noteq> []")
    case False
    then show ?thesis
      by (auto simp: mp_next_loop.simps [of k data] mp_next_slowpath.simps [of k data] mp_next_slowpath_step_def)
  next
    case True
    then obtain c d where d: "data = c # d" and k: "k > 0" by (cases data) auto
    have load: "mp_load_u8 data = Inr (c, d)" using d by simp
    note IH = 1 [OF k load refl refl]
    show ?thesis
    proof (cases "mp_parser_hint c \<ge> 0")
      case True
      then show ?thesis using IH(1) k
        by (subst mp_next_loop.simps, subst mp_next_slowpath.simps)
          (simp add: d mp_next_slowpath_step_def Let_def rbind_assoc cong: rbind_cong)
    next
      case neg: False
      show ?thesis
      proof (cases "c = 0xd9")
        case True
        then have "mp_parser_hint c = MP_HINT_STR_8" by (simp add: mp_parser_hint_cases)
        moreover have "mp_next_loop (k - 1) e = mp_next_slowpath (k - 1) e"
          if "mp_load_u8 d = Inr x" "mp_advance (unat (fst x)) (snd x) = Inr e" for x e
          using IH(2) [of x "fst x" "snd x"] that True neg by simp
        ultimately show ?thesis using True k neg
          by (subst mp_next_loop.simps) (simp add: d mp_next_slowpath.simps [of k "c # d" for c]
              mp_next_slowpath_step_def Let_def rbind_assoc mp_hint_defs split_def cong: rbind_cong)
      next
        case False
        then show ?thesis using IH(3) k neg
          by (subst mp_next_loop.simps) (simp add: d mp_next_slowpath.simps [of k "c # d"]
              mp_next_slowpath_step_def Let_def)
      qed
    qed
  qed
qed

lemma mp_check_loop_slowpath:
  "case mp_next_slowpath k data of
     Inr rest \<Rightarrow> mp_check_loop k data = Inr (0, rest)
   | Inl e \<Rightarrow> e = Mp_OutOfBounds \<and> (\<exists>rest. mp_check_loop k data = Inr (1, rest))"
proof (induction k data rule: mp_next_slowpath.induct)
  case (1 k data)
  show ?case
  proof (cases "k > 0")
    case False
    then show ?thesis by (simp add: mp_next_slowpath.simps [of k data] mp_check_loop.simps [of k data])
  next
    case True
    have rep: "reports (mp_check_step k data) (mp_next_slowpath_step k data)"
      by (rule mp_check_step_reports)
    show ?thesis
    proof (cases "mp_next_slowpath_step k data")
      case (Inl e)
      with True rep show ?thesis
        by (auto simp: mp_next_slowpath.simps [of k data] mp_check_loop.simps [of k data] reports_def)
    next
      case (Inr y)
      obtain k' d' where y: "y = (k', d')" by (cases y)
      with Inr rep have "mp_check_step k data = Inr (Mp_Continue k' d')" by (simp add: reports_def)
      with True have "mp_check_loop k data = mp_check_loop (k' - 1) d'"
        by (subst mp_check_loop.simps) simp
      moreover from True Inr y have "mp_next_slowpath k data = mp_next_slowpath (k' - 1) d'"
        by (subst mp_next_slowpath.simps) simp
      ultimately show ?thesis using 1 [OF True Inr y [symmetric]] by (simp split: sum.splits)
    qed
  qed
qed

section \<open>Properties\<close>

lemma mp_check_step_suffix:
  assumes "mp_check_step k data = Inr (Mp_Return r d)"
  shows "suffix d data \<and> r = 1"
proof (cases data)
  case Nil
  with assms show ?thesis by (simp add: mp_check_step_def MP_CHECK_LEN_def)
next
  case (Cons c d')
  from assms have "suffix d d' \<and> r = 1"
    unfolding Cons mp_check_step_def mp_load_u8_simps rbind_Inr prod.case Let_def
    by (simp add: MP_CHECK_LEN_def mp_load_defs mp_advance_def split: if_splits)
      (auto simp: suffix_drop)
  with Cons show ?thesis by (auto intro: suffix_ConsI)
qed

lemma mp_check_loop_safe:
  "\<exists>r rest. mp_check_loop k data = Inr (r, rest) \<and> r \<in> {0, 1} \<and> suffix rest data"
proof (induction k data rule: mp_check_loop.induct)
  case (1 k data)
  show ?case
  proof (cases "k > 0")
    case False
    then show ?thesis by (simp add: mp_check_loop.simps [of k data])
  next
    case True
    have rep: "reports (mp_check_step k data) (mp_next_slowpath_step k data)"
      by (rule mp_check_step_reports)
    then obtain flow where flow: "mp_check_step k data = Inr flow"
      by (auto simp: reports_def split: sum.splits)
    show ?thesis
    proof (cases flow)
      case (Mp_Return r d)
      then show ?thesis using True flow mp_check_step_suffix [of k data r d]
        by (simp add: mp_check_loop.simps [of k data])
    next
      case (Mp_Continue k' d')
      with rep flow have "mp_next_slowpath_step k data = Inr (k', d')"
        by (auto simp: reports_def split: sum.splits)
      then have "suffix d' data" by (simp add: mp_next_slowpath_step_consumes)
      moreover have "mp_check_loop k data = mp_check_loop (k' - 1) d'"
        using True flow Mp_Continue by (simp add: mp_check_loop.simps [of k data])
      ultimately show ?thesis using 1 [OF True flow Mp_Continue]
        by (auto intro: suffix_order.trans)
    qed
  qed
qed

text \<open>
  C18: \<open>mp_check\<close> is safe on every byte sequence: it never reads outside the buffer and never
  reaches an unreachable branch, it returns 0 or 1, and the cursor it leaves is inside the buffer.
\<close>

theorem mp_check_safe:
  "\<exists>r rest. mp_check data = Inr (r, rest) \<and> r \<in> {0, 1} \<and> suffix rest data"
  unfolding mp_check_def by (rule mp_check_loop_safe)

text \<open>
  C17: the three loops implement one function: \<open>mp_next\<close> and its slow path agree, \<open>mp_check\<close>
  returns 0 exactly on the inputs that \<open>mp_next\<close> steps over, with the same cursor, and returns 1
  exactly on the inputs on which \<open>mp_next\<close> would read past the end of the buffer.
\<close>

theorem mp_check_iff_mp_next:
  "mp_next data = mp_next_slowpath 1 data
    \<and> (mp_check data = Inr (0, rest) \<longleftrightarrow> mp_next data = Inr rest)
    \<and> ((\<exists>rest. mp_check data = Inr (1, rest)) \<longleftrightarrow> mp_next data = Inl Mp_OutOfBounds)"
  using mp_check_loop_slowpath [of 1 data]
  by (auto simp: mp_next_def mp_next_loop_slowpath mp_check_def split: sum.splits)

text \<open>The states that the loop of \<open>mp_check\<close> goes through on the buffer \<open>data\<close>.\<close>

inductive mp_check_reach :: "bytes \<Rightarrow> int \<Rightarrow> bytes \<Rightarrow> bool" for data where
  start: "mp_check_reach data 1 data"
| step: "mp_check_reach data k d \<Longrightarrow> k > 0 \<Longrightarrow> mp_check_step k d = Inr (Mp_Continue k' d') \<Longrightarrow>
    mp_check_reach data (k' - 1) d'"

lemma mp_check_reach_bound:
  "mp_check_reach data k d \<Longrightarrow>
    0 \<le> k \<and> k \<le> 1 + 2 ^ 32 * (int (length data) - int (length d)) \<and> suffix d data"
proof (induction rule: mp_check_reach.induct)
  case start
  then show ?case by simp
next
  case (step k d k' d')
  then have "mp_next_slowpath_step k d = Inr (k', d')"
    using mp_check_step_reports [of k d] by (auto simp: reports_def split: sum.splits)
  then have "suffix d' d \<and> length d' < length d \<and> k \<le> k' \<and> k' \<le> k + 2 ^ 32"
    by (rule mp_next_slowpath_step_consumes)
  with step show ?case by (auto intro: suffix_order.trans)
qed

text \<open>
  The \<^verbatim>\<open>int64_t\<close> counter of \<open>mp_check\<close> cannot overflow on a buffer of at most
  \<open>2 ^ 30\<close> bytes: whenever the loop is reached, the counter and everything one iteration can
  make of it fit in 64 bits, signed.
\<close>

theorem mp_check_counter_fits:
  assumes "mp_check_reach data k d" "length data \<le> 2 ^ 30"
    and "mp_check_step k d = Inr (Mp_Continue k' d')"
  shows "0 \<le> k \<and> k < 2 ^ 63 \<and> 0 \<le> k' \<and> k' < 2 ^ 63"
proof -
  have "mp_next_slowpath_step k d = Inr (k', d')"
    using mp_check_step_reports [of k d] assms(3) by (auto simp: reports_def split: sum.splits)
  from mp_next_slowpath_step_consumes [OF this] have "k \<le> k' \<and> k' \<le> k + 2 ^ 32" by simp
  moreover have "int (length data) \<le> 2 ^ 30" using assms(2) by simp
  ultimately show ?thesis using mp_check_reach_bound [OF assms(1)] by simp
qed

theorem mp_check_counter_fits_witness:
  "mp_check_reach [0xdd, 0xff, 0xff, 0xff, 0xff] 1 [0xdd, 0xff, 0xff, 0xff, 0xff]
    \<and> (0::int) \<le> 1 \<and> (1::int) < 2 ^ 63 \<and> (0::int) \<le> 4294967296 \<and> (4294967296::int) < 2 ^ 63"
proof -
  have reach: "mp_check_reach [0xdd, 0xff, 0xff, 0xff, 0xff] 1 [0xdd, 0xff, 0xff, 0xff, 0xff]"
    by (rule mp_check_reach.start)
  have "mp_check_step 1 [0xdd, 0xff, 0xff, 0xff, 0xff] = Inr (Mp_Continue 4294967296 [])"
    by code_simp
  from mp_check_counter_fits [OF reach _ this] reach show ?thesis by simp
qed

section \<open>Encoded values\<close>

text \<open>The values that the encoders of the source can write, and their encoding.\<close>

datatype mp_value = V_Nil | V_Bool bool | V_Uint u64 | V_Int u64 | V_Float u32 | V_Double u64
  | V_Str bytes | V_Bin bytes | V_Array "mp_value list" | V_Map "(mp_value \<times> mp_value) list"

definition written :: "mp_error + bytes \<Rightarrow> bytes" where
  "written m = (case m of Inl e \<Rightarrow> [] | Inr b \<Rightarrow> b)"

fun encode_value :: "mp_value \<Rightarrow> bytes" where
  "encode_value V_Nil = mp_encode_nil []"
| "encode_value (V_Bool b) = mp_encode_bool [] b"
| "encode_value (V_Uint n) = mp_encode_uint [] n"
| "encode_value (V_Int n) = written (mp_encode_int [] n)"
| "encode_value (V_Float w) = mp_encode_float [] w"
| "encode_value (V_Double d) = mp_encode_double [] d"
| "encode_value (V_Str s) = written (mp_encode_str [] s (word_of_nat (length s)))"
| "encode_value (V_Bin s) = written (mp_encode_bin [] s (word_of_nat (length s)))"
| "encode_value (V_Array vs) =
     mp_encode_array [] (word_of_nat (length vs)) @ concat (map encode_value vs)"
| "encode_value (V_Map kvs) = mp_encode_map [] (word_of_nat (length kvs)) @
     concat (map (\<lambda>kv. encode_value (fst kv) @ encode_value (snd kv)) kvs)"

fun encodable :: "mp_value \<Rightarrow> bool" where
  "encodable (V_Int n) = (sint n < 0)"
| "encodable (V_Str s) = (length s < 2 ^ 32)"
| "encodable (V_Bin s) = (length s < 2 ^ 32)"
| "encodable (V_Array vs) = (length vs < 2 ^ 32 \<and> (\<forall>v\<in>set vs. encodable v))"
| "encodable (V_Map kvs) = (length kvs < 2 ^ 31 \<and>
     (\<forall>kv\<in>set kvs. encodable (fst kv) \<and> encodable (snd kv)))"
| "encodable _ = True"

text \<open>The hint of the first byte of each encoding.\<close>

lemma fix_hints [codec_simps]:
  "n \<le> (15 :: u32) \<Longrightarrow> mp_parser_hint (ucast (0x90 OR n)) = - uint n"
  "n \<le> (15 :: u32) \<Longrightarrow> mp_parser_hint (ucast (0x80 OR n)) = - 2 * uint n"
  "n \<le> (31 :: u32) \<Longrightarrow> mp_parser_hint (0xa0 OR ucast n) = uint n"
proof -
  show "mp_parser_hint (ucast (0x90 OR n)) = - uint n" if "n \<le> (15 :: u32)"
  proof -
    have "unat n < 16" using that by (simp add: word_le_nat_alt)
    then show ?thesis by (rule small_word_exhaust) code_simp
  qed
  show "mp_parser_hint (ucast (0x80 OR n)) = - 2 * uint n" if "n \<le> (15 :: u32)"
  proof -
    have "unat n < 16" using that by (simp add: word_le_nat_alt)
    then show ?thesis by (rule small_word_exhaust) code_simp
  qed
  show "mp_parser_hint (0xa0 OR ucast n) = uint n" if "n \<le> (31 :: u32)"
  proof -
    have "unat n < 32" using that by (simp add: word_le_nat_alt)
    then show ?thesis by (rule small_word_exhaust) code_simp
  qed
qed

lemma fixint_hints [codec_simps]:
  "\<not> 0x7f < c \<Longrightarrow> mp_parser_hint c = 0" "\<not> c < 0xe0 \<Longrightarrow> mp_parser_hint c = 0"
proof -
  have "c \<le> 0x7f \<or> 0xe0 \<le> c \<longrightarrow> mp_parser_hint c = 0"
    by (rule small_word_exhaust [OF unat_u8_less]) code_simp
  then show "\<not> 0x7f < c \<Longrightarrow> mp_parser_hint c = 0" "\<not> c < 0xe0 \<Longrightarrow> mp_parser_hint c = 0"
    by (simp_all add: not_less)
qed

lemma scalar_hints [codec_simps]:
  "mp_parser_hint 0xc0 = 0" "mp_parser_hint 0xc2 = 0" "mp_parser_hint 0xc3 = 0"
  "mp_parser_hint 0xc4 = MP_HINT_STR_8" "mp_parser_hint 0xc5 = MP_HINT_STR_16"
  "mp_parser_hint 0xc6 = MP_HINT_STR_32" "mp_parser_hint 0xca = 4" "mp_parser_hint 0xcb = 8"
  "mp_parser_hint 0xcc = 1" "mp_parser_hint 0xcd = 2" "mp_parser_hint 0xce = 4" "mp_parser_hint 0xcf = 8"
  "mp_parser_hint 0xd0 = 1" "mp_parser_hint 0xd1 = 2" "mp_parser_hint 0xd2 = 4" "mp_parser_hint 0xd3 = 8"
  "mp_parser_hint 0xd9 = MP_HINT_STR_8" "mp_parser_hint 0xda = MP_HINT_STR_16"
  "mp_parser_hint 0xdb = MP_HINT_STR_32" "mp_parser_hint 0xdc = MP_HINT_ARRAY_16"
  "mp_parser_hint 0xdd = MP_HINT_ARRAY_32" "mp_parser_hint 0xde = MP_HINT_MAP_16"
  "mp_parser_hint 0xdf = MP_HINT_MAP_32"
  by (auto simp: mp_parser_hint_cases)

lemma mp_advance_simps [simp]:
  "length b = n \<Longrightarrow> mp_advance n (b @ rest) = Inr rest"
  "mp_advance 0 rest = Inr rest" "mp_advance (Suc 0) (c # rest) = Inr rest"
  by (simp_all add: mp_advance_def)

text \<open>A step of the slow path over each kind of item.\<close>

lemma step_scalars:
  "mp_next_slowpath_step k (mp_encode_nil [] @ rest) = Inr (k, rest)"
  "mp_next_slowpath_step k (mp_encode_bool [] b @ rest) = Inr (k, rest)"
  "mp_next_slowpath_step k (mp_encode_uint [] n @ rest) = Inr (k, rest)"
  "mp_next_slowpath_step k (mp_encode_float [] w @ rest) = Inr (k, rest)"
  "mp_next_slowpath_step k (mp_encode_double [] d @ rest) = Inr (k, rest)"
  by (simp_all add: mp_next_slowpath_step_def mp_encode_defs codec_simps Let_def)

lemma uint_narrow:
  "n \<le> (0xffff :: u32) \<Longrightarrow> uint (ucast n :: u16) = uint n"
  "n < (0x80000000 :: u32) \<Longrightarrow> uint (2 * n) = 2 * uint n"
  by (simp_all add: word_le_def word_less_def unsigned_ucast_eq take_bit_int_eq_self
      uint_word_ariths)

lemma step_headers:
  "mp_next_slowpath_step k (mp_encode_array [] n @ rest) = Inr (k + uint n, rest)"
  "n < 0x80000000 \<Longrightarrow> mp_next_slowpath_step k (mp_encode_map [] n @ rest) = Inr (k + 2 * uint n, rest)"
proof -
  have small: "uint n < 16" if "n \<le> 15" using that by (simp add: word_le_def)
  show "mp_next_slowpath_step k (mp_encode_array [] n @ rest) = Inr (k + uint n, rest)"
    using small by (auto simp: mp_next_slowpath_step_def mp_encode_defs codec_simps Let_def mp_hint_defs
        uint_narrow mp_advance_def)
  show "mp_next_slowpath_step k (mp_encode_map [] n @ rest) = Inr (k + 2 * uint n, rest)"
    if "n < 0x80000000"
    using small that by (auto simp: mp_next_slowpath_step_def mp_encode_defs codec_simps Let_def mp_hint_defs
        uint_narrow mp_advance_def)
qed

lemma step_strings:
  assumes "length s < 2 ^ 32"
  shows "mp_next_slowpath_step k (written (mp_encode_str [] s (word_of_nat (length s))) @ rest) = Inr (k, rest)"
    "mp_next_slowpath_step k (written (mp_encode_bin [] s (word_of_nat (length s))) @ rest) = Inr (k, rest)"
proof -
  define n :: u32 where "n = word_of_nat (length s)"
  have len: "unat n = length s" unfolding n_def using assms by (rule unat_length_u32)
  have below: "n \<le> 0xff \<Longrightarrow> unat (ucast n :: u8) = length s"
    "n \<le> 0xffff \<Longrightarrow> unat (ucast n :: u16) = length s"
    using len by (simp_all add: word_le_nat_alt unsigned_ucast_eq take_bit_nat_eq_self)
  have nat: "nat (uint n) = length s" using len by simp
  show "mp_next_slowpath_step k (written (mp_encode_str [] s (word_of_nat (length s))) @ rest) = Inr (k, rest)"
    unfolding n_def [symmetric]
    by (simp add: written_def mp_encode_str_def len mp_next_slowpath_step_def mp_encode_defs
        codec_simps Let_def mp_hint_defs below nat)
  show "mp_next_slowpath_step k (written (mp_encode_bin [] s (word_of_nat (length s))) @ rest) = Inr (k, rest)"
    unfolding n_def [symmetric]
    by (simp add: written_def mp_encode_bin_def len mp_next_slowpath_step_def mp_encode_defs
        codec_simps Let_def mp_hint_defs below nat)
qed

lemma step_int:
  assumes "sint n < 0"
  shows "mp_next_slowpath_step k (written (mp_encode_int [] n) @ rest) = Inr (k, rest)"
  using assms by (simp add: written_def mp_encode_int_def mp_next_slowpath_step_def codec_simps Let_def)

lemma slowpath_after_step:
  "k > 0 \<Longrightarrow> mp_next_slowpath_step k data = Inr (k', rest) \<Longrightarrow>
    mp_next_slowpath k data = mp_next_slowpath (k' - 1) rest"
  by (subst mp_next_slowpath.simps) simp

lemma slowpath_value:
  "encodable v \<Longrightarrow> k > 0 \<Longrightarrow>
    mp_next_slowpath k (encode_value v @ rest) = mp_next_slowpath (k - 1) rest"
proof (induction v arbitrary: k rest)
  case (V_Array vs)
  have items: "mp_next_slowpath j (concat (map encode_value us) @ rest) = mp_next_slowpath (j - int (length us)) rest"
    if "set us \<subseteq> set vs" "j \<ge> int (length us)" for us j
    using that
  proof (induction us arbitrary: j)
    case (Cons u us)
    with V_Array have "mp_next_slowpath j (encode_value u @ concat (map encode_value us) @ rest)
        = mp_next_slowpath (j - 1) (concat (map encode_value us) @ rest)" by simp
    with Cons show ?case by (simp add: algebra_simps)
  qed simp
  let ?n = "word_of_nat (length vs) :: u32"
  have n: "uint ?n = int (length vs)" using V_Array.prems by (simp add: unsigned_of_nat take_bit_nat_eq_self)
  have "mp_next_slowpath k (encode_value (V_Array vs) @ rest)
      = mp_next_slowpath (k + uint ?n - 1) (concat (map encode_value vs) @ rest)"
    using V_Array.prems by (simp add: slowpath_after_step step_headers)
  also have "\<dots> = mp_next_slowpath (k - 1) rest"
    using V_Array.prems items [of vs "k + uint ?n - 1"] by (simp add: n)
  finally show ?case .
next
  case (V_Map kvs)
  have items: "mp_next_slowpath j (concat (map (\<lambda>kv. encode_value (fst kv) @ encode_value (snd kv)) us) @ rest)
      = mp_next_slowpath (j - 2 * int (length us)) rest"
    if "set us \<subseteq> set kvs" "j \<ge> 2 * int (length us)" for us j
    using that
  proof (induction us arbitrary: j)
    case (Cons u us)
    from Cons.prems V_Map.prems have enc: "encodable (fst u)" "encodable (snd u)" by auto
    have u: "u \<in> set kvs" "fst u \<in> Basic_BNFs.fsts u" "snd u \<in> Basic_BNFs.snds u"
      using Cons.prems by (simp_all add: fsts.simps snds.simps prod_eq_iff)
    show ?case
      using Cons V_Map.IH(1) [OF u(1,2) enc(1), of j] V_Map.IH(2) [OF u(1,3) enc(2), of "j - 1"]
      by (simp add: algebra_simps)
  qed simp
  let ?n = "word_of_nat (length kvs) :: u32"
  have n: "uint ?n = int (length kvs)" "?n < 0x80000000"
    using V_Map.prems by (simp_all add: unsigned_of_nat take_bit_nat_eq_self word_less_nat_alt)
  have "mp_next_slowpath k (encode_value (V_Map kvs) @ rest)
      = mp_next_slowpath (k + 2 * uint ?n - 1)
          (concat (map (\<lambda>kv. encode_value (fst kv) @ encode_value (snd kv)) kvs) @ rest)"
    using V_Map.prems n(2) by (simp add: slowpath_after_step step_headers)
  also have "\<dots> = mp_next_slowpath (k - 1) rest"
    using V_Map.prems items [of kvs "k + 2 * uint ?n - 1"] by (simp add: n)
  finally show ?case .
qed (simp_all add: slowpath_after_step step_scalars step_strings step_int)

lemma next_skips_value:
  assumes "encodable v"
  shows "mp_next (encode_value v @ rest) = Inr rest \<and> mp_check (encode_value v @ rest) = Inr (0, rest)"
proof -
  have "mp_next (encode_value v @ rest) = Inr rest"
    unfolding mp_next_def mp_next_loop_slowpath
    using slowpath_value [OF assms, of 1 rest] by (simp add: mp_next_slowpath.simps [of 0])
  then show ?thesis using mp_check_loop_slowpath [of 1 "encode_value v @ rest"]
    by (simp add: mp_next_def mp_next_loop_slowpath mp_check_def)
qed

text \<open>
  C19: \<open>mp_next\<close> and \<open>mp_check\<close> step over exactly one encoded value: on the encoding of any
  value the encoders can write (maps below \<open>2 ^ 31\<close> pairs), nested to any depth, the cursor
  ends on the first byte after it.
\<close>

theorem mp_next_skips_value:
  assumes "encodable v"
  shows "mp_next (encode_value v @ rest) = Inr rest \<and> mp_check (encode_value v @ rest) = Inr (0, rest)"
  using assms by (rule next_skips_value)

text \<open>
  The number of items of a 32-bit map is computed in 32 bits: \<open>mp_check\<close> accepts a map
  header that announces \<open>2 ^ 31\<close> pairs as a complete value although no pair follows, and
  \<open>mp_next\<close> stops right after it.
\<close>

theorem mp_check_map32_wraps:
  "mp_decode_map [0xdf, 0x80, 0, 0, 0] = Inr (0x80000000, [])
    \<and> mp_check [0xdf, 0x80, 0, 0, 0] = Inr (0, []) \<and> mp_next [0xdf, 0x80, 0, 0, 0] = Inr []"
  by code_simp

theorem mp_next_skips_value_witness:
  "mp_next (encode_value (V_Map [(V_Str [97], V_Array [V_Int (-1), V_Nil])]) @ [5]) = Inr [5]
    \<and> mp_check (encode_value (V_Map [(V_Str [97], V_Array [V_Int (-1), V_Nil])]) @ [5]) = Inr (0, [5])"
  by (rule mp_next_skips_value) simp

section \<open>The header checks\<close>

text \<open>
  The contract of the \<^verbatim>\<open>mp_check_*\<close> functions: on a first byte of their type they return how many
  bytes the header lacks, and nothing is lacking exactly when the decoder of that type returns.
\<close>

locale header_check =
  fixes chk :: "bytes \<Rightarrow> mp_error + int" and returns :: "bytes \<Rightarrow> bool" and ty :: mp_type
    and need :: "u8 \<Rightarrow> int"
  assumes chk_need: "mp_typeof c = ty \<Longrightarrow> chk (c # d) = Inr (need c - int (length d))"
    and returns_need: "mp_typeof c = ty \<Longrightarrow> returns (c # d) \<longleftrightarrow> need c \<le> int (length d)"
begin

lemma sound:
  assumes "mp_typeof c = ty"
  shows "\<exists>r. chk (c # d) = Inr r \<and> (r \<le> 0 \<longleftrightarrow> returns (c # d))"
  using assms by (simp add: chk_need returns_need)

text \<open>A positive result is the exact number of bytes to wait for.\<close>

lemma lacking:
  assumes "mp_typeof c = ty" "chk (c # d) = Inr r" "0 < r"
  shows "returns (c # d @ e) \<longleftrightarrow> r \<le> int (length e)"
  using assms by (auto simp: chk_need returns_need)

end

definition decodes :: "(bytes \<Rightarrow> mp_error + 'a) \<Rightarrow> bytes \<Rightarrow> bool" where
  "decodes dec data = (case dec data of Inl _ \<Rightarrow> False | Inr _ \<Rightarrow> True)"

text \<open>Bytes of the extra header of each first byte.\<close>

definition header_rest :: "u8 \<Rightarrow> int" where
  "header_rest c =
     (if c = 0xdc \<or> c = 0xde \<or> c = 0xda \<or> c = 0xc5 then 2
      else if c = 0xdd \<or> c = 0xdf \<or> c = 0xdb \<or> c = 0xc6 then 4
      else if c = 0xd9 \<or> c = 0xc4 then 1 else 0)"

text \<open>The first bytes of each type.\<close>

lemma typeof_ranges:
  "mp_typeof c = MP_ARRAY \<longleftrightarrow> 0x90 \<le> c \<and> c \<le> 0x9f \<or> c = 0xdc \<or> c = 0xdd"
  "mp_typeof c = MP_MAP \<longleftrightarrow> 0x80 \<le> c \<and> c \<le> 0x8f \<or> c = 0xde \<or> c = 0xdf"
  "mp_typeof c = MP_STR \<longleftrightarrow> 0xa0 \<le> c \<and> c \<le> 0xbf \<or> c = 0xd9 \<or> c = 0xda \<or> c = 0xdb"
  "mp_typeof c = MP_UINT \<longleftrightarrow> c \<le> 0x7f \<or> c = 0xcc \<or> c = 0xcd \<or> c = 0xce \<or> c = 0xcf"
  "mp_typeof c = MP_INT \<longleftrightarrow> 0xe0 \<le> c \<or> c = 0xd0 \<or> c = 0xd1 \<or> c = 0xd2 \<or> c = 0xd3"
  "mp_typeof c = MP_BIN \<longleftrightarrow> c = 0xc4 \<or> c = 0xc5 \<or> c = 0xc6"
  "mp_typeof c = MP_FLOAT \<longleftrightarrow> c = 0xca" "mp_typeof c = MP_DOUBLE \<longleftrightarrow> c = 0xcb"
  "mp_typeof c = MP_NIL \<longleftrightarrow> c = 0xc0" "mp_typeof c = MP_BOOL \<longleftrightarrow> c = 0xc2 \<or> c = 0xc3"
  by (simp_all add: mp_typeof_cases word_le_def word_uint_eq_iff) (linarith | arith)+

lemma fix_masks:
  "0x90 \<le> c \<Longrightarrow> c \<le> (0x9f :: u8) \<Longrightarrow> c AND 0x40 = 0"
  "0x80 \<le> c \<Longrightarrow> c \<le> (0x8f :: u8) \<Longrightarrow> c AND NOT 0xf = 0x80"
  "0xa0 \<le> c \<Longrightarrow> c \<le> (0xbf :: u8) \<Longrightarrow> c AND NOT 0x1f = 0xa0"
proof -
  have "\<forall>k\<in>set [0x90..<Suc 0x9f]. (word_of_nat k :: u8) AND 0x40 = 0"
    "\<forall>k\<in>set [0x80..<Suc 0x8f]. (word_of_nat k :: u8) AND NOT 0xf = 0x80"
    "\<forall>k\<in>set [0xa0..<Suc 0xbf]. (word_of_nat k :: u8) AND NOT 0x1f = 0xa0"
    by code_simp+
  note * = word_range_exhaust [OF _ _ _ _ this(1)] word_range_exhaust [OF _ _ _ _ this(2)]
    word_range_exhaust [OF _ _ _ _ this(3)]
  show "0x90 \<le> c \<Longrightarrow> c \<le> (0x9f :: u8) \<Longrightarrow> c AND 0x40 = 0"
    "0x80 \<le> c \<Longrightarrow> c \<le> (0x8f :: u8) \<Longrightarrow> c AND NOT 0xf = 0x80"
    "0xa0 \<le> c \<Longrightarrow> c \<le> (0xbf :: u8) \<Longrightarrow> c AND NOT 0x1f = 0xa0"
    by (rule *; simp)+
qed

lemma decodes_iff: "decodes dec data \<longleftrightarrow> (\<exists>y. dec data = Inr y)"
  by (auto simp: decodes_def split: sum.splits)

lemma decodes_load:
  "(\<exists>x y. mp_load_u8 d = Inr (x, y)) \<longleftrightarrow> 1 \<le> int (length d)"
  "(\<exists>x y. mp_load_u16 d = Inr (x, y)) \<longleftrightarrow> 2 \<le> int (length d)"
  "(\<exists>x y. mp_load_u32 d = Inr (x, y)) \<longleftrightarrow> 4 \<le> int (length d)"
  "(\<exists>x y. mp_load_u64 d = Inr (x, y)) \<longleftrightarrow> 8 \<le> int (length d)"
  "(\<exists>y x. mp_load_u8 d = Inr (x, y)) \<longleftrightarrow> 1 \<le> int (length d)"
  "(\<exists>y x. mp_load_u16 d = Inr (x, y)) \<longleftrightarrow> 2 \<le> int (length d)"
  "(\<exists>y x. mp_load_u32 d = Inr (x, y)) \<longleftrightarrow> 4 \<le> int (length d)"
  "(\<exists>x y. mp_load_float d = Inr (x, y)) \<longleftrightarrow> 4 \<le> int (length d)"
  "(\<exists>x y. mp_load_double d = Inr (x, y)) \<longleftrightarrow> 8 \<le> int (length d)"
  by (auto simp: mp_load_defs Suc_le_eq)

interpretation array_check: header_check mp_check_array "decodes mp_decode_array" MP_ARRAY header_rest
proof
  fix c :: u8 and d assume c: "mp_typeof c = MP_ARRAY"
  then have "0x90 \<le> c \<and> c \<le> 0x9f \<and> c AND 0x40 = 0 \<and> header_rest c = 0 \<or> c = 0xdc \<or> c = 0xdd"
    by (auto simp: typeof_ranges fix_masks [simplified] header_rest_def)
  then show "mp_check_array (c # d) = Inr (header_rest c - int (length d))"
    "decodes mp_decode_array (c # d) \<longleftrightarrow> header_rest c \<le> int (length d)"
    using c by (auto simp: mp_check_array_def decodes_iff mp_decode_defs outcome_simps decodes_load header_rest_def)
qed

interpretation map_check: header_check mp_check_map "decodes mp_decode_map" MP_MAP header_rest
proof
  fix c :: u8 and d assume c: "mp_typeof c = MP_MAP"
  then have "\<not> c < 0x80 \<and> \<not> 0x8f < c \<and> c AND NOT 0xf = 0x80 \<and> header_rest c = 0 \<and> c \<noteq> 0xde \<and> c \<noteq> 0xdf
      \<or> c = 0xde \<or> c = 0xdf"
    by (auto simp: typeof_ranges fix_masks [simplified] header_rest_def not_less)
  then show "mp_check_map (c # d) = Inr (header_rest c - int (length d))"
    "decodes mp_decode_map (c # d) \<longleftrightarrow> header_rest c \<le> int (length d)"
    using c by (auto simp: mp_check_map_def decodes_iff mp_decode_defs outcome_simps decodes_load header_rest_def)
qed

interpretation strl_check: header_check mp_check_strl "decodes mp_decode_strl" MP_STR header_rest
proof
  fix c :: u8 and d assume c: "mp_typeof c = MP_STR"
  then have "\<not> c < 0xa0 \<and> \<not> 0xbf < c \<and> c AND NOT 0x1f = 0xa0 \<and> header_rest c = 0
        \<and> c \<noteq> 0xd9 \<and> c \<noteq> 0xda \<and> c \<noteq> 0xdb \<or> c = 0xd9 \<or> c = 0xda \<or> c = 0xdb"
    by (auto simp: typeof_ranges fix_masks [simplified] header_rest_def not_less)
  then show "mp_check_strl (c # d) = Inr (header_rest c - int (length d))"
    "decodes mp_decode_strl (c # d) \<longleftrightarrow> header_rest c \<le> int (length d)"
    using c by (auto simp: mp_check_strl_def decodes_iff mp_decode_defs outcome_simps decodes_load header_rest_def)
qed

interpretation uint_check: header_check mp_check_uint "decodes mp_decode_uint" MP_UINT mp_parser_hint
proof
  fix c :: u8 and d assume c: "mp_typeof c = MP_UINT"
  then have "\<not> 0x7f < c \<and> mp_parser_hint c = 0 \<and> c \<noteq> 0xcc \<and> c \<noteq> 0xcd \<and> c \<noteq> 0xce \<and> c \<noteq> 0xcf
      \<or> c = 0xcc \<or> c = 0xcd \<or> c = 0xce \<or> c = 0xcf"
    by (auto simp: typeof_ranges not_less codec_simps)
  then show "mp_check_uint (c # d) = Inr (mp_parser_hint c - int (length d))"
    "decodes mp_decode_uint (c # d) \<longleftrightarrow> mp_parser_hint c \<le> int (length d)"
    using c by (auto simp: mp_check_uint_def decodes_iff mp_decode_uint_def outcome_simps decodes_load scalar_hints)
qed

interpretation int_check: header_check mp_check_int "decodes mp_decode_int" MP_INT mp_parser_hint
proof
  fix c :: u8 and d assume c: "mp_typeof c = MP_INT"
  then have "\<not> c < 0xe0 \<and> mp_parser_hint c = 0 \<and> c \<noteq> 0xd0 \<and> c \<noteq> 0xd1 \<and> c \<noteq> 0xd2 \<and> c \<noteq> 0xd3
      \<or> c = 0xd0 \<or> c = 0xd1 \<or> c = 0xd2 \<or> c = 0xd3"
    by (auto simp: typeof_ranges not_less codec_simps)
  then show "mp_check_int (c # d) = Inr (mp_parser_hint c - int (length d))"
    "decodes mp_decode_int (c # d) \<longleftrightarrow> mp_parser_hint c \<le> int (length d)"
    using c by (auto simp: mp_check_int_def decodes_iff mp_decode_int_def outcome_simps decodes_load scalar_hints)
qed

interpretation float_check: header_check mp_check_float "decodes mp_decode_float" MP_FLOAT "\<lambda>_. 4"
  by unfold_locales (auto simp: typeof_ranges mp_check_float_def decodes_iff mp_decode_float_def outcome_simps decodes_load)

interpretation double_check: header_check mp_check_double "decodes mp_decode_double" MP_DOUBLE "\<lambda>_. 8"
  by unfold_locales (auto simp: typeof_ranges mp_check_double_def decodes_iff mp_decode_double_def outcome_simps decodes_load)

interpretation nil_check: header_check mp_check_nil "decodes mp_decode_nil" MP_NIL "\<lambda>_. 0"
  by unfold_locales (auto simp: typeof_ranges mp_check_nil_def decodes_def mp_decode_nil_def)

interpretation bool_check: header_check mp_check_bool "decodes mp_decode_bool" MP_BOOL "\<lambda>_. 0"
  by unfold_locales (auto simp: typeof_ranges mp_check_bool_def decodes_def mp_decode_bool_def)

text \<open>
  C21: the header checks are exact: for a first byte of the type in question the check returns,
  its result is at most zero exactly when the decoder of that type stays inside the buffer, and
  a positive result is the number of bytes that are still missing: appending them, and no
  fewer, makes the decoder return.
\<close>

theorem mp_check_header_exact:
  assumes "(chk, dec, ty) \<in> {(mp_check_array, decodes mp_decode_array, MP_ARRAY),
      (mp_check_map, decodes mp_decode_map, MP_MAP), (mp_check_uint, decodes mp_decode_uint, MP_UINT),
      (mp_check_int, decodes mp_decode_int, MP_INT), (mp_check_strl, decodes mp_decode_strl, MP_STR),
      (mp_check_float, decodes mp_decode_float, MP_FLOAT),
      (mp_check_double, decodes mp_decode_double, MP_DOUBLE),
      (mp_check_nil, decodes mp_decode_nil, MP_NIL), (mp_check_bool, decodes mp_decode_bool, MP_BOOL)}"
    and "mp_typeof c = ty"
  shows "\<exists>r. chk (c # d) = Inr r \<and> (r \<le> 0 \<longleftrightarrow> dec (c # d))
    \<and> (0 < r \<longrightarrow> (\<forall>e. dec (c # d @ e) \<longleftrightarrow> r \<le> int (length e)))"
proof -
  obtain need where contract: "header_check chk dec ty need"
    using assms(1) array_check.header_check_axioms map_check.header_check_axioms
      uint_check.header_check_axioms int_check.header_check_axioms strl_check.header_check_axioms
      float_check.header_check_axioms double_check.header_check_axioms
      nil_check.header_check_axioms bool_check.header_check_axioms by blast
  from header_check.sound [OF this assms(2)] obtain r
    where "chk (c # d) = Inr r \<and> (r \<le> 0 \<longleftrightarrow> dec (c # d))" by blast
  with header_check.lacking [OF contract assms(2)] show ?thesis by blast
qed

theorem mp_check_header_exact_witness:
  "\<exists>r. mp_check_uint [0xcd, 1] = Inr r \<and> \<not> r \<le> 0
    \<and> (\<forall>e. decodes mp_decode_uint ([0xcd, 1] @ e) \<longleftrightarrow> r \<le> int (length e))"
proof -
  have "mp_typeof 0xcd = MP_UINT" by (simp add: typeof_ranges)
  then obtain r where r: "mp_check_uint (0xcd # [1]) = Inr r"
    "0 < r \<longrightarrow> (\<forall>e. decodes mp_decode_uint (0xcd # [1] @ e) \<longleftrightarrow> r \<le> int (length e))"
    using mp_check_header_exact [where chk = mp_check_uint and dec = "decodes mp_decode_uint" and ty = MP_UINT
      and c = "0xcd" and d = "[1]"] by blast
  moreover have "mp_check_uint (0xcd # [1]) = Inr 1" by (simp add: mp_check_uint_def typeof_ranges codec_simps)
  ultimately show ?thesis by simp
qed

text \<open>
  \<open>mp_check_binl\<close> is not exact: for a buffer that ends after the first byte of a byte
  string, where the other checks report the missing bytes, its assertion fails.
\<close>

theorem mp_check_binl_needs_two_bytes:
  "mp_check_binl [0xc4] = Inl Mp_AssertFailed \<and> mp_check_strl [0xd9] = Inr 1
    \<and> mp_check_binl (0xc4 # n # s) = Inr (- int (length s))"
  by (simp add: mp_check_binl_def mp_check_strl_def typeof_ranges)

end
