(* ===== verification/Xxhash.thy ===== *)
theory Xxhash
  imports HT_Prelude
begin

text \<open>
  XXH64 (\<^verbatim>\<open>include/xxhash.h\<close>), the hash under which the argument layout of a kernel is stored
  and looked up: the one-shot function and the streaming interface, and their equivalence. The
  input pointer is the list of its bytes; alignment only selects the load instruction.
\<close>

section \<open>Rounds\<close>

definition XXH_PRIME64_1 :: u64 where "XXH_PRIME64_1 = 0x9E3779B185EBCA87"
definition XXH_PRIME64_2 :: u64 where "XXH_PRIME64_2 = 0xC2B2AE3D27D4EB4F"
definition XXH_PRIME64_3 :: u64 where "XXH_PRIME64_3 = 0x165667B19E3779F9"
definition XXH_PRIME64_4 :: u64 where "XXH_PRIME64_4 = 0x85EBCA77C2B2AE63"
definition XXH_PRIME64_5 :: u64 where "XXH_PRIME64_5 = 0x27D4EB2F165667C5"

definition XXH_rotl64 :: "u64 \<Rightarrow> nat \<Rightarrow> u64" where
  "XXH_rotl64 x r = (push_bit r x) OR (drop_bit (64 - r) x)"

definition XXH_readLE64 :: "bytes \<Rightarrow> u64" where
  "XXH_readLE64 p = le_word (take 8 p)"

definition XXH_readLE32 :: "bytes \<Rightarrow> u32" where
  "XXH_readLE32 p = le_word (take 4 p)"

definition XXH64_round :: "u64 \<Rightarrow> u64 \<Rightarrow> u64" where
  "XXH64_round acc input =
     (let acc = acc + input * XXH_PRIME64_2;
          acc = XXH_rotl64 acc 31
      in acc * XXH_PRIME64_1)"

definition XXH64_mergeRound :: "u64 \<Rightarrow> u64 \<Rightarrow> u64" where
  "XXH64_mergeRound acc val =
     (let val = XXH64_round 0 val;
          acc = acc XOR val
      in acc * XXH_PRIME64_1 + XXH_PRIME64_4)"

definition XXH64_avalanche :: "u64 \<Rightarrow> u64" where
  "XXH64_avalanche hash =
     (let hash = hash XOR drop_bit 33 hash;
          hash = hash * XXH_PRIME64_2;
          hash = hash XOR drop_bit 29 hash;
          hash = hash * XXH_PRIME64_3
      in hash XOR drop_bit 32 hash)"

section \<open>The last bytes\<close>

function XXH64_finalize_words :: "u64 \<Rightarrow> bytes \<Rightarrow> u64 \<times> bytes" where
  "XXH64_finalize_words hash ptr =
     (if length ptr \<ge> 8 then
        let k1 = XXH64_round 0 (XXH_readLE64 ptr);
            hash = hash XOR k1;
            hash = XXH_rotl64 hash 27 * XXH_PRIME64_1 + XXH_PRIME64_4
        in XXH64_finalize_words hash (drop 8 ptr)
      else (hash, ptr))"
  by pat_completeness auto

termination by (relation "measure (length \<circ> snd)") auto

declare XXH64_finalize_words.simps [simp del]

fun XXH64_finalize_bytes :: "u64 \<Rightarrow> bytes \<Rightarrow> u64" where
  "XXH64_finalize_bytes hash [] = hash"
| "XXH64_finalize_bytes hash (b # ptr) =
     XXH64_finalize_bytes (XXH_rotl64 (hash XOR (ucast b * XXH_PRIME64_5)) 11 * XXH_PRIME64_1) ptr"

definition XXH64_finalize :: "u64 \<Rightarrow> bytes \<Rightarrow> u64 \<Rightarrow> u64" where
  "XXH64_finalize hash ptr len =
     (let (hash, ptr) = XXH64_finalize_words hash (take (unat (len AND 31)) ptr);
          (hash, ptr) =
            (if length ptr \<ge> 4 then
               (XXH_rotl64 (hash XOR (ucast (XXH_readLE32 ptr) * XXH_PRIME64_1)) 23 * XXH_PRIME64_2
                  + XXH_PRIME64_3, drop 4 ptr)
             else (hash, ptr))
      in XXH64_avalanche (XXH64_finalize_bytes hash ptr))"

section \<open>One shot\<close>

type_synonym lanes = "u64 \<times> u64 \<times> u64 \<times> u64"

definition XXH64_stripe :: "lanes \<Rightarrow> bytes \<Rightarrow> lanes" where
  "XXH64_stripe = (\<lambda>(v1, v2, v3, v4) input.
     (XXH64_round v1 (XXH_readLE64 input), XXH64_round v2 (XXH_readLE64 (drop 8 input)),
      XXH64_round v3 (XXH_readLE64 (drop 16 input)), XXH64_round v4 (XXH_readLE64 (drop 24 input))))"

text \<open>The loop over full stripes of 32 bytes: the lanes and the bytes that are left.\<close>

function XXH64_stripes :: "lanes \<Rightarrow> bytes \<Rightarrow> lanes \<times> bytes" where
  "XXH64_stripes v input =
     (if length input \<ge> 32 then XXH64_stripes (XXH64_stripe v input) (drop 32 input)
      else (v, input))"
  by pat_completeness auto

termination by (relation "measure (length \<circ> snd)") auto

declare XXH64_stripes.simps [simp del]

definition XXH64_init_lanes :: "u64 \<Rightarrow> lanes" where
  "XXH64_init_lanes seed =
     (seed + XXH_PRIME64_1 + XXH_PRIME64_2, seed + XXH_PRIME64_2, seed + 0, seed - XXH_PRIME64_1)"

definition XXH64_converge :: "lanes \<Rightarrow> u64" where
  "XXH64_converge = (\<lambda>(v1, v2, v3, v4).
     let h64 = XXH_rotl64 v1 1 + XXH_rotl64 v2 7 + XXH_rotl64 v3 12 + XXH_rotl64 v4 18;
         h64 = XXH64_mergeRound h64 v1;
         h64 = XXH64_mergeRound h64 v2;
         h64 = XXH64_mergeRound h64 v3
     in XXH64_mergeRound h64 v4)"

definition XXH64_endian_align :: "bytes \<Rightarrow> u64 \<Rightarrow> u64 \<Rightarrow> u64" where
  "XXH64_endian_align input len seed =
     (let (h64, input) =
            (if len \<ge> 32 then
               (let (v, rest) = XXH64_stripes (XXH64_init_lanes seed) input in (XXH64_converge v, rest))
             else (seed + XXH_PRIME64_5, input))
      in XXH64_finalize (h64 + len) input len)"

definition XXH64 :: "bytes \<Rightarrow> u64 \<Rightarrow> u64" where
  "XXH64 input seed = XXH64_endian_align input (word_of_nat (length input)) seed"

section \<open>Streaming\<close>

record XXH64_state =
  xs_total_len :: u64
  xs_v :: lanes
  xs_mem64 :: bytes
  xs_memsize :: nat

definition XXH64_reset :: "u64 \<Rightarrow> XXH64_state" where
  "XXH64_reset seed = \<lparr>xs_total_len = 0, xs_v = XXH64_init_lanes seed, xs_mem64 = replicate 32 0, xs_memsize = 0\<rparr>"

text \<open>\<^verbatim>\<open>memcpy\<close> into a buffer at an offset.\<close>

definition overwrite :: "bytes \<Rightarrow> nat \<Rightarrow> bytes \<Rightarrow> bytes" where
  "overwrite dst off src = take off dst @ src @ drop (off + length src) dst"

definition XXH64_update :: "XXH64_state \<Rightarrow> bytes \<Rightarrow> XXH64_state" where
  "XXH64_update state input =
     (let state = state\<lparr>xs_total_len := xs_total_len state + word_of_nat (length input)\<rparr>
      in if xs_memsize state + length input < 32 then
           state\<lparr>xs_mem64 := overwrite (xs_mem64 state) (xs_memsize state) input,
                 xs_memsize := xs_memsize state + length input\<rparr>
         else
           let (state, p) =
                 (if xs_memsize state \<noteq> 0 then
                    let m = overwrite (xs_mem64 state) (xs_memsize state) (take (32 - xs_memsize state) input)
                    in (state\<lparr>xs_mem64 := m, xs_v := XXH64_stripe (xs_v state) m, xs_memsize := 0\<rparr>,
                        drop (32 - xs_memsize state) input)
                  else (state, input));
               (v, p) = XXH64_stripes (xs_v state) p;
               state = state\<lparr>xs_v := v\<rparr>
           in if length p > 0 then
                state\<lparr>xs_mem64 := overwrite (xs_mem64 state) 0 p, xs_memsize := length p\<rparr>
              else state)"

definition XXH64_digest :: "XXH64_state \<Rightarrow> u64" where
  "XXH64_digest state =
     (let h64 = (if xs_total_len state \<ge> 32 then XXH64_converge (xs_v state)
                 else fst (snd (snd (xs_v state))) + XXH_PRIME64_5)
      in XXH64_finalize (h64 + xs_total_len state) (xs_mem64 state) (xs_total_len state))"

section \<open>Streaming computes the one-shot hash\<close>

lemma window_take: "k + 8 \<le> n \<Longrightarrow> take 8 (drop k (take n xs)) = take 8 (drop k xs)"
  by (simp add: drop_take min_def)

lemma XXH64_stripe_take: "32 \<le> n \<Longrightarrow> XXH64_stripe v (take n input) = XXH64_stripe v input"
  using window_take [of 0 n input] window_take [of 8 n input] window_take [of 16 n input]
    window_take [of 24 n input]
  by (cases v) (simp add: XXH64_stripe_def XXH_readLE64_def)

lemma XXH64_stripe_append: "length a = 32 \<Longrightarrow> XXH64_stripe v (a @ b) = XXH64_stripe v a"
  using XXH64_stripe_take [of 32 v "a @ b"] by simp

lemma XXH64_stripes_append:
  "length a mod 32 = 0 \<Longrightarrow> XXH64_stripes v (a @ b) = XXH64_stripes (fst (XXH64_stripes v a)) b"
proof (induction v a rule: XXH64_stripes.induct)
  case (1 v a)
  show ?case
  proof (cases "length a \<ge> 32")
    case False
    with 1 have "a = []" by (simp add: mod_if split: if_splits)
    then show ?thesis by (simp add: XXH64_stripes.simps [of v "[]"])
  next
    case True
    then have "length (drop 32 a) mod 32 = 0" using 1(2) by (simp add: le_mod_geq)
    moreover have "XXH64_stripe v (a @ b) = XXH64_stripe v a"
      using True XXH64_stripe_append [of "take 32 a" v "drop 32 a @ b"] XXH64_stripe_take [of 32 v a]
      by (simp add: append_assoc [symmetric] del: append_assoc)
    ultimately show ?thesis using True 1(1)
      by (simp add: XXH64_stripes.simps [of v "a @ b"] XXH64_stripes.simps [of v a])
  qed
qed

lemma XXH64_stripes_rest:
  "snd (XXH64_stripes v a) = drop (32 * (length a div 32)) a"
proof (induction v a rule: XXH64_stripes.induct)
  case (1 v a)
  show ?case
  proof (cases "length a \<ge> 32")
    case True
    then have "32 * (length a div 32) = 32 * ((length a - 32) div 32) + 32"
      by (simp add: le_div_geq)
    with True 1 show ?thesis by (subst XXH64_stripes.simps) simp
  qed (subst XXH64_stripes.simps, simp)
qed

text \<open>The state after hashing \<open>xs\<close>: lanes over the full stripes, the rest in the buffer.\<close>

definition represents :: "u64 \<Rightarrow> XXH64_state \<Rightarrow> bytes \<Rightarrow> bool" where
  "represents seed st xs \<longleftrightarrow> xs_total_len st = word_of_nat (length xs)
     \<and> xs_v st = fst (XXH64_stripes (XXH64_init_lanes seed) xs)
     \<and> length (xs_mem64 st) = 32 \<and> xs_memsize st = length xs mod 32
     \<and> take (xs_memsize st) (xs_mem64 st) = snd (XXH64_stripes (XXH64_init_lanes seed) xs)"

lemma represents_reset: "represents seed (XXH64_reset seed) []"
  by (simp add: represents_def XXH64_reset_def XXH64_stripes.simps)

lemma length_overwrite: "off + length src \<le> length dst \<Longrightarrow> length (overwrite dst off src) = length dst"
  by (simp add: overwrite_def)

lemma take_overwrite: "off \<le> length dst \<Longrightarrow> take (off + length src) (overwrite dst off src) = take off dst @ src"
  by (simp add: overwrite_def min_def)

lemma XXH64_stripes_split:
  assumes "length r = length xs mod 32" "r = snd (XXH64_stripes v xs)"
  shows "XXH64_stripes v (xs @ ys) = XXH64_stripes (fst (XXH64_stripes v xs)) (r @ ys)"
proof -
  let ?n = "32 * (length xs div 32)"
  have r: "r = drop ?n xs" using assms(2) by (simp add: XXH64_stripes_rest)
  have "?n \<le> length xs" by simp
  then have len: "length (take ?n xs) = ?n" "length (take ?n xs) mod 32 = 0" by (simp_all add: min_absorb2)
  have "XXH64_stripes v (take ?n xs @ drop ?n xs @ ys)
      = XXH64_stripes (fst (XXH64_stripes v (take ?n xs))) (drop ?n xs @ ys)"
    by (rule XXH64_stripes_append [OF len(2)])
  moreover have "XXH64_stripes v (take ?n xs @ drop ?n xs)
      = XXH64_stripes (fst (XXH64_stripes v (take ?n xs))) (drop ?n xs)"
    by (rule XXH64_stripes_append [OF len(2)])
  moreover have short: "\<not> 32 \<le> length xs mod 32" by (simp add: not_le)
  have "XXH64_stripes w (drop ?n xs) = (w, drop ?n xs)" for w
    by (subst XXH64_stripes.simps) (simp add: minus_mult_div_eq_mod short)
  ultimately show ?thesis unfolding r by (simp add: append_assoc [symmetric] del: append_assoc)
qed

lemma represents_update:
  assumes "represents seed st xs"
  shows "represents seed (XXH64_update st ys) (xs @ ys)"
proof -
  let ?v = "XXH64_init_lanes seed"
  define r where "r = snd (XXH64_stripes ?v xs)"
  define v where "v = fst (XXH64_stripes ?v xs)"
  have mem: "length (xs_mem64 st) = 32" "xs_memsize st = length r" "take (length r) (xs_mem64 st) = r"
    and r: "length r = length xs mod 32" and sv: "xs_v st = v"
    and tot: "xs_total_len st = word_of_nat (length xs)"
    using assms by (auto simp: represents_def r_def v_def XXH64_stripes_rest minus_mult_div_eq_mod)
  have r32: "length r < 32" by (simp add: r)
  have all: "XXH64_stripes ?v (xs @ ys) = XXH64_stripes v (r @ ys)"
    using XXH64_stripes_split [OF r r_def] by (simp add: v_def)
  have lenmod: "length (xs @ ys) mod 32 = (length r + length ys) mod 32"
    by (simp add: r mod_simps)
  show ?thesis
  proof (cases "length r + length ys < 32")
    case True
    then have "XXH64_stripes v (r @ ys) = (v, r @ ys)" by (subst XXH64_stripes.simps) simp
    with True show ?thesis unfolding represents_def all lenmod
      using mem sv tot take_overwrite [of "length r" "xs_mem64 st" ys] r32
      by (simp add: XXH64_update_def Let_def length_overwrite)
  next
    case False
    define k where "k = (if length r \<noteq> 0 then 32 - length r else 0)"
    define m where "m = overwrite (xs_mem64 st) (length r) (take (32 - length r) ys)"
    define v' where "v' = (if length r \<noteq> 0 then XXH64_stripe v m else v)"
    have m: "length m = 32" "length r \<noteq> 0 \<Longrightarrow> m = r @ take (32 - length r) ys"
      using False r32 mem by (simp_all add: m_def overwrite_def min_absorb2)
    have step: "XXH64_stripes v (r @ ys) = XXH64_stripes v' (drop k ys)"
    proof (cases "length r = 0")
      case True
      then show ?thesis by (simp add: v'_def k_def)
    next
      case nz: False
      have "r @ ys = m @ drop (32 - length r) ys" using m(2) [OF nz] by simp
      then show ?thesis using nz m(1)
        by (subst XXH64_stripes.simps) (simp add: v'_def k_def XXH64_stripe_append)
    qed
    define w where "w = fst (XXH64_stripes v' (drop k ys))"
    define p where "p = snd (XXH64_stripes v' (drop k ys))"
    have "length p = length (drop k ys) mod 32"
      unfolding p_def XXH64_stripes_rest length_drop by (rule minus_mult_div_eq_mod)
    also have "\<dots> = (length r + length ys) mod 32"
    proof (cases "length r = 0")
      case False
      have "length (drop k ys) = length r + length ys - 32" using False r32 by (simp add: k_def)
      then show ?thesis using \<open>\<not> length r + length ys < 32\<close> by (simp add: le_mod_geq)
    qed (simp add: k_def)
    finally have p: "length p = (length r + length ys) mod 32" .
    have pair: "XXH64_stripes v' (drop k ys) = (w, p)" by (simp add: w_def p_def)
    have upd: "XXH64_update st ys = st\<lparr>xs_total_len := xs_total_len st + word_of_nat (length ys), xs_v := w,
        xs_mem64 := (let b = if length r \<noteq> 0 then m else xs_mem64 st in if length p > 0 then overwrite b 0 p else b),
        xs_memsize := length p\<rparr>"
    proof (cases "length r = 0")
      case True
      then show ?thesis using False mem pair
        by (simp add: XXH64_update_def Let_def sv v'_def k_def)
    next
      case nz: False
      then show ?thesis using False mem pair
        by (simp add: XXH64_update_def Let_def sv v'_def k_def m_def [symmetric])
    qed
    have len: "length (overwrite b 0 p) = 32" "take (length p) (overwrite b 0 p) = p" if "length b = 32" for b
      using that p take_overwrite [of 0 b p] by (simp_all add: length_overwrite)
    show ?thesis
      unfolding represents_def all lenmod upd p [symmetric]
      using mem(1) m(1) len [OF mem(1)] len [OF m(1)]
      by (simp add: Let_def tot step pair)
  qed
qed

lemma represents_fold:
  "represents seed (fold (\<lambda>ys st. XXH64_update st ys) chunks st) (xs @ concat chunks)"
  if "represents seed st xs"
  using that
proof (induction chunks arbitrary: st xs)
  case (Cons c chunks)
  from Cons.IH [OF represents_update [OF Cons.prems, of c]] show ?case by simp
qed simp

lemma XXH64_init_lanes_seed: "fst (snd (snd (XXH64_init_lanes seed))) = seed"
  by (simp add: XXH64_init_lanes_def)

lemma len_mod32:
  assumes "length xs < 2 ^ 64"
  shows "unat ((word_of_nat (length xs) :: u64) AND 31) = length xs mod 32"
proof -
  have "(word_of_nat (length xs) :: u64) AND 31 = take_bit 5 (word_of_nat (length xs))"
    by (simp add: take_bit_eq_mask mask_eq_exp_minus_1)
  then show ?thesis using assms
    by (simp add: unat_mod unsigned_of_nat take_bit_nat_eq_self take_bit_eq_mod)
qed

lemma finalize_rest:
  assumes "length xs < 2 ^ 64" "length r = length xs mod 32" "take (length r) m = r"
  shows "XXH64_finalize h m (word_of_nat (length xs)) = XXH64_finalize h r (word_of_nat (length xs))"
  using assms by (simp add: XXH64_finalize_def len_mod32)

lemma digest_represents:
  assumes "represents seed st xs" "length xs < 2 ^ 64"
  shows "XXH64_digest st = XXH64 xs seed"
proof -
  let ?v = "XXH64_init_lanes seed" and ?len = "word_of_nat (length xs) :: u64"
  obtain v r where vr: "XXH64_stripes ?v xs = (v, r)" by (cases "XXH64_stripes ?v xs")
  have r: "length r = length xs mod 32"
    using XXH64_stripes_rest [of ?v xs] vr by (simp add: minus_mult_div_eq_mod)
  have st: "xs_total_len st = ?len" "xs_v st = v" "take (length r) (xs_mem64 st) = r"
    using assms(1) vr r by (auto simp: represents_def)
  have len: "32 \<le> ?len \<longleftrightarrow> 32 \<le> length xs"
    using assms(2) by (simp add: word_le_nat_alt unsigned_of_nat take_bit_nat_eq_self)
  note rest = finalize_rest [OF assms(2) r st(3)]
  show ?thesis
  proof (cases "32 \<le> length xs")
    case True
    then show ?thesis
      by (simp add: XXH64_digest_def XXH64_def XXH64_endian_align_def st len vr rest)
  next
    case False
    then have "v = ?v" "r = xs" using vr by (simp_all add: XXH64_stripes.simps [of ?v xs])
    with False show ?thesis
      by (simp add: XXH64_digest_def XXH64_def XXH64_endian_align_def st len rest XXH64_init_lanes_seed)
  qed
qed

text \<open>
  C22: the streaming interface computes the one-shot hash: however a key is cut into chunks,
  resetting with a seed, updating with the chunks in order and digesting yields \<open>XXH64\<close> of the
  whole key under this seed.
\<close>

theorem XXH64_streaming:
  assumes "length (concat chunks) < 2 ^ 64"
  shows "XXH64_digest (fold (\<lambda>ys st. XXH64_update st ys) chunks (XXH64_reset seed)) = XXH64 (concat chunks) seed"
  using represents_fold [OF represents_reset, of seed chunks] assms by (simp add: digest_represents)

theorem XXH64_streaming_witness:
  "XXH64_digest (fold (\<lambda>ys st. XXH64_update st ys) [[97], [98, 99]] (XXH64_reset 0)) = XXH64 [97, 98, 99] 0"
  using XXH64_streaming [of "[[97], [98, 99]]" 0] by simp

section \<open>The final mix loses nothing\<close>

lemma xorshift_inject:
  fixes x y :: u64
  assumes "0 < k" "x XOR drop_bit k x = y XOR drop_bit k y"
  shows "x = y"
proof (rule bit_word_eqI)
  fix n assume "n < LENGTH(64)"
  then show "bit x n = bit y n"
  proof (induction "64 - n" arbitrary: n rule: less_induct)
    case less
    have eq: "(bit x n \<noteq> bit x (n + k)) = (bit y n \<noteq> bit y (n + k))"
      using arg_cong [OF assms(2), of "\<lambda>w. bit w n"] less.prems by (simp add: bit_simps ac_simps)
    have "bit x (n + k) = bit y (n + k)"
    proof (cases "n + k < 64")
      case True
      then show ?thesis using less.hyps [of "n + k"] assms(1) less.prems by simp
    next
      case False
      then show ?thesis using bit_imp_le_length [of x "n + k"] bit_imp_le_length [of y "n + k"] by auto
    qed
    with eq show ?case by auto
  qed
qed

lemma prime_inverse:
  "XXH_PRIME64_2 * 0x0ba79078168d4baf = 1" "XXH_PRIME64_3 * 0xe9e9f4c41d6df849 = 1"
  by (simp_all add: XXH_PRIME64_2_def XXH_PRIME64_3_def)

lemma times_inject:
  fixes p q x y :: u64
  assumes "p * q = 1" "x * p = y * p"
  shows "x = y"
proof -
  have "x * p * q = y * p * q" using assms(2) by simp
  then show ?thesis unfolding mult.assoc assms(1) by simp
qed

text \<open>
  The final mix of XXH64 is injective: two different accumulators never give the same hash,
  so that a collision of two keys is already a collision of the accumulators.
\<close>

theorem XXH64_avalanche_inject: "XXH64_avalanche x = XXH64_avalanche y \<longleftrightarrow> x = y"
proof
  assume "XXH64_avalanche x = XXH64_avalanche y"
  note 1 = xorshift_inject [OF _ this [unfolded XXH64_avalanche_def Let_def]]
  note 2 = xorshift_inject [OF _ times_inject [OF prime_inverse(2) 1]]
  show "x = y"
    by (rule xorshift_inject [OF _ times_inject [OF prime_inverse(1) 2]]) simp_all
qed simp

end
