(* ===== verification/Arg_Info.thy ===== *)
theory Arg_Info
  imports Msgpack_Skip Xxhash Trace_Types
begin

text \<open>
  The argument layout of the kernels of a code object (\<^verbatim>\<open>include/elf.h\<close>): the notes of a note
  section (\<^verbatim>\<open>include/elfio/elfio_note.hpp\<close>), the MessagePack metadata in them, and the two
  tables made of it: \<open>getArgInfo\<close> fills the hash table that capture uses to copy the arguments of
  a launch, \<open>oldGetArgInfo\<close> the map from kernel names to argument lists that replay uses to
  translate pointers. A loaded ELF file is the list of its sections, type and contents.
\<close>

datatype elf_error =
    Note_read_failed        \<comment> \<open>\<^verbatim>\<open>get_note\<close> returns false and leaves \<^verbatim>\<open>desc\<close> uninitialised\<close>
  | Note_null_desc          \<comment> \<open>an empty descriptor is a null pointer\<close>
  | Metadata mp_error       \<comment> \<open>a decoder leaves the section, asserts or is unreachable\<close>

record section_data =
  sec_type :: u32
  sec_data :: bytes

definition SHT_NOTE :: u32 where "SHT_NOTE = 7"

section \<open>Notes\<close>

definition word_at :: "bytes \<Rightarrow> nat \<Rightarrow> u32" where
  "word_at data pos = le_word (take 4 (drop pos data))"

text \<open>Rounding up to words is computed in 32 bits, the product in 64.\<close>

definition padded :: "u32 \<Rightarrow> nat" where
  "padded n = unat ((n + 4 - 1) div 4) * 4"

function process_section :: "bytes \<Rightarrow> nat \<Rightarrow> nat list" where
  "process_section data current =
     (if current + 3 * 4 \<le> length data then
        let namesz = word_at data current; descsz = word_at data (current + 4)
        in current # process_section data (current + (3 * 4 + padded namesz + padded descsz))
      else [])"
  by pat_completeness auto

termination by (relation "measure (\<lambda>(data, current). Suc (length data) - current)") auto

declare process_section.simps [simp del]

text \<open>\<open>get_note\<close>: the type, the name and the bytes from the descriptor to the section's end.\<close>

definition get_note :: "bytes \<Rightarrow> nat \<Rightarrow> elf_error + u32 \<times> string \<times> bytes" where
  "get_note data start =
     (let type = word_at data (start + 8);
          namesz = word_at data start;
          descSize = word_at data (start + 4);
          max_name_size = length data - start
      in if namesz < 1 \<or> unat namesz > max_name_size \<or> unat namesz + unat descSize > max_name_size then
           Inl Note_read_failed
         else
           let name = map (\<lambda>b. char_of (unat b)) (take (unat namesz - 1) (drop (start + 12) data))
           in if descSize = 0 then Inl Note_null_desc
              else Inr (type, name, drop (start + 12 + padded namesz) data))"

section \<open>One argument\<close>

record ArgInfo =
  info_index :: u32
  address_space :: string
  info_size :: u64
  info_offset :: u64
  value_kind :: string
  access :: string

definition string_of :: "bytes \<Rightarrow> string" where
  "string_of b = map (\<lambda>c. char_of (unat c)) b"

definition bytes_of :: "string \<Rightarrow> bytes" where
  "bytes_of s = map (\<lambda>c. word_of_nat (of_char c)) s"

text \<open>One key and value of the map that describes an argument.\<close>

definition arg_field :: "ArgInfo \<times> bytes \<Rightarrow> mp_error + ArgInfo \<times> bytes" where
  "arg_field = (\<lambda>(info, r). rbind (mp_decode_str r) (\<lambda>(arg_key, r).
     if string_of arg_key = ''.address_space'' then
       rbind (mp_decode_str r) (\<lambda>(s, r). Inr (info\<lparr>address_space := string_of s\<rparr>, r))
     else if string_of arg_key = ''.size'' then
       rbind (mp_decode_uint r) (\<lambda>(n, r). Inr (info\<lparr>info_size := n\<rparr>, r))
     else if string_of arg_key = ''.offset'' then
       rbind (mp_decode_uint r) (\<lambda>(n, r). Inr (info\<lparr>info_offset := n\<rparr>, r))
     else if string_of arg_key = ''.value_kind'' then
       rbind (mp_decode_str r) (\<lambda>(s, r).
         Inr (if length s > 0 then info\<lparr>value_kind := string_of s\<rparr> else info, r))
     else if string_of arg_key = ''.access'' then
       rbind (mp_decode_str r) (\<lambda>(s, r).
         Inr (if length s > 0 then info\<lparr>access := string_of s\<rparr> else info, r))
     else rbind (mp_next r) (\<lambda>r. Inr (info, r))))"

text \<open>
  The strings of a fresh \<open>ArgInfo\<close> are empty; its numbers are not initialised and start from
  whatever \<open>fresh\<close> holds.
\<close>

definition init_info :: "ArgInfo \<Rightarrow> ArgInfo" where
  "init_info fresh = fresh\<lparr>address_space := [], value_kind := [], access := []\<rparr>"

definition getArgInfo_arg :: "ArgInfo \<Rightarrow> ArgInfo list \<times> bytes \<Rightarrow> mp_error + ArgInfo list \<times> bytes" where
  "getArgInfo_arg fresh = (\<lambda>(arg_infos, r). rbind (mp_decode_map r) (\<lambda>(arg_map_size, r).
     rbind (for_loop 0 (unat arg_map_size)
              (\<lambda>i (info, r). arg_field (info\<lparr>info_index := word_of_nat i\<rparr>, r)) (init_info fresh, r))
       (\<lambda>(info, r). Inr (arg_infos @ [info], r))))"

definition oldGetArgInfo_arg :: "ArgInfo \<Rightarrow> ArgInfo list \<times> bytes \<Rightarrow> mp_error + ArgInfo list \<times> bytes" where
  "oldGetArgInfo_arg fresh = (\<lambda>(arg_infos, r). rbind (mp_decode_map r) (\<lambda>(arg_map_size, r).
     rbind (for_loop 0 (unat arg_map_size) (\<lambda>i s. arg_field s) (init_info fresh, r))
       (\<lambda>(info, r). Inr (arg_infos @ [info], r))))"

section \<open>One kernel\<close>

text \<open>The kernel's name and arguments so far; \<open>arg\<close> reads one argument.\<close>

definition kernel_field ::
  "(ArgInfo list \<times> bytes \<Rightarrow> mp_error + ArgInfo list \<times> bytes)
    \<Rightarrow> string \<times> ArgInfo list \<times> bytes \<Rightarrow> mp_error + string \<times> ArgInfo list \<times> bytes" where
  "kernel_field arg = (\<lambda>(kernel_name, arg_infos, r). rbind (mp_decode_str r) (\<lambda>(kern_key, r).
     if string_of kern_key = ''.args'' then
       rbind (mp_decode_array r) (\<lambda>(num_args, r).
       rbind (for_loop 0 (unat num_args) (\<lambda>i s. arg s) (arg_infos, r)) (\<lambda>(arg_infos, r).
         Inr (kernel_name, arg_infos, r)))
     else if string_of kern_key = ''.name'' then
       rbind (mp_decode_str r) (\<lambda>(s, r). Inr (string_of s, arg_infos, r))
     else rbind (mp_next r) (\<lambda>r. Inr (kernel_name, arg_infos, r))))"

text \<open>\<^verbatim>\<open>std::string::find(pat) != npos\<close>.\<close>

definition contains :: "string \<Rightarrow> string \<Rightarrow> bool" where
  "contains s pat \<longleftrightarrow> list_ex (prefix pat) (suffixes s)"

record SizeOffset =
  so_size :: u64
  so_offset :: u64

type_synonym argument_sizes = "u64 \<Rightarrow> SizeOffset option"
type_synonym names_to_info = "string \<Rightarrow> ArgInfo list option"

text \<open>The hash keys of an argument and of a kernel.\<close>

definition arg_key :: "string \<Rightarrow> nat \<Rightarrow> string" where
  "arg_key kernel_name i = kernel_name @ to_string i"

definition key_hash :: "string \<Rightarrow> u64" where
  "key_hash key = XXH64 (bytes_of key) 0"

definition size_offset_of :: "ArgInfo \<Rightarrow> SizeOffset" where
  "size_offset_of info =
     \<lparr>so_size = (if contains (value_kind info) ''hidden'' then 0 else info_size info),
      so_offset = info_offset info\<rparr>"

fun store_args :: "string \<Rightarrow> nat \<Rightarrow> ArgInfo list \<Rightarrow> argument_sizes \<Rightarrow> argument_sizes" where
  "store_args kernel_name i [] t = t"
| "store_args kernel_name i (info # infos) t =
     store_args kernel_name (Suc i) infos (t(key_hash (arg_key kernel_name i) \<mapsto> size_offset_of info))"

definition store_kernel :: "string \<Rightarrow> ArgInfo list \<Rightarrow> argument_sizes \<Rightarrow> argument_sizes" where
  "store_kernel kernel_name arg_infos t =
     (store_args kernel_name 0 arg_infos t)
       (key_hash kernel_name \<mapsto> \<lparr>so_size = word_of_nat (length arg_infos), so_offset = 0\<rparr>)"

text \<open>
  A kernel of the array; the name read last stays in force for a kernel without one.
\<close>

definition getArgInfo_kernel ::
  "ArgInfo \<Rightarrow> string \<times> argument_sizes \<times> bytes \<Rightarrow> mp_error + string \<times> argument_sizes \<times> bytes" where
  "getArgInfo_kernel fresh = (\<lambda>(kernel_name, t, r). rbind (mp_decode_map r) (\<lambda>(kern_map_size, r).
     rbind (for_loop 0 (unat kern_map_size) (\<lambda>i s. kernel_field (getArgInfo_arg fresh) s) (kernel_name, [], r))
       (\<lambda>(kernel_name, arg_infos, r). Inr (kernel_name, store_kernel kernel_name arg_infos t, r))))"

definition oldGetArgInfo_kernel ::
  "ArgInfo \<Rightarrow> string \<times> names_to_info \<times> bytes \<Rightarrow> mp_error + string \<times> names_to_info \<times> bytes" where
  "oldGetArgInfo_kernel fresh = (\<lambda>(kernel_name, t, r). rbind (mp_decode_map r) (\<lambda>(kern_map_size, r).
     rbind (for_loop 0 (unat kern_map_size) (\<lambda>i s. kernel_field (oldGetArgInfo_arg fresh) s) (kernel_name, [], r))
       (\<lambda>(kernel_name, arg_infos, r). Inr (kernel_name, t(kernel_name \<mapsto> arg_infos), r))))"

section \<open>The whole file\<close>

text \<open>
  The metadata map of a note, the notes of a section and the sections of a file; \<open>kern\<close>
  reads one kernel into the table.
\<close>

definition metadata_entry ::
  "(string \<times> 't \<times> bytes \<Rightarrow> mp_error + string \<times> 't \<times> bytes) \<Rightarrow> 't \<times> bytes \<Rightarrow> mp_error + 't \<times> bytes" where
  "metadata_entry kern = (\<lambda>(t, r). rbind (mp_decode_str r) (\<lambda>(key, r).
     if string_of key = ''amdhsa.kernels'' then
       rbind (mp_decode_array r) (\<lambda>(num_kernels, r).
       rbind (for_loop 0 (unat num_kernels) (\<lambda>i s. kern s) ([], t, r)) (\<lambda>(_, t, r). Inr (t, r)))
     else rbind (mp_next r) (\<lambda>r. Inr (t, r))))"

definition read_metadata ::
  "(string \<times> 't \<times> bytes \<Rightarrow> mp_error + string \<times> 't \<times> bytes) \<Rightarrow> bytes \<Rightarrow> 't \<Rightarrow> mp_error + 't" where
  "read_metadata kern r t = rbind (mp_decode_map r) (\<lambda>(map_size, r).
     rbind (for_loop 0 (unat map_size) (\<lambda>i s. metadata_entry kern s) (t, r)) (\<lambda>(t, r). Inr t))"

definition metadata_error :: "mp_error + 'a \<Rightarrow> elf_error + 'a" where
  "metadata_error m = (case m of Inl e \<Rightarrow> Inl (Metadata e) | Inr x \<Rightarrow> Inr x)"

fun read_notes ::
  "(string \<times> 't \<times> bytes \<Rightarrow> mp_error + string \<times> 't \<times> bytes) \<Rightarrow> bytes \<Rightarrow> nat list \<Rightarrow> 't \<Rightarrow> elf_error + 't" where
  "read_notes kern data [] t = Inr t"
| "read_notes kern data (pos # positions) t =
     rbind (get_note data pos) (\<lambda>(type, name, desc).
     rbind (metadata_error (read_metadata kern desc t)) (\<lambda>t. read_notes kern data positions t))"

fun read_sections ::
  "(string \<times> 't \<times> bytes \<Rightarrow> mp_error + string \<times> 't \<times> bytes) \<Rightarrow> section_data list \<Rightarrow> 't \<Rightarrow> elf_error + 't" where
  "read_sections kern [] t = Inr t"
| "read_sections kern (sec # secs) t =
     rbind (if sec_type sec = SHT_NOTE
            then read_notes kern (sec_data sec) (process_section (sec_data sec) 0) t else Inr t)
       (\<lambda>t. read_sections kern secs t)"

definition getArgInfo :: "ArgInfo \<Rightarrow> section_data list \<Rightarrow> argument_sizes \<Rightarrow> elf_error + argument_sizes" where
  "getArgInfo fresh secs t = read_sections (getArgInfo_kernel fresh) secs t"

definition oldGetArgInfo :: "ArgInfo \<Rightarrow> section_data list \<Rightarrow> names_to_info \<Rightarrow> elf_error + names_to_info" where
  "oldGetArgInfo fresh secs t = read_sections (oldGetArgInfo_kernel fresh) secs t"

end
