(* ===== verification/Instrument.thy ===== *)
theory Instrument
  imports Insn_Factory Arg_Info
begin

text \<open>
  Binary instrumentation of a code object (\<^verbatim>\<open>hip/hip-fatbin.cpp\<close>): more vector registers for every
  kernel descriptor, and a detour in the text section from one instruction to injected code behind
  the old end of the section. The Dyninst decoder, the ELF library and the HIP functions are
  parameters here, the ELF library is put in their place in \<open>Elf_Instrument\<close>; a section is its name,
  type, address and contents. Reads and
  writes outside a buffer and failed assertions are error values.
\<close>

datatype binint_error = Kd_out_of_range | Text_out_of_range | Bad_section | Assertion_failed
  | Never_returns

record elf_section = section_data +
  sec_name :: string
  sec_address :: u64

datatype hipt_app = HIPT_APP_INSTRCOUNT | HIPT_APP_MEMTRACE | HIPT_APP_COALESCE | HIPT_APP_BANKCONFLICT

text \<open>The application is fixed when the library is built; the code sets it as here.\<close>

definition HIPT_CURRENT_APP :: hipt_app where "HIPT_CURRENT_APP = HIPT_APP_INSTRCOUNT"

definition HIPT_INSTRUMENTED_INSTR :: nat where "HIPT_INSTRUMENTED_INSTR = 2"

section \<open>Instructions\<close>

record Instr =
  cdna :: string
  instr_size :: u64
  instr_offset :: u64
  instr_data :: bytes

definition isLoad :: "Instr \<Rightarrow> binint_error + bool" where
  "isLoad instr = (if cdna instr = [] then Inl Assertion_failed else Inr (contains (cdna instr) ''LOAD''))"

definition isStore :: "Instr \<Rightarrow> binint_error + bool" where
  "isStore instr = (if cdna instr = [] then Inl Assertion_failed else Inr (contains (cdna instr) ''STORE''))"

text \<open>
  The decoder yields the valid instructions from the start of the text, each with its bytes and
  the function that prints it at an offset.
\<close>

fun collect_instructions :: "(bytes \<times> (u64 \<Rightarrow> string)) list \<Rightarrow> u64 \<Rightarrow> Instr list" where
  "collect_instructions [] offset = []"
| "collect_instructions ((data, format) # is) offset =
     \<lparr>cdna = format offset, instr_size = word_of_nat (length data), instr_offset = offset, instr_data = data\<rparr>
       # collect_instructions is (offset + word_of_nat (length data))"

definition get_instructions :: "(bytes \<Rightarrow> (bytes \<times> (u64 \<Rightarrow> string)) list) \<Rightarrow> bytes \<Rightarrow> Instr list" where
  "get_instructions decode txt = collect_instructions (decode txt) 0"

section \<open>The injected code\<close>

definition words :: "u32 list \<Rightarrow> bytes" where
  "words ws = concat (map (le_bytes 4) ws)"

definition waitRegs :: "u32 list" where "waitRegs = [0xBF8C0000]"

definition get_injected_instructions :: "hipt_app \<Rightarrow> u64 \<Rightarrow> u64 \<Rightarrow> u64 \<Rightarrow> u32 \<Rightarrow> u32 \<Rightarrow> bytes" where
  "get_injected_instructions app atomics buffer buffer_size address_register regsUsed =
     (let next_free_vreg = regsUsed;
          vreg_to_save = 6;
          sreg_to_save = 6;
          instrs = words waitRegs;
          instrs = instrs @ concat (map (\<lambda>i. insn_ptr (create_v_mov_b32 (next_free_vreg + word_of_nat i) (word_of_nat i)))
            [0..<vreg_to_save]);
          instrs = instrs @ concat (map (\<lambda>i. insn_ptr (create_v_writelane_b32
            (next_free_vreg + word_of_nat vreg_to_save + word_of_nat i) 0 (word_of_nat i))) [0..<sreg_to_save]);
          instrs = instrs @ words waitRegs;
          v_registers_moved = word_of_nat vreg_to_save;
          address_register = (if address_register < v_registers_moved - 1 then address_register + next_free_vreg
            else address_register);
          atomic_addr_low = ucast (atomics AND 0x00000000FFFFFFFF);
          atomic_addr_high = ucast (drop_bit 32 (atomics AND 0xFFFFFFFF00000000));
          buffer_addr_low = ucast (buffer AND 0x00000000FFFFFFFF);
          buffer_addr_high = ucast (drop_bit 32 (buffer AND 0xFFFFFFFF00000000));
          instrs = instrs @ words waitRegs;
          instrs = instrs @ (case app of
              HIPT_APP_INSTRCOUNT \<Rightarrow>
                words [0xBE8200FF, atomic_addr_low, 0xBE8300FF, atomic_addr_high]
                @ words [0x7E000281, 0x7E020280, 0x7E040280, 0xBF8CC07F, 0xDD898000, 0x00020002, 0xBF8C0F70]
            | HIPT_APP_MEMTRACE \<Rightarrow>
                words [0x7E0002FF, atomic_addr_low, 0x7E0202FF, atomic_addr_high, 0x7E040281, 0xDD090000, 0x02000200]
                @ words [0x7E060280, 0x7E0202FF, buffer_addr_high, 0xBF8C0070, 0xD28F0002, 0x00020483, 0x320404FF,
                    buffer_addr_low, 0x38060701]
                @ insn_ptr (create_v_mov_b32 0 address_register)
                @ insn_ptr (create_v_mov_b32 1 (address_register + 1))
                @ words [0xDC740000, 0x00000002]
            | _ \<Rightarrow> []);
          instrs = instrs @ concat (map (\<lambda>i. insn_ptr (create_v_mov_b32 (word_of_nat i) (next_free_vreg + word_of_nat i)))
            [0..<vreg_to_save]);
          instrs = instrs @ concat (map (\<lambda>i. insn_ptr (create_v_readlane_b32 (word_of_nat i) 0
            (next_free_vreg + word_of_nat i + word_of_nat vreg_to_save))) [0..<sreg_to_save])
      in instrs @ words waitRegs)"

section \<open>Kernel descriptors\<close>

text \<open>Offset and length of every field of \<^verbatim>\<open>kernel_descriptor_t\<close>.\<close>

definition kd_fields :: "(nat \<times> nat) list" where
  "kd_fields = [(0, 4), (4, 4), (8, 4), (12, 4), (16, 8), (24, 20), (44, 4), (48, 4), (52, 4), (56, 2), (58, 6)]"

definition readToKd :: "bytes \<Rightarrow> nat \<Rightarrow> nat \<Rightarrow> nat \<Rightarrow> bytes \<Rightarrow> binint_error + bytes" where
  "readToKd rawBytes rawBytesLength fromIndex numBytes data =
     (if \<not> fromIndex + numBytes \<le> rawBytesLength then Inl Assertion_failed
      else if fromIndex + numBytes > length rawBytes then Inl Kd_out_of_range
      else Inr (take fromIndex data @ take numBytes (drop fromIndex rawBytes) @ drop (fromIndex + numBytes) data))"

text \<open>
  The loop over the fields; at an offset that is none the switch would do nothing, for ever. The
  result has the offset of the first resource register.
\<close>

partial_function (option) kd_loop :: "bytes \<Rightarrow> nat \<Rightarrow> nat \<Rightarrow> bytes \<Rightarrow> (binint_error + nat \<times> bytes) option" where
  "kd_loop raw idx found_idx kd =
     (if idx < 64 then
        (case map_of kd_fields idx of
           None \<Rightarrow> kd_loop raw idx found_idx kd
         | Some n \<Rightarrow>
             (case readToKd raw 64 idx n kd of
                Inl err \<Rightarrow> Some (Inl err)
              | Inr kd \<Rightarrow> kd_loop raw (idx + n) (if idx = 48 then idx else found_idx) kd))
      else Some (Inr (found_idx, kd)))"

definition VGPR_COUNT :: u32 where "VGPR_COUNT = push_bit 0 (push_bit 6 1 - 1)"

definition regs_used :: "u32 \<Rightarrow> u32" where
  "regs_used fourByteBuffer = (drop_bit 0 (fourByteBuffer AND VGPR_COUNT) + 1) * 4"

definition regs_granted :: "u32 \<Rightarrow> u32 \<Rightarrow> u32" where
  "regs_granted regsUsed reg_needed =
     (if sint (regsUsed + reg_needed) \<le> 16 then 16
      else if sint (regsUsed + reg_needed) \<le> 40 then 40
      else if sint (regsUsed + reg_needed) \<le> 64 then 64 else 8)"

definition set_regs :: "u32 \<Rightarrow> u32 \<Rightarrow> u32" where
  "set_regs fourByteBuffer reg = (fourByteBuffer AND NOT VGPR_COUNT) OR push_bit 0 (reg div 4 - 1)"

text \<open>\<open>uninit\<close> is the descriptor on the stack before it is filled; the result is \<open>regsUsed\<close>.\<close>

definition editKernelDescriptor :: "bytes \<Rightarrow> elf_section list \<Rightarrow> u64 \<Rightarrow> nat \<Rightarrow> u32
    \<Rightarrow> binint_error + u32 \<times> elf_section list" where
  "editKernelDescriptor uninit sections addr section_index reg_needed =
     (if section_index \<ge> length sections then Inl Bad_section
      else
        let kd_region = sections ! section_index;
            kd_offset = unat (addr - sec_address kd_region)
        in if kd_offset > length (sec_data kd_region) then Inl Kd_out_of_range else
        (case kd_loop (drop kd_offset (sec_data kd_region)) 0 0 uninit of
           None \<Rightarrow> Inl Never_returns
         | Some (Inl err) \<Rightarrow> Inl err
         | Some (Inr (found_idx, kdRepr)) \<Rightarrow>
             let fourByteBuffer = (le_word (take 4 (drop 48 kdRepr)) :: u32);
                 regsUsed = regs_used fourByteBuffer;
                 fourByteBuffer = set_regs fourByteBuffer (regs_granted regsUsed reg_needed);
                 data = sec_data kd_region;
                 data = take (kd_offset + found_idx) data @ le_bytes 4 fourByteBuffer @ drop (kd_offset + found_idx + 4) data
             in Inr (regsUsed, sections[section_index := kd_region\<lparr>sec_data := data\<rparr>])))"

section \<open>The detour\<close>

text \<open>\<open>memcpy\<close> into a buffer.\<close>

definition store_at :: "bytes \<Rightarrow> nat \<Rightarrow> bytes \<Rightarrow> binint_error + bytes" where
  "store_at txt off src =
     (if off + length src \<le> length txt
      then Inr (take off txt @ src @ drop (off + length src) txt) else Inl Text_out_of_range)"

text \<open>The section grows by the three appended pieces; the text is patched apart from it.\<close>

definition addInstrumentation :: "bytes \<Rightarrow> bytes \<Rightarrow> u32 \<Rightarrow> Instr \<Rightarrow> bytes \<Rightarrow> binint_error + bytes \<times> bytes" where
  "addInstrumentation psec txt base instr injected_instrs =
     (let offset = (ucast (ucast (instr_offset instr) :: u32) :: u64);
          jumpto = create_s_branch (ucast offset) (ucast (ucast base + word_of_nat (length psec) :: u64)) None
      in if \<not> ucast (insn_size jumpto) \<le> instr_size instr then Inl Assertion_failed else
         rbind (store_at txt (unat offset) (insn_ptr jumpto)) (\<lambda>txt.
         rbind (if instr_size instr = 8
                then store_at txt (unat offset + unat (insn_size jumpto)) (le_bytes 4 (0xBF800000 :: u32)) else Inr txt) (\<lambda>txt.
         let psec = psec @ injected_instrs;
             psec = psec @ instr_data instr;
             jumpback = create_s_branch (ucast (ucast base + word_of_nat (length psec) :: u64)) (ucast (offset + 4)) None;
             psec = psec @ insn_ptr jumpback
         in Inr (psec, txt))))"

definition instrument_one :: "hipt_app \<Rightarrow> u64 \<Rightarrow> u64 \<Rightarrow> u64 \<Rightarrow> u32 \<Rightarrow> Instr list \<Rightarrow> nat \<Rightarrow> bytes \<times> bytes
    \<Rightarrow> binint_error + bytes \<times> bytes" where
  "instrument_one app atomics buffer buffer_size regsUsed instructions i = (\<lambda>(psec, txt).
     let instr = instructions ! i;
         base = (if i = 0 then ucast (instr_offset instr) else 0)
     in if app = HIPT_APP_INSTRCOUNT \<and> i = HIPT_INSTRUMENTED_INSTR then
          addInstrumentation psec txt base instr (get_injected_instructions app atomics buffer buffer_size 0 regsUsed)
        else if app = HIPT_APP_MEMTRACE \<and> i = HIPT_INSTRUMENTED_INSTR then
          rbind (isLoad instr) (\<lambda>load.
          rbind (if load then Inr True else isStore instr) (\<lambda>ok.
            if \<not> ok then Inl Assertion_failed
            else addInstrumentation psec txt base instr
              (get_injected_instructions app atomics buffer buffer_size 0 regsUsed)))
        else Inr (psec, txt))"

text \<open>The new contents of a text section.\<close>

definition instrument_text :: "hipt_app \<Rightarrow> u64 \<Rightarrow> u64 \<Rightarrow> u64 \<Rightarrow> u32 \<Rightarrow> (bytes \<Rightarrow> (bytes \<times> (u64 \<Rightarrow> string)) list)
    \<Rightarrow> bytes \<Rightarrow> binint_error + bytes" where
  "instrument_text app atomics buffer buffer_size regsUsed decode psec =
     (let instructions = get_instructions decode psec
      in rbind (for_loop 0 (length instructions)
             (instrument_one app atomics buffer buffer_size regsUsed instructions) (psec, psec)) (\<lambda>(newtext, txt).
           if length newtext < length txt then Inl Text_out_of_range
           else Inr (txt @ drop (length txt) newtext)))"

section \<open>A whole code object\<close>

text \<open>
  The ELF library, the decoder and the HIP functions; \<open>br_malloc\<close> yields the null pointer when it
  fails.
\<close>

record 'w binint_runtime =
  br_load :: "bytes \<Rightarrow> elf_section list"
  br_symbols :: "elf_section list \<Rightarrow> nat \<Rightarrow> (string \<times> u64 \<times> nat) list"
  br_decode :: "bytes \<Rightarrow> (bytes \<times> (u64 \<Rightarrow> string)) list"
  br_malloc :: "u64 \<Rightarrow> 'w \<Rightarrow> u64 \<times> 'w"
  br_copy_to :: "u64 \<Rightarrow> bytes \<Rightarrow> 'w \<Rightarrow> u32 \<times> 'w"
  br_save :: "string \<Rightarrow> elf_section list \<Rightarrow> 'w \<Rightarrow> 'w"

definition SHT_SYMTAB :: u32 where "SHT_SYMTAB = 2"

definition BUFFER_SIZE :: nat where "BUFFER_SIZE = 55000000"

fun edit_descriptors :: "bytes \<Rightarrow> (string \<times> u64 \<times> nat) list \<Rightarrow> u32 \<times> elf_section list
    \<Rightarrow> binint_error + u32 \<times> elf_section list" where
  "edit_descriptors uninit [] s = Inr s"
| "edit_descriptors uninit ((name, addr, section_index) # syms) (regsUsed, sections) =
     rbind (if contains name ''.kd'' then editKernelDescriptor uninit sections addr section_index 16
            else Inr (regsUsed, sections))
       (edit_descriptors uninit syms)"

definition edit_symbols :: "'w binint_runtime \<Rightarrow> bytes \<Rightarrow> nat \<Rightarrow> u32 \<times> elf_section list
    \<Rightarrow> binint_error + u32 \<times> elf_section list" where
  "edit_symbols br uninit i = (\<lambda>(regsUsed, sections).
     if sec_type (sections ! i) = SHT_SYMTAB then edit_descriptors uninit (br_symbols br sections i) (regsUsed, sections)
     else Inr (regsUsed, sections))"

definition instrument_section :: "hipt_app \<Rightarrow> u64 \<Rightarrow> u64 \<Rightarrow> u32 \<Rightarrow> 'w binint_runtime \<Rightarrow> nat \<Rightarrow> elf_section list
    \<Rightarrow> binint_error + elf_section list" where
  "instrument_section app atomics buffer regsUsed br i sections =
     (let psec = sections ! i
      in if sec_name psec = ''.text'' then
           rbind (instrument_text app atomics buffer (word_of_nat BUFFER_SIZE) regsUsed (br_decode br) (sec_data psec))
             (\<lambda>data. Inr (sections[i := psec\<lparr>sec_data := data\<rparr>]))
         else Inr sections)"

text \<open>
  \<open>uninit_regs\<close> is \<open>regsUsed\<close> before the first descriptor is found. The result has the addresses of
  the counter and the buffer on the device.
\<close>

definition binintSetupForFatBin :: "hipt_app \<Rightarrow> bytes \<Rightarrow> u32 \<Rightarrow> 'w binint_runtime \<Rightarrow> bytes \<Rightarrow> string \<Rightarrow> 'w
    \<Rightarrow> binint_error + u64 \<times> u64 \<times> 'w" where
  "binintSetupForFatBin app uninit uninit_regs br img filename w =
     (let sections = br_load br img;
          (atomics, w) = br_malloc br 4 w;
          (buffer, w) = br_malloc br (8 * word_of_nat BUFFER_SIZE) w;
          (result, w) = br_copy_to br atomics (replicate 4 0) w
      in if result \<noteq> 0 then Inl Assertion_failed else
         let (result, w) = br_copy_to br buffer (replicate (8 * BUFFER_SIZE) 0) w
         in if atomics = 0 \<or> buffer = 0 then Inl Assertion_failed else
            rbind (for_loop 0 (length sections) (edit_symbols br uninit) (uninit_regs, sections)) (\<lambda>(regsUsed, sections).
            rbind (for_loop 0 (length sections) (instrument_section app atomics buffer regsUsed br) sections) (\<lambda>sections.
            Inr (atomics, buffer, br_save br filename sections w))))"

section \<open>Registers of a kernel\<close>

lemma readToKd_step:
  assumes "idx + n \<le> 64" "64 \<le> length raw" "length kd = 64"
  shows "readToKd raw 64 idx n (take idx raw @ drop idx kd) = Inr (take (idx + n) raw @ drop (idx + n) kd)"
  using assms by (simp add: readToKd_def take_add add.commute [of n idx])

lemma kd_loop_step:
  assumes "map_of kd_fields idx = Some n" "idx < 64" "idx + n \<le> 64" "64 \<le> length raw" "length kd = 64"
  shows "kd_loop raw idx f (take idx raw @ drop idx kd)
    = kd_loop raw (idx + n) (if idx = 48 then idx else f) (take (idx + n) raw @ drop (idx + n) kd)"
  using assms by (subst kd_loop.simps) (simp add: readToKd_step)

lemma kd_loop_reads:
  assumes "64 \<le> length raw" "length kd = 64"
  shows "kd_loop raw 0 0 kd = Some (Inr (48, take 64 raw))"
proof -
  note step = kd_loop_step [OF _ _ _ assms]
  have "kd_loop raw 0 0 kd = kd_loop raw 4 0 (take 4 raw @ drop 4 kd)"
    using step [of 0 4 0] by (simp add: kd_fields_def)
  also have "\<dots> = kd_loop raw 8 0 (take 8 raw @ drop 8 kd)" using step [of 4 4 0] by (simp add: kd_fields_def)
  also have "\<dots> = kd_loop raw 12 0 (take 12 raw @ drop 12 kd)" using step [of 8 4 0] by (simp add: kd_fields_def)
  also have "\<dots> = kd_loop raw 16 0 (take 16 raw @ drop 16 kd)" using step [of 12 4 0] by (simp add: kd_fields_def)
  also have "\<dots> = kd_loop raw 24 0 (take 24 raw @ drop 24 kd)" using step [of 16 8 0] by (simp add: kd_fields_def)
  also have "\<dots> = kd_loop raw 44 0 (take 44 raw @ drop 44 kd)" using step [of 24 20 0] by (simp add: kd_fields_def)
  also have "\<dots> = kd_loop raw 48 0 (take 48 raw @ drop 48 kd)" using step [of 44 4 0] by (simp add: kd_fields_def)
  also have "\<dots> = kd_loop raw 52 48 (take 52 raw @ drop 52 kd)" using step [of 48 4 0] by (simp add: kd_fields_def)
  also have "\<dots> = kd_loop raw 56 48 (take 56 raw @ drop 56 kd)" using step [of 52 4 48] by (simp add: kd_fields_def)
  also have "\<dots> = kd_loop raw 58 48 (take 58 raw @ drop 58 kd)" using step [of 56 2 48] by (simp add: kd_fields_def)
  also have "\<dots> = kd_loop raw 64 48 (take 64 raw @ drop 64 kd)" using step [of 58 6 48] by (simp add: kd_fields_def)
  also have "\<dots> = Some (Inr (48, take 64 raw))" using assms by (subst kd_loop.simps) simp
  finally show ?thesis .
qed

definition rsrc1_at :: "bytes \<Rightarrow> nat \<Rightarrow> u32" where
  "rsrc1_at data kd = le_word (piece data (kd + 48) 4)"

lemma VGPR_mask: "VGPR_COUNT = mask 6"
  by (simp add: VGPR_COUNT_def mask_eq_exp_minus_1)

lemma registers_bound: "unat (regs_used r) = 4 * (unat (take_bit 6 r) + 1)" "unat (take_bit 6 r) < 64"
proof -
  show b: "unat (take_bit 6 r) < 64" using take_bit_nat_less_exp [of 6 "unat r"] by (simp add: unsigned_take_bit_eq)
  then show "unat (regs_used r) = 4 * (unat (take_bit 6 r) + 1)"
    by (simp add: regs_used_def VGPR_mask unat_word_ariths flip: take_bit_eq_mask)
qed

lemma sint_of_small:
  fixes v :: u32
  assumes "unat v = n" "n + 16 < 2 ^ 31"
  shows "sint (v + 16) = int n + 16"
proof -
  have "v = word_of_nat n" using assms(1) by auto
  then have v: "v + 16 = word_of_int (int n + 16)" by simp
  have small: "sint (word_of_int k :: u32) = k" if "0 \<le> k" "k < 2 ^ 31" for k
    using that by (simp add: signed_of_int signed_take_bit_int_eq_self)
  show ?thesis unfolding v by (rule small) (use assms(2) in simp_all)
qed

lemma granted_cases:
  assumes "unat v = n" "n < 1000"
  shows "regs_granted v 16 = (if n = 0 then 16 else if n \<le> 24 then 40 else if n \<le> 48 then 64 else 8)"
  using assms(2) by (auto simp: regs_granted_def sint_of_small [OF assms(1)])

lemma set_regs_fields:
  assumes "reg \<in> {8, 16, 40, 64}"
  shows "drop_bit 6 (set_regs old reg) = drop_bit 6 old" "regs_used (set_regs old reg) = reg"
proof -
  have low: "take_bit 6 (reg div 4 - 1) = reg div 4 - 1" "drop_bit 6 (reg div 4 - 1) = 0"
    using assms(1) by auto
  have "drop_bit 6 (old AND NOT (mask 6)) = drop_bit 6 old" "take_bit 6 (old AND NOT (mask 6)) = 0"
    by (intro bit_word_eqI; auto simp: bit_simps dest: bit_imp_le_length)+
  then have "drop_bit 6 (set_regs old reg) = drop_bit 6 old" "take_bit 6 (set_regs old reg) = reg div 4 - 1"
    by (simp_all add: set_regs_def VGPR_mask drop_bit_or take_bit_or low del: take_bit_and drop_bit_and)
  then show "drop_bit 6 (set_regs old reg) = drop_bit 6 old" "regs_used (set_regs old reg) = reg"
    using assms(1) by (auto simp: regs_used_def VGPR_mask simp flip: take_bit_eq_mask)
qed

lemma descriptor_edit:
  assumes "section_index < length sections" "sec_data (sections ! section_index) = data"
    and "unat (addr - sec_address (sections ! section_index)) = kd" "kd + 64 \<le> length data" "length uninit = 64"
  shows "editKernelDescriptor uninit sections addr section_index needed = Inr (regs_used (rsrc1_at data kd),
    sections[section_index := (sections ! section_index)\<lparr>sec_data :=
      take (kd + 48) data @ le_bytes 4 (set_regs (rsrc1_at data kd) (regs_granted (regs_used (rsrc1_at data kd)) needed))
        @ drop (kd + 52) data\<rparr>])"
proof -
  have loop: "kd_loop (drop kd data) 0 0 uninit = Some (Inr (48, take 64 (drop kd data)))"
    by (rule kd_loop_reads) (use assms(4,5) in simp_all)
  have word: "(le_word (take 4 (drop 48 (take 64 (drop kd data)))) :: u32) = rsrc1_at data kd"
    by (simp add: rsrc1_at_def piece_def drop_take add.commute)
  show ?thesis
    using assms(1-4) unfolding editKernelDescriptor_def Let_def by (simp add: loop word add.commute [of 52 kd])
qed

text \<open>
  C31: editing a kernel descriptor changes nothing but the count of vector registers, reports the old
  count, and grants the 16 registers that the injected code needs exactly when the kernel uses at
  most 48: above that the new count is 8, fewer than the kernel itself uses.
\<close>

theorem edited_descriptor_registers:
  assumes "section_index < length sections" "sec_data (sections ! section_index) = data"
    and "unat (addr - sec_address (sections ! section_index)) = kd" "kd + 64 \<le> length data" "length uninit = 64"
  shows "\<exists>data'. editKernelDescriptor uninit sections addr section_index 16 = Inr (regs_used (rsrc1_at data kd),
      sections[section_index := (sections ! section_index)\<lparr>sec_data := data'\<rparr>])
    \<and> length data' = length data \<and> take (kd + 48) data' = take (kd + 48) data \<and> drop (kd + 52) data' = drop (kd + 52) data
    \<and> drop_bit 6 (rsrc1_at data' kd) = drop_bit 6 (rsrc1_at data kd)
    \<and> (unat (regs_used (rsrc1_at data kd)) + 16 \<le> unat (regs_used (rsrc1_at data' kd))
         \<longleftrightarrow> unat (regs_used (rsrc1_at data kd)) \<le> 48)
    \<and> (\<not> unat (regs_used (rsrc1_at data kd)) \<le> 48 \<longrightarrow> regs_used (rsrc1_at data' kd) = 8)"
proof -
  let ?old = "rsrc1_at data kd" and ?g = "regs_granted (regs_used (rsrc1_at data kd)) 16"
  let ?data = "take (kd + 48) data @ le_bytes 4 (set_regs ?old ?g) @ drop (kd + 52) data"
  have n: "unat (regs_used ?old) < 1000" "unat (regs_used ?old) \<noteq> 0" using registers_bound [of ?old] by simp_all
  note g = granted_cases [OF refl n(1)]
  then have "?g \<in> {8, 16, 40, 64}" by auto
  note new = set_regs_fields [OF this, of ?old]
  have at: "rsrc1_at ?data kd = set_regs ?old ?g"
    using assms(4) by (simp add: rsrc1_at_def piece_def le_word_le_bytes)
  have "unat (regs_used ?old) + 16 \<le> unat ?g \<longleftrightarrow> unat (regs_used ?old) \<le> 48"
    using n(2) registers_bound [of ?old] by (auto simp: g)
  moreover have "\<not> unat (regs_used ?old) \<le> 48 \<longrightarrow> ?g = 8" using g by auto
  moreover have "drop_bit 6 (rsrc1_at ?data kd) = drop_bit 6 ?old" "regs_used (rsrc1_at ?data kd) = ?g"
    unfolding at by (rule new)+
  ultimately have "(unat (regs_used ?old) + 16 \<le> unat (regs_used (rsrc1_at ?data kd)) \<longleftrightarrow> unat (regs_used ?old) \<le> 48)
      \<and> (\<not> unat (regs_used ?old) \<le> 48 \<longrightarrow> regs_used (rsrc1_at ?data kd) = 8)
      \<and> drop_bit 6 (rsrc1_at ?data kd) = drop_bit 6 ?old" by metis
  moreover have "length ?data = length data" "take (kd + 48) ?data = take (kd + 48) data" "drop (kd + 52) ?data = drop (kd + 52) data"
    using assms(4) by simp_all
  ultimately show ?thesis using descriptor_edit [OF assms] by blast
qed

definition sample_sections :: "elf_section list" where
  "sample_sections = [\<lparr>sec_type = 1, sec_data = replicate 48 0 @ le_bytes 4 (0x00AF0085 :: u32) @ replicate 12 0,
     sec_name = ''.rodata'', sec_address = 0x1000\<rparr>]"

theorem edited_descriptor_registers_witness:
  "\<exists>data'. editKernelDescriptor (replicate 64 0) sample_sections 0x1000 0 16 = Inr (24,
      sample_sections[0 := (sample_sections ! 0)\<lparr>sec_data := data'\<rparr>])
    \<and> drop_bit 6 (rsrc1_at data' 0) = 0x2BC02 \<and> 40 \<le> unat (regs_used (rsrc1_at data' 0))"
proof -
  let ?data = "replicate 48 0 @ le_bytes 4 (0x00AF0085 :: u32) @ replicate 12 0"
  have old: "rsrc1_at ?data 0 = 0x00AF0085" by (simp add: rsrc1_at_def piece_def le_word_le_bytes)
  have used: "regs_used 0x00AF0085 = 24" by (simp add: regs_used_def VGPR_COUNT_def)
  have data: "sec_data (sample_sections ! 0) = ?data" by (simp only: sample_sections_def nth_Cons_0 section_data.select_convs)
  have "\<exists>data'. editKernelDescriptor (replicate 64 0) sample_sections 0x1000 0 16 = Inr (regs_used (rsrc1_at ?data 0),
      sample_sections[0 := (sample_sections ! 0)\<lparr>sec_data := data'\<rparr>])
    \<and> length data' = length ?data \<and> take (0 + 48) data' = take (0 + 48) ?data \<and> drop (0 + 52) data' = drop (0 + 52) ?data
    \<and> drop_bit 6 (rsrc1_at data' 0) = drop_bit 6 (rsrc1_at ?data 0)
    \<and> (unat (regs_used (rsrc1_at ?data 0)) + 16 \<le> unat (regs_used (rsrc1_at data' 0))
         \<longleftrightarrow> unat (regs_used (rsrc1_at ?data 0)) \<le> 48)
    \<and> (\<not> unat (regs_used (rsrc1_at ?data 0)) \<le> 48 \<longrightarrow> regs_used (rsrc1_at data' 0) = 8)"
    by (rule edited_descriptor_registers [OF _ data]) (simp_all add: sample_sections_def)
  then show ?thesis unfolding old used by auto
qed

section \<open>Where the detour goes\<close>

lemma in_reach_nat:
  assumes "4 dvd int t - int a" "- 131072 \<le> int t - int a - 4" "int t - int a - 4 < 131072"
  shows "in_reach (word_of_nat a) (word_of_nat t)"
proof -
  have d: "(word_of_nat t - word_of_nat a - 4 :: u32) = word_of_int (int t - int a - 4)" by simp
  have small: "sint (word_of_int k :: u32) = k" if "- 131072 \<le> k" "k < 131072" for k
    using that by (simp add: signed_of_int signed_take_bit_int_eq_self)
  have "sint (word_of_nat t - word_of_nat a - 4 :: u32) = int t - int a - 4"
    unfolding d by (rule small) (use assms in simp_all)
  moreover have "4 dvd int t - int a - 4" using assms(1) by (simp add: dvd_diff)
  ultimately show ?thesis using assms(2,3) by (simp add: in_reach_def)
qed

lemma s_branch_jumps:
  assumes "4 dvd int t - int a" "- 131072 \<le> int t - int a - 4" "int t - int a - 4 < 131072"
  shows "jump_target (word_of_nat a) (insn_ptr (create_s_branch (word_of_nat a) (word_of_nat t) None)) = word_of_nat t"
  using jump_reach in_reach_nat [OF assms] by simp

lemma s_branch_size [simp]: "insn_size (create_s_branch a t None) = 4" "length (insn_ptr (create_s_branch a t None)) = 4"
  using s_branch_shape [of a t] by (auto simp: MyBranchInsn_of_def)

lemma for_loop_once:
  assumes "i \<le> k" "k < i + m" "\<And>j s. j \<noteq> k \<Longrightarrow> f j s = Inr s"
  shows "for_loop i m f s = f k s"
  using assms(1,2)
proof (induction m arbitrary: i s)
  case (Suc m)
  have none: "for_loop j l f s = Inr s" if "k < j" for j l s
    using that by (induction l arbitrary: j) (simp_all add: assms(3))
  show ?case
  proof (cases "i = k")
    case True
    then show ?thesis by (cases "f k s") (simp_all add: none)
  next
    case False
    then show ?thesis using Suc by (simp add: assms(3))
  qed
qed simp

lemma length_words [simp]: "length (words ws) = 4 * length ws"
  by (induction ws) (simp_all add: words_def)

lemma length_insns [simp]:
  "length (insn_ptr (create_v_mov_b32 d s)) = 4" "length (insn_ptr (create_v_writelane_b32 d l s)) = 8"
  "length (insn_ptr (create_v_readlane_b32 d l s)) = 8"
  by (simp_all add: create_v_mov_b32_def create_v_writelane_b32_def create_v_readlane_b32_def MyInsn_of_def Let_def)

lemma length_injected: "length (get_injected_instructions HIPT_APP_INSTRCOUNT a b bs ar regs) = 204"
  by (simp add: get_injected_instructions_def waitRegs_def Let_def length_concat comp_def map_replicate_const sum_list_replicate)

lemma store_at_ok:
  "off + length src \<le> length txt \<Longrightarrow> store_at txt off src = Inr (take off txt @ src @ drop (off + length src) txt)"
  by (simp add: store_at_def)

text \<open>The text around the patched instruction.\<close>

definition detour_text :: "bytes \<Rightarrow> nat \<Rightarrow> nat \<Rightarrow> bytes \<Rightarrow> bytes" where
  "detour_text txt off sz jump =
     take off txt @ jump @ (if sz = 8 then le_bytes 4 (0xBF800000 :: u32) else []) @ drop (off + sz) txt"

lemma addInstrumentation_ok:
  assumes "unat (instr_offset instr) = off" "unat (instr_size instr) = sz" "sz = 4 \<or> sz = 8"
    and "off + sz \<le> length txt" "length psec + length code + length (instr_data instr) < 2 ^ 31" "off < 2 ^ 31"
  shows "addInstrumentation psec txt 0 instr code = Inr
    (psec @ code @ instr_data instr
      @ insn_ptr (create_s_branch (word_of_nat (length psec + length code + length (instr_data instr))) (word_of_nat (off + 4)) None),
     detour_text txt off sz (insn_ptr (create_s_branch (word_of_nat off) (word_of_nat (length psec)) None)))"
proof -
  have o: "instr_offset instr = word_of_nat off" using assms(1) by auto
  have s: "instr_size instr = word_of_nat sz" using assms(2) by auto
  have low: "(ucast (word_of_nat k :: u64) :: u32) = word_of_nat k" for k
    by (intro bit_word_eqI) (simp add: bit_simps)
  have up: "(ucast (word_of_nat off :: u32) :: u64) = word_of_nat off"
    using assms(6) by (simp add: unsigned_of_nat take_bit_nat_eq_self)
  have plus: "(word_of_nat off + 4 :: u64) = word_of_nat (off + 4)" by simp
  have n: "unat (word_of_nat off :: u64) = off" using assms(1) o by simp
  have eight: "(word_of_nat sz :: u64) = 8 \<longleftrightarrow> sz = 8" "(4 :: u64) \<le> word_of_nat sz" using assms(3) by auto
  have offset: "(ucast (ucast (instr_offset instr) :: u32) :: u64) = word_of_nat off" by (simp add: o low up)
  let ?to = "create_s_branch (word_of_nat off) (word_of_nat (length psec)) None"
    and ?ret = "create_s_branch (word_of_nat (length psec + length code + length (instr_data instr))) (word_of_nat (off + 4)) None"
  have jumps: "create_s_branch (ucast (word_of_nat off :: u64)) (ucast (ucast (0 :: u32) + word_of_nat (length psec) :: u64)) None = ?to"
    "create_s_branch (ucast (ucast (0 :: u32) + word_of_nat (length ((psec @ code) @ instr_data instr)) :: u64))
       (ucast (word_of_nat off + 4 :: u64)) None = ?ret"
    by (simp_all only: plus low unsigned_0 add_0 length_append)
  have first: "store_at txt off (insn_ptr ?to) = Inr (take off txt @ insn_ptr ?to @ drop (off + 4) txt)"
    using assms(3,4) by (subst store_at_ok) auto
  have second: "store_at (take off txt @ j @ drop (off + 4) txt) (off + 4) (le_bytes 4 (0xBF800000 :: u32))
      = Inr (take off txt @ j @ le_bytes 4 (0xBF800000 :: u32) @ drop (off + 8) txt)" if "length j = 4" "sz = 8" for j
    using assms(4) that by (subst store_at_ok) (auto simp: min_def add.commute [of 8 off])
  have four: "unat off' + unat (4 :: u32) = unat off' + 4" "(ucast (4 :: u32) :: u64) = 4" for off' :: u64 by simp_all
  show ?thesis
  proof (cases "sz = 8")
    case True
    then show ?thesis
      unfolding addInstrumentation_def Let_def offset jumps n s_branch_size s four first
      using eight by (simp add: second detour_text_def del: store_at_def)
  next
    case False
    with assms(3) have "sz = 4" by simp
    with eight show ?thesis
      unfolding addInstrumentation_def Let_def offset jumps n s_branch_size s four first
      by (simp add: detour_text_def)
  qed
qed

lemma instrument_text_ok:
  assumes "2 < length (get_instructions decode txt)" "get_instructions decode txt ! 2 = instr"
    and "unat (instr_offset instr) = off" "unat (instr_size instr) = sz" "sz = 4 \<or> sz = 8"
    and "off + sz \<le> length txt" "instr_data instr = piece txt off sz" "length txt + 212 < 2 ^ 31"
  shows "instrument_text HIPT_APP_INSTRCOUNT a b bs regs decode txt = Inr
    (detour_text txt off sz (insn_ptr (create_s_branch (word_of_nat off) (word_of_nat (length txt)) None))
     @ get_injected_instructions HIPT_APP_INSTRCOUNT a b bs 0 regs @ piece txt off sz
     @ insn_ptr (create_s_branch (word_of_nat (length txt + 204 + sz)) (word_of_nat (off + 4)) None))"
proof -
  let ?inj = "get_injected_instructions HIPT_APP_INSTRCOUNT a b bs 0 regs"
    and ?ins = "get_instructions decode txt"
  have data: "length (instr_data instr) = sz" using assms(6,7) by (simp add: piece_def)
  have "for_loop 0 (length ?ins) (instrument_one HIPT_APP_INSTRCOUNT a b bs regs ?ins) (txt, txt)
      = instrument_one HIPT_APP_INSTRCOUNT a b bs regs ?ins 2 (txt, txt)"
    by (rule for_loop_once) (use assms(1) in \<open>auto simp: instrument_one_def HIPT_INSTRUMENTED_INSTR_def Let_def\<close>)
  also have "\<dots> = addInstrumentation txt txt 0 instr ?inj"
    by (simp add: instrument_one_def HIPT_INSTRUMENTED_INSTR_def assms(2))
  also have "\<dots> = Inr (txt @ ?inj @ piece txt off sz
        @ insn_ptr (create_s_branch (word_of_nat (length txt + 204 + sz)) (word_of_nat (off + 4)) None),
      detour_text txt off sz (insn_ptr (create_s_branch (word_of_nat off) (word_of_nat (length txt)) None)))"
    using addInstrumentation_ok [OF assms(3-6), of "txt" ?inj] assms(5,6,7,8) data by (auto simp: length_injected)
  finally show ?thesis
    using assms(5,6) by (auto simp: instrument_text_def detour_text_def)
qed

text \<open>
  C30: instrumenting a text section: the instruction with number 2 is replaced by a branch to the old
  end of the section, followed by a no-op when it had 8 bytes; there the injected code, the
  replaced instruction and a branch to just behind the first branch follow, and all other code
  keeps its place. Both branches reach their target as long as the distance fits.
\<close>

theorem instrumented_text_detour:
  assumes "2 < length (get_instructions decode txt)" "get_instructions decode txt ! 2 = instr"
    and "unat (instr_offset instr) = off" "unat (instr_size instr) = sz" "sz = 4 \<or> sz = 8"
    and "off + sz \<le> length txt" "instr_data instr = piece txt off sz"
    and "4 dvd off" "4 dvd length txt" "length txt + 212 \<le> off + 131072" "off < 2 ^ 30"
  shows "\<exists>out. instrument_text HIPT_APP_INSTRCOUNT a b bs regs decode txt = Inr out
    \<and> length out = length txt + 208 + sz
    \<and> take off out = take off txt \<and> piece out (off + sz) (length txt - (off + sz)) = drop (off + sz) txt
    \<and> jump_target (word_of_nat off) (piece out off 4) = word_of_nat (length txt)
    \<and> (sz = 8 \<longrightarrow> piece out (off + 4) 4 = le_bytes 4 (0xBF800000 :: u32))
    \<and> piece out (length txt) 204 = get_injected_instructions HIPT_APP_INSTRCOUNT a b bs 0 regs
    \<and> piece out (length txt + 204) sz = piece txt off sz
    \<and> jump_target (word_of_nat (length txt + 204 + sz)) (piece out (length txt + 204 + sz) 4) = word_of_nat (off + 4)"
proof -
  let ?n = "length txt" and ?inj = "get_injected_instructions HIPT_APP_INSTRCOUNT a b bs 0 regs"
  let ?to = "insn_ptr (create_s_branch (word_of_nat off) (word_of_nat ?n) None)"
    and ?ret = "insn_ptr (create_s_branch (word_of_nat (?n + 204 + sz)) (word_of_nat (off + 4)) None)"
  let ?out = "detour_text txt off sz ?to @ ?inj @ piece txt off sz @ ?ret"
  have run: "instrument_text HIPT_APP_INSTRCOUNT a b bs regs decode txt = Inr ?out"
    by (rule instrument_text_ok [OF assms(1-7)]) (use assms(10,11) in simp)
  have dvd: "4 dvd int m - int k" if "4 dvd m" "4 dvd k" for m k :: nat using that by presburger
  have "4 dvd off + 4" "4 dvd ?n + 204 + sz" using assms(5,8,9) by auto
  then have div: "4 dvd int ?n - int off" "4 dvd int (off + 4) - int (?n + 204 + sz)"
    using assms(8,9) dvd by blast+
  have "jump_target (word_of_nat off) ?to = word_of_nat ?n"
    by (rule s_branch_jumps [OF div(1)]) (use assms(5,6,10) in auto)
  moreover have "jump_target (word_of_nat (?n + 204 + sz)) ?ret = word_of_nat (off + 4)"
    by (rule s_branch_jumps [OF div(2)]) (use assms(5,6,10) in auto)
  moreover have len: "length (detour_text txt off sz j) = ?n" if "length j = 4" for j
    using assms(5,6) that by (auto simp: detour_text_def)
  moreover have "length (piece txt off sz) = sz" using assms(6) by (simp add: piece_def)
  moreover have "take off (detour_text txt off sz ?to) = take off txt" "piece (detour_text txt off sz ?to) off 4 = ?to"
    "piece (detour_text txt off sz ?to) (off + sz) (?n - (off + sz)) = drop (off + sz) txt"
    "sz = 8 \<Longrightarrow> piece (detour_text txt off sz ?to) (off + 4) 4 = le_bytes 4 (0xBF800000 :: u32)"
    using assms(5,6) by (auto simp: detour_text_def piece_def)
  ultimately show ?thesis
    using run assms(5,6) by (intro exI [of _ ?out]) (auto simp: piece_def length_injected)
qed

definition sample_decode :: "bytes \<Rightarrow> (bytes \<times> (u64 \<Rightarrow> string)) list" where
  "sample_decode b = [(piece b 0 4, \<lambda>_. ''S_NOP''), (piece b 4 4, \<lambda>_. ''S_NOP''), (piece b 8 8, \<lambda>_. ''GLOBAL_LOAD'')]"

definition sample_text :: bytes where
  "sample_text = [0, 0, 128, 191, 0, 0, 128, 191, 0, 128, 80, 220, 0, 0, 127, 1, 0, 0, 129, 191]"

theorem instrumented_text_detour_witness:
  "\<exists>out. instrument_text HIPT_APP_INSTRCOUNT 4096 8192 16 24 sample_decode sample_text = Inr out
    \<and> length out = 236 \<and> jump_target 8 (piece out 8 4) = 20 \<and> jump_target 232 (piece out 232 4) = 12"
proof -
  have third: "get_instructions sample_decode sample_text ! 2
      = \<lparr>cdna = ''GLOBAL_LOAD'', instr_size = 8, instr_offset = 8, instr_data = piece sample_text 8 8\<rparr>"
    "2 < length (get_instructions sample_decode sample_text)"
    by (simp_all add: get_instructions_def sample_decode_def sample_text_def piece_def numeral_2_eq_2)
  have len: "length sample_text = 20" by (simp add: sample_text_def)
  have "\<exists>out. instrument_text HIPT_APP_INSTRCOUNT 4096 8192 16 24 sample_decode sample_text = Inr out
    \<and> length out = length sample_text + 208 + 8
    \<and> take 8 out = take 8 sample_text \<and> piece out (8 + 8) (length sample_text - (8 + 8)) = drop (8 + 8) sample_text
    \<and> jump_target (word_of_nat 8) (piece out 8 4) = word_of_nat (length sample_text)
    \<and> ((8 :: nat) = 8 \<longrightarrow> piece out (8 + 4) 4 = le_bytes 4 (0xBF800000 :: u32))
    \<and> piece out (length sample_text) 204 = get_injected_instructions HIPT_APP_INSTRCOUNT 4096 8192 16 0 24
    \<and> piece out (length sample_text + 204) 8 = piece sample_text 8 8
    \<and> jump_target (word_of_nat (length sample_text + 204 + 8)) (piece out (length sample_text + 204 + 8) 4) = word_of_nat (8 + 4)"
    by (rule instrumented_text_detour [OF third(2,1)]) (simp_all add: len)
  then show ?thesis unfolding len by auto
qed

end
