(* ===== verification/Arg_Metadata.thy ===== *)
theory Arg_Metadata
  imports Arg_Info
begin

text \<open>
  What the two readers of \<^verbatim>\<open>include/elf.h\<close> compute: a kernel's metadata is described as a tree of
  fields in any order, with fields that the readers do not know, and the tables are functions of
  this tree. Both readers share the contract \<open>arg_reader\<close>.
\<close>

section \<open>Metadata trees\<close>

type_synonym field = "string \<times> mp_value"

datatype kernel_field_spec = K_args "field list list" | K_name string | K_other field

datatype metadata_spec = M_kernels "kernel_field_spec list list" | M_other field

definition encode_key :: "string \<Rightarrow> bytes" where
  "encode_key k = encode_value (V_Str (bytes_of k))"

definition encode_field :: "field \<Rightarrow> bytes" where
  "encode_field f = encode_key (fst f) @ encode_value (snd f)"

definition encode_arg :: "field list \<Rightarrow> bytes" where
  "encode_arg fs = mp_encode_map [] (word_of_nat (length fs)) @ concat (map encode_field fs)"

fun encode_kernel_field :: "kernel_field_spec \<Rightarrow> bytes" where
  "encode_kernel_field (K_args args) =
     encode_key ''.args'' @ mp_encode_array [] (word_of_nat (length args)) @ concat (map encode_arg args)"
| "encode_kernel_field (K_name n) = encode_key ''.name'' @ encode_key n"
| "encode_kernel_field (K_other f) = encode_field f"

definition encode_kernel :: "kernel_field_spec list \<Rightarrow> bytes" where
  "encode_kernel ks = mp_encode_map [] (word_of_nat (length ks)) @ concat (map encode_kernel_field ks)"

fun encode_metadata_entry :: "metadata_spec \<Rightarrow> bytes" where
  "encode_metadata_entry (M_kernels kss) = encode_key ''amdhsa.kernels'' @
     mp_encode_array [] (word_of_nat (length kss)) @ concat (map encode_kernel kss)"
| "encode_metadata_entry (M_other f) = encode_field f"

definition encode_metadata :: "metadata_spec list \<Rightarrow> bytes" where
  "encode_metadata ms = mp_encode_map [] (word_of_nat (length ms)) @ concat (map encode_metadata_entry ms)"

text \<open>Fields with a known key hold a value of the kind that the readers decode.\<close>

definition field_ok :: "field \<Rightarrow> bool" where
  "field_ok f \<longleftrightarrow> length (fst f) < 2 ^ 32 \<and> encodable (snd f)
     \<and> (fst f \<in> {''.address_space'', ''.value_kind'', ''.access''} \<longrightarrow> (\<exists>s. snd f = V_Str s))
     \<and> (fst f \<in> {''.size'', ''.offset''} \<longrightarrow> (\<exists>n. snd f = V_Uint n))"

definition arg_ok :: "field list \<Rightarrow> bool" where
  "arg_ok fs \<longleftrightarrow> length fs < 2 ^ 32 \<and> list_all field_ok fs"

fun kernel_field_ok :: "kernel_field_spec \<Rightarrow> bool" where
  "kernel_field_ok (K_args args) = (length args < 2 ^ 32 \<and> list_all arg_ok args)"
| "kernel_field_ok (K_name n) = (length n < 2 ^ 32)"
| "kernel_field_ok (K_other f) =
     (length (fst f) < 2 ^ 32 \<and> encodable (snd f) \<and> fst f \<noteq> ''.args'' \<and> fst f \<noteq> ''.name'')"

definition kernel_ok :: "kernel_field_spec list \<Rightarrow> bool" where
  "kernel_ok ks \<longleftrightarrow> length ks < 2 ^ 32 \<and> list_all kernel_field_ok ks"

fun metadata_entry_ok :: "metadata_spec \<Rightarrow> bool" where
  "metadata_entry_ok (M_kernels kss) = (length kss < 2 ^ 32 \<and> list_all kernel_ok kss)"
| "metadata_entry_ok (M_other f) =
     (length (fst f) < 2 ^ 32 \<and> encodable (snd f) \<and> fst f \<noteq> ''amdhsa.kernels'')"

definition metadata_ok :: "metadata_spec list \<Rightarrow> bool" where
  "metadata_ok ms \<longleftrightarrow> length ms < 2 ^ 32 \<and> list_all metadata_entry_ok ms"

section \<open>What a tree means\<close>

fun apply_field :: "field \<Rightarrow> ArgInfo \<Rightarrow> ArgInfo" where
  "apply_field (k, v) info = (case v of
      V_Str s \<Rightarrow>
        if k = ''.address_space'' then info\<lparr>address_space := string_of s\<rparr>
        else if k = ''.value_kind'' \<and> s \<noteq> [] then info\<lparr>value_kind := string_of s\<rparr>
        else if k = ''.access'' \<and> s \<noteq> [] then info\<lparr>access := string_of s\<rparr>
        else info
    | V_Uint n \<Rightarrow>
        if k = ''.size'' then info\<lparr>info_size := n\<rparr>
        else if k = ''.offset'' then info\<lparr>info_offset := n\<rparr>
        else info
    | _ \<Rightarrow> info)"

definition arg_of :: "ArgInfo \<Rightarrow> field list \<Rightarrow> ArgInfo" where
  "arg_of fresh fs = fold apply_field fs (init_info fresh)"

fun kernel_name_of :: "string \<Rightarrow> kernel_field_spec list \<Rightarrow> string" where
  "kernel_name_of n [] = n"
| "kernel_name_of n (K_name m # ks) = kernel_name_of m ks"
| "kernel_name_of n (_ # ks) = kernel_name_of n ks"

fun kernel_args_of :: "(field list \<Rightarrow> ArgInfo) \<Rightarrow> kernel_field_spec list \<Rightarrow> ArgInfo list" where
  "kernel_args_of spec [] = []"
| "kernel_args_of spec (K_args args # ks) = map spec args @ kernel_args_of spec ks"
| "kernel_args_of spec (_ # ks) = kernel_args_of spec ks"

text \<open>
  The table of a file: \<open>store\<close> adds a kernel under its name; a kernel without a name gets the
  name of the one before it.
\<close>

fun kernels_table :: "(string \<Rightarrow> ArgInfo list \<Rightarrow> 't \<Rightarrow> 't) \<Rightarrow> (field list \<Rightarrow> ArgInfo)
    \<Rightarrow> string \<Rightarrow> kernel_field_spec list list \<Rightarrow> 't \<Rightarrow> 't" where
  "kernels_table store spec n [] t = t"
| "kernels_table store spec n (ks # kss) t =
     kernels_table store spec (kernel_name_of n ks) kss
       (store (kernel_name_of n ks) (kernel_args_of spec ks) t)"

fun metadata_table :: "(string \<Rightarrow> ArgInfo list \<Rightarrow> 't \<Rightarrow> 't) \<Rightarrow> (field list \<Rightarrow> ArgInfo)
    \<Rightarrow> metadata_spec list \<Rightarrow> 't \<Rightarrow> 't" where
  "metadata_table store spec [] t = t"
| "metadata_table store spec (M_kernels kss # ms) t =
     metadata_table store spec ms (kernels_table store spec [] kss t)"
| "metadata_table store spec (M_other f # ms) t = metadata_table store spec ms t"

text \<open>Equal but for the index, which only \<open>getArgInfo\<close> sets and nothing reads.\<close>

definition same_layout :: "ArgInfo \<Rightarrow> ArgInfo \<Rightarrow> bool" where
  "same_layout a b \<longleftrightarrow> a\<lparr>info_index := 0\<rparr> = b\<lparr>info_index := 0\<rparr>"

section \<open>Decoding keys and fields\<close>

lemma bytes_of_inverse [simp]: "string_of (bytes_of s) = s"
  by (induction s) (simp_all add: string_of_def bytes_of_def unsigned_of_nat take_bit_eq_mod)

lemma length_bytes_of [simp]: "length (bytes_of s) = length s"
  by (simp add: bytes_of_def)

lemma decode_str_value [simp]:
  assumes "length s < 2 ^ 32"
  shows "mp_decode_str (encode_value (V_Str s) @ r) = Inr (s, r)"
  using strings_roundtrip [OF assms refl, of r] by (auto simp: written_def)

lemma decode_key [simp]:
  "length k < 2 ^ 32 \<Longrightarrow> mp_decode_str (encode_key k @ r) = Inr (bytes_of k, r)"
  unfolding encode_key_def by (rule decode_str_value) simp

lemma decode_uint_value [simp]: "mp_decode_uint (encode_value (V_Uint n) @ r) = Inr (n, r)"
  by (simp add: uint_item.dec_enc)

lemma next_value [simp]: "encodable v \<Longrightarrow> mp_next (encode_value v @ r) = Inr r"
  by (simp add: next_skips_value)

lemma decode_count [simp]:
  "n < 2 ^ 32 \<Longrightarrow> mp_decode_array (mp_encode_array [] (word_of_nat n) @ r) = Inr (word_of_nat n, r)"
  "n < 2 ^ 32 \<Longrightarrow> mp_decode_map (mp_encode_map [] (word_of_nat n) @ r) = Inr (word_of_nat n, r)"
  by (simp_all add: array_item.dec_enc map_item.dec_enc)

lemma unat_count: "n < 2 ^ 32 \<Longrightarrow> unat (word_of_nat n :: u32) = n"
  by (simp add: unsigned_of_nat take_bit_nat_eq_self)

lemma arg_field_encoded:
  assumes "field_ok f"
  shows "arg_field (info, encode_field f @ r) = Inr (apply_field f info, r)"
proof (cases f)
  case (Pair k v)
  consider (str) s where "k \<in> {''.address_space'', ''.value_kind'', ''.access''}" "v = V_Str s" "length s < 2 ^ 32"
    | (uint) n where "k \<in> {''.size'', ''.offset''}" "v = V_Uint n"
    | (other) "k \<notin> {''.address_space'', ''.value_kind'', ''.access'', ''.size'', ''.offset''}"
    using assms Pair by (fastforce simp: field_ok_def)
  then show ?thesis
  proof cases
    case str
    with assms Pair show ?thesis
      by (auto simp: field_ok_def encode_field_def arg_field_def simp del: encode_value.simps)
  next
    case uint
    with assms Pair show ?thesis
      by (auto simp: field_ok_def encode_field_def arg_field_def simp del: encode_value.simps)
  next
    case other
    then have "apply_field (k, v) info = info" by (cases v) auto
    with other assms Pair show ?thesis
      by (simp add: field_ok_def encode_field_def arg_field_def del: apply_field.simps encode_value.simps)
  qed
qed

text \<open>A counted sequence of encodings is read element by element.\<close>

lemma for_loop_encoded:
  assumes "\<And>i x s r. x \<in> set xs \<Longrightarrow> f i (s, enc x @ r) = Inr (g i x s, r)"
  shows "for_loop i (length xs) f (s, concat (map enc xs) @ r) = Inr (fold (\<lambda>(j, x). g j x) (enumerate i xs) s, r)"
  using assms
proof (induction xs arbitrary: i s)
  case (Cons x xs)
  then show ?case by (simp del: append_assoc add: append_assoc [of "enc x"])
qed simp

lemma fold_apply_index:
  "same_layout a b \<Longrightarrow> same_layout (fold (\<lambda>(j, f) info. apply_field f (info\<lparr>info_index := word_of_nat j\<rparr>)) (enumerate i fs) a)
      (fold apply_field fs b)"
proof (induction fs arbitrary: a b i)
  case (Cons f fs)
  have "same_layout (apply_field f (a\<lparr>info_index := word_of_nat i\<rparr>)) (apply_field f b)"
    using Cons.prems by (cases f; cases a; cases b) (auto simp: same_layout_def split: mp_value.splits)
  from Cons.IH [OF this] show ?case by simp
qed simp

section \<open>The contract of an argument reader\<close>

locale arg_reader =
  fixes arg :: "ArgInfo list \<times> bytes \<Rightarrow> mp_error + ArgInfo list \<times> bytes"
    and spec :: "field list \<Rightarrow> ArgInfo"
  assumes arg_encoded: "arg_ok fs \<Longrightarrow>
    \<exists>info. arg (infos, encode_arg fs @ r) = Inr (infos @ [info], r) \<and> same_layout info (spec fs)"
begin

lemma args_encoded:
  "list_all arg_ok args \<Longrightarrow> list_all2 same_layout infos sinfos \<Longrightarrow>
    \<exists>infos'. for_loop i (length args) (\<lambda>i s. arg s) (infos, concat (map encode_arg args) @ r) = Inr (infos', r)
      \<and> list_all2 same_layout infos' (sinfos @ map spec args)"
proof (induction args arbitrary: i infos sinfos)
  case (Cons a args)
  from Cons.prems obtain info where info: "arg (infos, encode_arg a @ concat (map encode_arg args) @ r)
      = Inr (infos @ [info], concat (map encode_arg args) @ r)" "same_layout info (spec a)"
    using arg_encoded [of a infos "concat (map encode_arg args) @ r"] by auto
  have "list_all2 same_layout (infos @ [info]) (sinfos @ [spec a])"
    using Cons.prems(2) info(2) by (simp add: list_all2_appendI)
  from Cons.IH [OF _ this, of "Suc i"] Cons.prems(1) info(1) show ?case by simp
qed simp

lemma kernel_fields_encoded:
  "list_all kernel_field_ok ks \<Longrightarrow> list_all2 same_layout infos sinfos \<Longrightarrow>
    \<exists>infos'. for_loop i (length ks) (\<lambda>i s. kernel_field arg s) (n, infos, concat (map encode_kernel_field ks) @ r)
        = Inr (kernel_name_of n ks, infos', r)
      \<and> list_all2 same_layout infos' (sinfos @ kernel_args_of spec ks)"
proof (induction ks arbitrary: i n infos sinfos)
  case (Cons k ks)
  let ?rest = "concat (map encode_kernel_field ks) @ r"
  show ?case
  proof (cases k)
    case (K_args args)
    with Cons.prems obtain infos' where infos': "for_loop 0 (length args) (\<lambda>i s. arg s) (infos, concat (map encode_arg args) @ ?rest)
        = Inr (infos', ?rest)" "list_all2 same_layout infos' (sinfos @ map spec args)"
      using args_encoded [of args infos sinfos 0 ?rest] by auto
    from Cons.IH [OF _ infos'(2), of "Suc i" n] Cons.prems(1) infos'(1) K_args show ?thesis
      by (auto simp: kernel_field_def unat_count)
  next
    case (K_name m)
    with Cons.IH [OF _ Cons.prems(2), of "Suc i" m] Cons.prems(1) show ?thesis
      by (auto simp: kernel_field_def)
  next
    case (K_other f)
    with Cons.IH [OF _ Cons.prems(2), of "Suc i" n] Cons.prems(1) show ?thesis
      by (auto simp: kernel_field_def encode_field_def)
  qed
qed simp

end

interpretation new_reader: arg_reader "getArgInfo_arg fresh" "arg_of fresh" for fresh
proof
  fix fs infos r assume ok: "arg_ok fs"
  show "\<exists>info. getArgInfo_arg fresh (infos, encode_arg fs @ r) = Inr (infos @ [info], r) \<and> same_layout info (arg_of fresh fs)"
    using ok for_loop_encoded [of fs "\<lambda>i (info, r). arg_field (info\<lparr>info_index := word_of_nat i\<rparr>, r)" encode_field
        "\<lambda>i f info. apply_field f (info\<lparr>info_index := word_of_nat i\<rparr>)" 0 "init_info fresh" r]
      fold_apply_index [of "init_info fresh" "init_info fresh" 0 fs]
    by (simp add: getArgInfo_arg_def encode_arg_def arg_ok_def unat_count arg_field_encoded list_all_iff
        arg_of_def same_layout_def)
qed

interpretation old_reader: arg_reader "oldGetArgInfo_arg fresh" "arg_of fresh" for fresh
proof
  fix fs infos r assume ok: "arg_ok fs"
  have "fold (\<lambda>(j, x). apply_field x) (enumerate i fs) s = fold apply_field fs s" for i s
    by (induction fs arbitrary: i s) simp_all
  then show "\<exists>info. oldGetArgInfo_arg fresh (infos, encode_arg fs @ r) = Inr (infos @ [info], r) \<and> same_layout info (arg_of fresh fs)"
    using ok for_loop_encoded [of fs "\<lambda>i s. arg_field s" encode_field "\<lambda>i f info. apply_field f info" 0 "init_info fresh" r]
    by (simp add: oldGetArgInfo_arg_def encode_arg_def arg_ok_def unat_count arg_field_encoded list_all_iff
        arg_of_def same_layout_def)
qed

section \<open>The contract of a table reader\<close>

locale table_reader =
  fixes kern :: "string \<times> 't \<times> bytes \<Rightarrow> mp_error + string \<times> 't \<times> bytes"
    and store :: "string \<Rightarrow> ArgInfo list \<Rightarrow> 't \<Rightarrow> 't"
    and spec :: "field list \<Rightarrow> ArgInfo"
    and agree :: "'t \<Rightarrow> 't \<Rightarrow> bool"
  assumes kern_encoded: "kernel_ok ks \<Longrightarrow> agree t st \<Longrightarrow>
    \<exists>t'. kern (n, t, encode_kernel ks @ r) = Inr (kernel_name_of n ks, t', r)
      \<and> agree t' (store (kernel_name_of n ks) (kernel_args_of spec ks) st)"
begin

lemma kernels_encoded:
  "list_all kernel_ok kss \<Longrightarrow> agree t st \<Longrightarrow>
    \<exists>n' t'. for_loop i (length kss) (\<lambda>i s. kern s) (n, t, concat (map encode_kernel kss) @ r) = Inr (n', t', r)
      \<and> agree t' (kernels_table store spec n kss st)"
proof (induction kss arbitrary: i n t st)
  case (Cons ks kss)
  from Cons.prems obtain t1 where t1: "kern (n, t, encode_kernel ks @ concat (map encode_kernel kss) @ r)
      = Inr (kernel_name_of n ks, t1, concat (map encode_kernel kss) @ r)"
    "agree t1 (store (kernel_name_of n ks) (kernel_args_of spec ks) st)"
    using kern_encoded [of ks t st n "concat (map encode_kernel kss) @ r"] by auto
  from Cons.IH [OF _ t1(2), of "Suc i" "kernel_name_of n ks"] Cons.prems(1) t1(1) show ?case by simp
qed simp

lemma entries_encoded:
  "list_all metadata_entry_ok ms \<Longrightarrow> agree t st \<Longrightarrow>
    \<exists>t'. for_loop i (length ms) (\<lambda>i s. metadata_entry kern s) (t, concat (map encode_metadata_entry ms) @ r) = Inr (t', r)
      \<and> agree t' (metadata_table store spec ms st)"
proof (induction ms arbitrary: i t st)
  case (Cons m ms)
  let ?rest = "concat (map encode_metadata_entry ms) @ r"
  show ?case
  proof (cases m)
    case (M_kernels kss)
    with Cons.prems obtain n' t' where t': "for_loop 0 (length kss) (\<lambda>i s. kern s) ([], t, concat (map encode_kernel kss) @ ?rest)
        = Inr (n', t', ?rest)" "agree t' (kernels_table store spec [] kss st)"
      using kernels_encoded [of kss t st 0 "[]" ?rest] by auto
    from Cons.IH [OF _ t'(2), of "Suc i"] Cons.prems(1) t'(1) M_kernels show ?thesis
      by (auto simp: metadata_entry_def unat_count)
  next
    case (M_other f)
    with Cons.IH [OF _ Cons.prems(2), of "Suc i"] Cons.prems(1) show ?thesis
      by (auto simp: metadata_entry_def encode_field_def)
  qed
qed simp

lemma metadata_encoded:
  assumes "metadata_ok ms" "agree t st"
  shows "\<exists>t'. read_metadata kern (encode_metadata ms @ r) t = Inr t' \<and> agree t' (metadata_table store spec ms st)"
  using assms entries_encoded [of ms t st 0 r]
  by (auto simp: read_metadata_def encode_metadata_def metadata_ok_def unat_count)

end

lemma store_args_layout:
  "list_all2 same_layout infos sinfos \<Longrightarrow> store_args n i infos t = store_args n i sinfos t"
proof (induction infos sinfos arbitrary: i t rule: list_all2_induct)
  case (Cons a as b bs)
  then have "size_offset_of a = size_offset_of b"
    by (cases a; cases b) (simp add: same_layout_def size_offset_of_def)
  then show ?case unfolding store_args.simps by (simp only: Cons.IH)
qed simp

interpretation hash_table: table_reader "getArgInfo_kernel fresh" store_kernel "arg_of fresh" "(=)" for fresh
proof
  fix ks t st n r
  assume "kernel_ok ks" "t = (st :: argument_sizes)"
  then show "\<exists>t'. getArgInfo_kernel fresh (n, t, encode_kernel ks @ r) = Inr (kernel_name_of n ks, t', r)
      \<and> t' = store_kernel (kernel_name_of n ks) (kernel_args_of (arg_of fresh) ks) st"
    using new_reader.kernel_fields_encoded [of ks "[]" "[]" 0 fresh n r]
    by (auto simp: getArgInfo_kernel_def encode_kernel_def kernel_ok_def unat_count store_kernel_def
        store_args_layout list_all2_lengthD)
qed

text \<open>The name map of replay: equal up to the unset index of the arguments.\<close>

definition same_layouts :: "names_to_info \<Rightarrow> names_to_info \<Rightarrow> bool" where
  "same_layouts t st \<longleftrightarrow> (\<forall>n. rel_option (list_all2 same_layout) (t n) (st n))"

definition store_names :: "string \<Rightarrow> ArgInfo list \<Rightarrow> names_to_info \<Rightarrow> names_to_info" where
  "store_names n infos t = t(n \<mapsto> infos)"

interpretation name_table: table_reader "oldGetArgInfo_kernel fresh" store_names "arg_of fresh" same_layouts for fresh
proof
  fix ks t st n r
  assume "kernel_ok ks" "same_layouts t st"
  then show "\<exists>t'. oldGetArgInfo_kernel fresh (n, t, encode_kernel ks @ r) = Inr (kernel_name_of n ks, t', r)
      \<and> same_layouts t' (store_names (kernel_name_of n ks) (kernel_args_of (arg_of fresh) ks) st)"
    using old_reader.kernel_fields_encoded [of ks "[]" "[]" 0 fresh n r]
    by (auto simp: oldGetArgInfo_kernel_def encode_kernel_def kernel_ok_def unat_count same_layouts_def
        store_names_def)
qed

section \<open>Notes\<close>

text \<open>\<open>add_note\<close> of the ELF library: the bytes it appends to the section.\<close>

definition pad4 :: "nat \<Rightarrow> bytes" where
  "pad4 n = (if n mod 4 \<noteq> 0 then replicate (4 - n mod 4) 0 else [])"

definition add_note :: "u32 \<Rightarrow> string \<Rightarrow> bytes \<Rightarrow> bytes" where
  "add_note type name desc =
     (let nameLen = word_of_nat (length name) + 1 :: u32; descSize = word_of_nat (length desc) :: u32
      in le_bytes 4 nameLen @ le_bytes 4 descSize @ le_bytes 4 type @ bytes_of name @ [0] @ pad4 (unat nameLen)
         @ (if descSize \<noteq> 0 then desc @ pad4 (unat descSize) else []))"

lemma word_at_le_bytes:
  "word_at (le_bytes 4 w @ rest) 0 = w"
  "length a = n \<Longrightarrow> word_at (a @ le_bytes 4 w @ rest) n = w"
  by (simp_all add: word_at_def le_word_le_bytes)

lemma padded_count:
  assumes "n + 3 < 2 ^ 32"
  shows "padded (word_of_nat n) = 4 * ((n + 3) div 4)"
proof -
  have "word_of_nat n + 4 - 1 = (word_of_nat (n + 3) :: u32)" by simp
  moreover have "unat (word_of_nat (n + 3) :: u32) = n + 3" using assms by (rule unat_count)
  ultimately show ?thesis unfolding padded_def by (simp only: unat_div) simp
qed

lemma length_pad4: "n + length (pad4 n) = 4 * ((n + 3) div 4)"
proof -
  have "n mod 4 < 4" by simp
  then show ?thesis using div_mult_mod_eq [of n 4] by (simp add: pad4_def) presburger
qed

lemma length_add_note:
  assumes "length name + 4 < 2 ^ 32" "length desc + 3 < 2 ^ 32" "desc \<noteq> []"
  shows "length (add_note type name desc)
    = 12 + padded (word_of_nat (length name) + 1) + padded (word_of_nat (length desc))"
proof -
  have n: "word_of_nat (length name) + 1 = (word_of_nat (length name + 1) :: u32)" by simp
  have "word_of_nat (length desc) \<noteq> (0 :: u32)"
    using assms by (metis unat_count unat_0 length_0_conv add_lessD1)
  moreover have "unat (word_of_nat (length name + 1) :: u32) = length name + 1"
    "unat (word_of_nat (length desc) :: u32) = length desc"
    using assms by (simp_all add: unat_count del: of_nat_add of_nat_Suc)
  ultimately show ?thesis unfolding add_note_def n
    using assms length_pad4 [of "length name + 1"] length_pad4 [of "length desc"]
      padded_count [of "length name + 1"] padded_count [of "length desc"]
    by (simp add: Let_def del: of_nat_add of_nat_Suc)
qed

lemma word_at_append: "word_at (before @ x) (length before + k) = word_at x k"
  by (simp add: word_at_def)

lemma note_found:
  assumes "length name + 4 < 2 ^ 32" "length desc + 3 < 2 ^ 32" "desc \<noteq> []"
  shows "get_note (before @ add_note type name desc @ after) (length before)
        = Inr (type, name, desc @ pad4 (length desc) @ after)
    \<and> process_section (before @ add_note type name desc @ after) (length before)
        = length before # process_section (before @ add_note type name desc @ after)
            (length before + length (add_note type name desc))"
proof -
  let ?namesz = "word_of_nat (length name) + 1 :: u32" and ?descsz = "word_of_nat (length desc) :: u32"
  define body where "body = desc @ pad4 (length desc)"
  define head where "head = le_bytes 4 ?namesz @ le_bytes 4 ?descsz @ le_bytes 4 type @ bytes_of name @ [0] @ pad4 (length name + 1)"
  have n: "?namesz = word_of_nat (length name + 1)" by simp
  have sizes: "unat ?namesz = length name + 1" "unat ?descsz = length desc" "?descsz \<noteq> 0" "\<not> ?namesz < 1"
  proof -
    show "unat ?namesz = length name + 1" "unat ?descsz = length desc"
      unfolding n using assms by (simp_all add: unat_count del: of_nat_add of_nat_Suc)
    then show "?descsz \<noteq> 0" "\<not> ?namesz < 1"
      using assms(3) by (auto simp: word_less_nat_alt)
  qed
  have enc: "add_note type name desc = head @ body"
    by (simp add: add_note_def Let_def sizes head_def body_def)
  have head: "length head = 12 + padded ?namesz"
    unfolding head_def n using assms length_pad4 [of "length name + 1"] padded_count [of "length name + 1"]
    by (simp del: of_nat_add of_nat_Suc)
  have len: "length (head @ body) = 12 + padded ?namesz + padded ?descsz"
    using length_add_note [OF assms, of type] by (simp add: enc)
  have body: "length desc \<le> length body" by (simp add: body_def)
  have head_len: "length name + 13 \<le> length head" by (simp add: head_def)
  with body have fits: "length name + 1 + length desc + 12 \<le> length (head @ body)" by simp
  have words: "word_at (head @ x) 0 = ?namesz" "word_at (head @ x) 4 = ?descsz" "word_at (head @ x) 8 = type" for x
    by (simp_all add: head_def word_at_def le_word_le_bytes)
  have name: "take (length name) (drop 12 (head @ x)) = bytes_of name" for x
    by (simp add: head_def)
  have string: "map (\<lambda>b. char_of (unat b)) (bytes_of name) = name"
    using bytes_of_inverse [of name] by (simp add: string_of_def)
  note at = word_at_append [of before _ 0, simplified] word_at_append
  have "drop (length before + 12 + padded ?namesz) (before @ head @ body @ after) = body @ after"
    using head by (simp add: add.assoc)
  then have get: "get_note (before @ head @ body @ after) (length before) = Inr (type, name, body @ after)"
    using fits sizes head_len name [of "[]"] by (simp add: get_note_def Let_def at words string)
  have scan: "process_section (before @ head @ body @ after) (length before)
      = length before # process_section (before @ head @ body @ after) (length before + length (head @ body))"
    using len by (subst process_section.simps) (simp add: Let_def at words)
  show ?thesis using get scan by (simp add: enc body_def)
qed



section \<open>The tables of a code object\<close>

lemma read_one_note:
  assumes "length name + 4 < 2 ^ 32" "length desc + 3 < 2 ^ 32" "desc \<noteq> []"
  shows "read_notes kern (add_note type name desc) (process_section (add_note type name desc) 0) t
    = metadata_error (read_metadata kern (desc @ pad4 (length desc)) t)"
proof -
  have "process_section (add_note type name desc) (length (add_note type name desc)) = []"
    by (subst process_section.simps) simp
  then show ?thesis using note_found [OF assms, of "[]" type "[]"]
    by (cases "read_metadata kern (desc @ pad4 (length desc)) t") (simp_all add: metadata_error_def)
qed

lemmas encode_defs = encode_metadata_def encode_kernel_def encode_arg_def encode_field_def encode_key_def

lemma encode_metadata_nonempty: "encode_metadata ms \<noteq> []"
proof -
  have "0 < unat (mp_sizeof_map n)" for n by (simp add: mp_sizeof_map_def)
  then have "mp_encode_map [] n \<noteq> []" for n
    using map_item.enc_size [OF TrueI, of n] by (metis length_greater_0_conv)
  then show ?thesis by (simp add: encode_metadata_def)
qed

text \<open>
  C16: \<open>getArgInfo\<close> on a code object whose note holds well-formed kernel metadata, with the
  fields of kernels and arguments in any order and any number of other fields, succeeds and
  stores, for every kernel in order, the size and offset of each argument under its hash (size
  0 when its kind is hidden) and the number of arguments under the hash of the kernel's name.
\<close>

theorem getArgInfo_table:
  assumes "metadata_ok ms" "length name + 4 < 2 ^ 32" "length (encode_metadata ms) + 3 < 2 ^ 32"
  shows "getArgInfo fresh [\<lparr>sec_type = SHT_NOTE, sec_data = add_note type name (encode_metadata ms)\<rparr>] t
    = Inr (metadata_table store_kernel (arg_of fresh) ms t)"
  using hash_table.metadata_encoded [OF assms(1), of t t fresh "pad4 (length (encode_metadata ms))"]
  by (simp add: getArgInfo_def read_one_note [OF assms(2,3) encode_metadata_nonempty] metadata_error_def)

theorem getArgInfo_table_witness:
  "getArgInfo \<lparr>info_index = 0, address_space = [], info_size = 7, info_offset = 7, value_kind = [], access = []\<rparr>
      [\<lparr>sec_type = SHT_NOTE, sec_data = add_note 32 ''AMDGPU''
        (encode_metadata [M_kernels [[K_name ''k'', K_args [[(''.offset'', V_Uint 0), (''.size'', V_Uint 8),
           (''.type_name'', V_Nil)]]]]])\<rparr>] Map.empty
    = Inr (store_kernel ''k'' [\<lparr>info_index = 0, address_space = [], info_size = 8, info_offset = 0,
        value_kind = [], access = []\<rparr>] Map.empty)"
proof -
  let ?ms = "[M_kernels [[K_name ''k'', K_args [[(''.offset'', V_Uint 0), (''.size'', V_Uint 8), (''.type_name'', V_Nil)]]]]]"
  have "metadata_ok ?ms" by (simp add: metadata_ok_def kernel_ok_def arg_ok_def field_ok_def)
  moreover have "length (encode_metadata ?ms) + 3 < 2 ^ 32"
    by (simp add: encode_defs mp_encode_defs codec_simps written_def mp_encode_str_def)
  ultimately show ?thesis by (subst getArgInfo_table) (simp_all add: arg_of_def init_info_def)
qed

text \<open>
  On the same metadata \<open>oldGetArgInfo\<close> succeeds and maps every kernel's name to the layout
  of its arguments, so that capture and replay see the same sizes, offsets and kinds.
\<close>

theorem oldGetArgInfo_table:
  assumes "metadata_ok ms" "length name + 4 < 2 ^ 32" "length (encode_metadata ms) + 3 < 2 ^ 32"
  shows "\<exists>t'. oldGetArgInfo fresh [\<lparr>sec_type = SHT_NOTE, sec_data = add_note type name (encode_metadata ms)\<rparr>] t = Inr t'
    \<and> same_layouts t' (metadata_table store_names (arg_of fresh) ms t)"
proof -
  have "same_layouts t t"
    by (auto simp: same_layouts_def same_layout_def option.rel_refl list.rel_refl)
  from name_table.metadata_encoded [OF assms(1) this, of fresh "pad4 (length (encode_metadata ms))"]
  show ?thesis
    by (auto simp: oldGetArgInfo_def read_one_note [OF assms(2,3) encode_metadata_nonempty] metadata_error_def)
qed

theorem oldGetArgInfo_table_witness:
  "\<exists>t'. oldGetArgInfo \<lparr>info_index = 0, address_space = [], info_size = 7, info_offset = 7, value_kind = [], access = []\<rparr>
      [\<lparr>sec_type = SHT_NOTE, sec_data = add_note 32 ''AMDGPU''
        (encode_metadata [M_kernels [[K_name ''k'', K_args [[(''.size'', V_Uint 8)]]]]])\<rparr>] Map.empty = Inr t'
    \<and> same_layouts t' [''k'' \<mapsto> [\<lparr>info_index = 0, address_space = [], info_size = 8, info_offset = 7,
        value_kind = [], access = []\<rparr>]]"
proof -
  let ?ms = "[M_kernels [[K_name ''k'', K_args [[(''.size'', V_Uint 8)]]]]]"
  let ?fresh = "\<lparr>info_index = 0, address_space = [], info_size = 7, info_offset = 7, value_kind = [], access = []\<rparr>"
  have ok: "metadata_ok ?ms" by (simp add: metadata_ok_def kernel_ok_def arg_ok_def field_ok_def)
  have len: "length (encode_metadata ?ms) + 3 < 2 ^ 32"
    by (simp add: encode_defs mp_encode_defs codec_simps written_def mp_encode_str_def)
  from oldGetArgInfo_table [OF ok _ len, of "''AMDGPU''" ?fresh 32 Map.empty] show ?thesis
    by (simp add: arg_of_def init_info_def store_names_def)
qed

lemma to_string_not_Nil: "to_string n \<noteq> []"
  by (subst to_string.simps) simp

lemma arg_key_inject [simp]: "arg_key k i = arg_key k j \<longleftrightarrow> i = j" "arg_key k i \<noteq> k"
  by (simp_all add: arg_key_def to_string_not_Nil)

lemma store_args_other:
  "h \<notin> (\<lambda>j. key_hash (arg_key k j)) ` {i..<i + length infos} \<Longrightarrow> store_args k i infos t h = t h"
proof (induction infos arbitrary: i t)
  case (Cons a infos)
  from Cons.prems have "h \<noteq> key_hash (arg_key k i)" by auto
  moreover have "h \<notin> (\<lambda>j. key_hash (arg_key k j)) ` {Suc i..<Suc i + length infos}"
    using Cons.prems by auto
  ultimately show ?case unfolding store_args.simps by (subst Cons.IH) simp_all
qed simp

lemma store_args_at:
  "inj_on (\<lambda>j. key_hash (arg_key k j)) {i..<i + length infos} \<Longrightarrow> j < length infos \<Longrightarrow>
    store_args k i infos t (key_hash (arg_key k (i + j))) = Some (size_offset_of (infos ! j))"
proof (induction infos arbitrary: i j t)
  case (Cons a infos)
  show ?case
  proof (cases j)
    case 0
    have "key_hash (arg_key k i) \<notin> (\<lambda>j. key_hash (arg_key k j)) ` {Suc i..<Suc i + length infos}"
    proof
      assume "key_hash (arg_key k i) \<in> (\<lambda>j. key_hash (arg_key k j)) ` {Suc i..<Suc i + length infos}"
      then obtain m where "m \<in> {Suc i..<Suc i + length infos}" "key_hash (arg_key k i) = key_hash (arg_key k m)"
        by blast
      with inj_onD [OF Cons.prems(1), of i m] show False by auto
    qed
    with 0 show ?thesis unfolding store_args.simps by (subst store_args_other) simp_all
  next
    case (Suc j')
    have "inj_on (\<lambda>j. key_hash (arg_key k j)) {Suc i..<Suc i + length infos}"
      by (rule inj_on_subset [OF Cons.prems(1)]) auto
    from Cons.IH [OF this, of j'] Suc Cons.prems(2) show ?thesis unfolding store_args.simps by simp
  qed
qed simp

text \<open>
  when the hash separates the keys of a kernel, the table holds after storing it exactly
  what capture looks up: the count under the name, and the layout of each argument under the
  name followed by its number.
\<close>

theorem store_kernel_lookup:
  assumes "inj_on key_hash (insert k (arg_key k ` {0..<length infos}))" "i < length infos"
  shows "store_kernel k infos t (key_hash (arg_key k i)) = Some (size_offset_of (infos ! i))
    \<and> store_kernel k infos t (key_hash k) = Some \<lparr>so_size = word_of_nat (length infos), so_offset = 0\<rparr>"
proof -
  have "inj_on (key_hash \<circ> arg_key k) {0..<length infos}"
    by (rule comp_inj_on) (auto intro: inj_onI inj_on_subset [OF assms(1)])
  then have inj: "inj_on (\<lambda>j. key_hash (arg_key k j)) {0..<0 + length infos}" by (simp add: comp_def)
  have "key_hash (arg_key k i) \<noteq> key_hash k"
  proof
    assume "key_hash (arg_key k i) = key_hash k"
    with inj_onD [OF assms(1), of "arg_key k i" k] assms(2) show False by auto
  qed
  then show ?thesis using store_args_at [OF inj assms(2), of t] by (simp add: store_kernel_def)
qed

theorem store_kernel_lookup_witness:
  "store_kernel ''k'' [\<lparr>info_index = 0, address_space = [], info_size = 8, info_offset = 16,
        value_kind = [], access = []\<rparr>] Map.empty (key_hash ''k0'') = Some \<lparr>so_size = 8, so_offset = 16\<rparr>"
proof -
  let ?infos = "[\<lparr>info_index = 0, address_space = [], info_size = 8, info_offset = 16, value_kind = [], access = []\<rparr>]"
  have key: "arg_key ''k'' 0 = ''k0''" by code_simp
  have "key_hash ''k'' \<noteq> key_hash ''k0''" by code_simp
  then have "inj_on key_hash (insert ''k'' (arg_key ''k'' ` {0..<length ?infos}))"
    by (simp add: key)
  from store_kernel_lookup [OF this, of 0 Map.empty] show ?thesis
    by (simp add: key size_offset_of_def contains_def)
qed

text \<open>
  The keys of arguments and of kernels share one space: storing a kernel named like the
  key of an argument of an earlier kernel replaces that argument's layout by the new kernel's
  argument count, so that capture copies the argument with a wrong size from offset 0.
\<close>

theorem argument_key_collision:
  "store_kernel (arg_key k i) infos' (store_kernel k infos t) (key_hash (arg_key k i))
    = Some \<lparr>so_size = word_of_nat (length infos'), so_offset = 0\<rparr>"
  by (simp add: store_kernel_def)

end
