(* ===== verification/Capture.thy ===== *)
theory Capture
  imports Trace_Types
begin

text \<open>
  The wrappers of \<^verbatim>\<open>hip/hip.cpp\<close> that take the place of the HIP functions in the traced
  application: each calls the function of the real library and appends one event to the queue.
  The real library is the record of functions \<open>hip_runtime\<close>; it acts on an unknown world \<open>'w\<close>
  (device, driver and the memory of the application). A freshly declared \<^verbatim>\<open>gputrace_event\<close> is not
  initialised: its contents are the argument \<open>ev\<close> of every wrapper.
\<close>

section \<open>The real library and the state of the tracer\<close>

text \<open>
  A function returns its error code and the new world, which includes what it wrote through a
  pointer. \<open>host_read\<close> is what \<^verbatim>\<open>memcpy\<close> reads from an address of the application and
  \<open>host_read_ptr\<close> the pointer stored there; the null pointer is 0.
\<close>

record 'w hip_runtime =
  rt_hipMalloc :: "u64 \<Rightarrow> u64 \<Rightarrow> 'w \<Rightarrow> u32 \<times> 'w"
  rt_hipFree :: "u64 \<Rightarrow> 'w \<Rightarrow> u32 \<times> 'w"
  rt_hipMemcpy :: "u64 \<Rightarrow> u64 \<Rightarrow> u64 \<Rightarrow> u32 \<Rightarrow> 'w \<Rightarrow> u32 \<times> 'w"
  rt_hipMemcpyWithStream :: "u64 \<Rightarrow> u64 \<Rightarrow> u64 \<Rightarrow> u32 \<Rightarrow> u64 \<Rightarrow> 'w \<Rightarrow> u32 \<times> 'w"
  rt_hipStreamCreate :: "u64 \<Rightarrow> 'w \<Rightarrow> u32 \<times> 'w"
  rt_hipStreamDestroy :: "u64 \<Rightarrow> 'w \<Rightarrow> u32 \<times> 'w"
  rt_hipStreamSynchronize :: "u64 \<Rightarrow> 'w \<Rightarrow> u32 \<times> 'w"
  rt_hipDeviceSynchronize :: "'w \<Rightarrow> u32 \<times> 'w"
  rt_hipGetDevice :: "u64 \<Rightarrow> 'w \<Rightarrow> u32 \<times> 'w"
  rt_hipGetDeviceCount :: "u64 \<Rightarrow> 'w \<Rightarrow> u32 \<times> 'w"
  rt_hipGetDeviceProperties :: "u64 \<Rightarrow> u32 \<Rightarrow> 'w \<Rightarrow> u32 \<times> 'w"
  rt_hipLaunchKernel :: "u64 \<Rightarrow> dim3 \<Rightarrow> dim3 \<Rightarrow> u64 list \<Rightarrow> u64 \<Rightarrow> u64 \<Rightarrow> 'w \<Rightarrow> u32 \<times> 'w"
  rt_hipKernelNameRefByPtr :: "u64 \<Rightarrow> u64 \<Rightarrow> string"
  host_read_ptr :: "'w \<Rightarrow> u64 \<Rightarrow> u64"
  host_read :: "'w \<Rightarrow> u64 \<Rightarrow> nat \<Rightarrow> bytes"
  c_hipMemcpyHostToDevice :: u32
  c_hipMemcpyDeviceToHost :: u32
  c_hipStreamDefault :: u64

record hiptracer_state =
  tool :: HIPTRACER_TOOL
  curr_event :: u32
  events_queue :: "gputrace_event list"
  writer_started :: bool
  notified :: bool

text \<open>\<^verbatim>\<open>get_curr_event()++\<close> on an \<^verbatim>\<open>atomic<int>\<close>, and its conversion to the 64-bit event number.\<close>

definition next_event_id :: "hiptracer_state \<Rightarrow> u64 \<times> hiptracer_state" where
  "next_event_id st = (scast (curr_event st), st\<lparr>curr_event := curr_event st + 1\<rparr>)"

text \<open>
  \<open>pushback_event\<close> starts the writer thread on its first call, warns once when the queue is full
  and pushes; \<open>None\<close> means that the push spins because the queue, of capacity \<open>cap\<close>, is full.
\<close>

definition pushback_event :: "nat \<Rightarrow> gputrace_event \<Rightarrow> hiptracer_state \<Rightarrow> hiptracer_state option" where
  "pushback_event cap event st =
     (if tool st = TOOL_BININT then Some st
      else
        let st = (if \<not> writer_started st then st\<lparr>writer_started := True\<rparr> else st);
            st = (if \<not> notified st \<and> length (events_queue st) \<ge> cap then st\<lparr>notified := True\<rparr> else st)
        in if length (events_queue st) \<ge> cap then None
           else Some (st\<lparr>events_queue := events_queue st @ [event]\<rparr>))"

section \<open>The wrappers\<close>

text \<open>Each returns the result of the real call, the new world and the new state of the tracer.\<close>

definition hipStreamCreate ::
  "'w hip_runtime \<Rightarrow> nat \<Rightarrow> gputrace_event \<Rightarrow> u64 \<Rightarrow> 'w \<times> hiptracer_state
    \<Rightarrow> (u32 \<times> 'w \<times> hiptracer_state) option" where
  "hipStreamCreate rt cap ev stream = (\<lambda>(w, st).
     let (result, w) = rt_hipStreamCreate rt stream w
     in if tool st = TOOL_CAPTURE then
          let (n, st) = next_event_id st;
              event = ev\<lparr>event_id := n, event_name := ''hipStreamCreate'', event_rc := result\<rparr>;
              event = (if stream \<noteq> 0 then event\<lparr>event_stream := host_read_ptr rt w stream\<rparr> else event);
              event = event\<lparr>event_type := EVENT_STREAM\<rparr>
          in map_option (\<lambda>st. (result, w, st)) (pushback_event cap event st)
        else Some (result, w, st))"

text \<open>
  \<^verbatim>\<open>hipStreamCreateWithFlags\<close> calls itself where the other wrappers call the function pointer
  of the real library.
\<close>

partial_function (option) hipStreamCreateWithFlags ::
  "'w hip_runtime \<Rightarrow> nat \<Rightarrow> gputrace_event \<Rightarrow> u64 \<Rightarrow> u32 \<Rightarrow> 'w \<times> hiptracer_state
    \<Rightarrow> (u32 \<times> 'w \<times> hiptracer_state) option" where
  "hipStreamCreateWithFlags rt cap ev stream flags s =
     Option.bind (hipStreamCreateWithFlags rt cap ev stream flags s) (\<lambda>(result, w, st).
       if tool st = TOOL_CAPTURE then
         let (n, st) = next_event_id st;
             event = ev\<lparr>event_id := n, event_name := ''hipStreamCreateWithFlags'', event_rc := result\<rparr>;
             event = (if stream \<noteq> 0 then event\<lparr>event_stream := host_read_ptr rt w stream\<rparr> else event);
             event = event\<lparr>event_type := EVENT_STREAM\<rparr>
         in map_option (\<lambda>st. (result, w, st)) (pushback_event cap event st)
       else Some (result, w, st))"

definition hipStreamDestroy ::
  "'w hip_runtime \<Rightarrow> nat \<Rightarrow> gputrace_event \<Rightarrow> u64 \<Rightarrow> 'w \<times> hiptracer_state
    \<Rightarrow> (u32 \<times> 'w \<times> hiptracer_state) option" where
  "hipStreamDestroy rt cap ev stream = (\<lambda>(w, st).
     let (result, w) = rt_hipStreamDestroy rt stream w;
         (n, st) = next_event_id st;
         event = ev\<lparr>event_id := n, event_name := ''hipStreamDestroy'', event_rc := result,
           event_stream := stream, event_type := EVENT_STREAM\<rparr>
     in map_option (\<lambda>st. (result, w, st)) (pushback_event cap event st))"

definition hipGetDevice ::
  "'w hip_runtime \<Rightarrow> nat \<Rightarrow> gputrace_event \<Rightarrow> u64 \<Rightarrow> 'w \<times> hiptracer_state
    \<Rightarrow> (u32 \<times> 'w \<times> hiptracer_state) option" where
  "hipGetDevice rt cap ev deviceId = (\<lambda>(w, st).
     let (result, w) = rt_hipGetDevice rt deviceId w;
         (n, st) = next_event_id st;
         event = ev\<lparr>event_id := n, event_name := ''hipGetDevice'', event_rc := result,
           event_stream := c_hipStreamDefault rt, event_type := EVENT_DEVICE\<rparr>
     in map_option (\<lambda>st. (result, w, st)) (pushback_event cap event st))"

definition hipGetDeviceCount ::
  "'w hip_runtime \<Rightarrow> nat \<Rightarrow> gputrace_event \<Rightarrow> u64 \<Rightarrow> 'w \<times> hiptracer_state
    \<Rightarrow> (u32 \<times> 'w \<times> hiptracer_state) option" where
  "hipGetDeviceCount rt cap ev count = (\<lambda>(w, st).
     let (result, w) = rt_hipGetDeviceCount rt count w;
         (n, st) = next_event_id st;
         event = ev\<lparr>event_id := n, event_name := ''hipGetDeviceCount'', event_rc := result,
           event_stream := c_hipStreamDefault rt, event_type := EVENT_DEVICE\<rparr>
     in map_option (\<lambda>st. (result, w, st)) (pushback_event cap event st))"

definition hipStreamSynchronize ::
  "'w hip_runtime \<Rightarrow> nat \<Rightarrow> gputrace_event \<Rightarrow> u64 \<Rightarrow> 'w \<times> hiptracer_state
    \<Rightarrow> (u32 \<times> 'w \<times> hiptracer_state) option" where
  "hipStreamSynchronize rt cap ev stream = (\<lambda>(w, st).
     let (result, w) = rt_hipStreamSynchronize rt stream w;
         (n, st) = next_event_id st;
         event = ev\<lparr>event_id := n, event_name := ''hipStreamSynchronize'', event_rc := result,
           event_stream := stream, event_type := EVENT_SYNC\<rparr>
     in map_option (\<lambda>st. (result, w, st)) (pushback_event cap event st))"

definition hipDeviceSynchronize ::
  "'w hip_runtime \<Rightarrow> nat \<Rightarrow> gputrace_event \<Rightarrow> 'w \<times> hiptracer_state
    \<Rightarrow> (u32 \<times> 'w \<times> hiptracer_state) option" where
  "hipDeviceSynchronize rt cap ev = (\<lambda>(w, st).
     let (result, w) = rt_hipDeviceSynchronize rt w;
         (n, st) = next_event_id st;
         event = ev\<lparr>event_id := n, event_name := ''hipDeviceSynchronize'', event_rc := result,
           event_stream := c_hipStreamDefault rt, event_type := EVENT_SYNC\<rparr>
     in map_option (\<lambda>st. (result, w, st)) (pushback_event cap event st))"

definition hipFree ::
  "'w hip_runtime \<Rightarrow> nat \<Rightarrow> gputrace_event \<Rightarrow> u64 \<Rightarrow> 'w \<times> hiptracer_state
    \<Rightarrow> (u32 \<times> 'w \<times> hiptracer_state) option" where
  "hipFree rt cap ev p = (\<lambda>(w, st).
     let (result, w) = rt_hipFree rt p w;
         (n, st) = next_event_id st;
         event = ev\<lparr>event_id := n, event_name := ''hipFree'', event_rc := result,
           event_stream := c_hipStreamDefault rt, event_type := EVENT_FREE,
           event_data := Data_free \<lparr>free_p = p\<rparr>\<rparr>
     in map_option (\<lambda>st. (result, w, st)) (pushback_event cap event st))"

definition hipMalloc ::
  "'w hip_runtime \<Rightarrow> nat \<Rightarrow> gputrace_event \<Rightarrow> u64 \<Rightarrow> u64 \<Rightarrow> 'w \<times> hiptracer_state
    \<Rightarrow> (u32 \<times> 'w \<times> hiptracer_state) option" where
  "hipMalloc rt cap ev p sz = (\<lambda>(w, st).
     let (result, w) = rt_hipMalloc rt p sz w;
         (n, st) = next_event_id st;
         event = ev\<lparr>event_id := n, event_type := EVENT_MALLOC, event_name := ''hipMalloc'',
           event_rc := result, event_stream := c_hipStreamDefault rt,
           event_data := Data_malloc \<lparr>malloc_p = (if p = 0 then 0 else host_read_ptr rt w p), malloc_size = sz\<rparr>\<rparr>
     in map_option (\<lambda>st. (result, w, st)) (pushback_event cap event st))"

text \<open>The data of a copy: the source is saved only for a copy from the host to the device.\<close>

definition memcpy_event_data :: "'w hip_runtime \<Rightarrow> 'w \<Rightarrow> u64 \<Rightarrow> u64 \<Rightarrow> u64 \<Rightarrow> u32 \<Rightarrow> gputrace_data" where
  "memcpy_event_data rt w dst src sz kind =
     Data_memcpy \<lparr>memcpy_dst = dst, memcpy_src = src, memcpy_size = sz, memcpy_kind = kind,
       memcpy_hostdata = (if kind = c_hipMemcpyHostToDevice rt then host_read rt w src (unat sz) else [])\<rparr>"

definition hipMemcpy ::
  "'w hip_runtime \<Rightarrow> nat \<Rightarrow> gputrace_event \<Rightarrow> u64 \<Rightarrow> u64 \<Rightarrow> u64 \<Rightarrow> u32 \<Rightarrow> 'w \<times> hiptracer_state
    \<Rightarrow> (u32 \<times> 'w \<times> hiptracer_state) option" where
  "hipMemcpy rt cap ev dst src sz kind = (\<lambda>(w, st).
     let (result, w) = rt_hipMemcpy rt dst src sz kind w;
         (n, st) = next_event_id st;
         event = ev\<lparr>event_id := n, event_name := ''hipMemcpy'', event_rc := result,
           event_stream := c_hipStreamDefault rt, event_type := EVENT_MEMCPY,
           event_data := memcpy_event_data rt w dst src sz kind\<rparr>
     in map_option (\<lambda>st. (result, w, st)) (pushback_event cap event st))"

text \<open>The recorded stream of \<^verbatim>\<open>hipMemcpyWithStream\<close> is the default one, not the argument.\<close>

definition hipMemcpyWithStream ::
  "'w hip_runtime \<Rightarrow> nat \<Rightarrow> gputrace_event \<Rightarrow> u64 \<Rightarrow> u64 \<Rightarrow> u64 \<Rightarrow> u32 \<Rightarrow> u64 \<Rightarrow> 'w \<times> hiptracer_state
    \<Rightarrow> (u32 \<times> 'w \<times> hiptracer_state) option" where
  "hipMemcpyWithStream rt cap ev dst src sz kind stream = (\<lambda>(w, st).
     let (result, w) = rt_hipMemcpyWithStream rt dst src sz kind stream w;
         (n, st) = next_event_id st;
         event = ev\<lparr>event_id := n, event_name := ''hipMemcpyWithStream'', event_rc := result,
           event_stream := c_hipStreamDefault rt, event_type := EVENT_MEMCPY,
           event_data := memcpy_event_data rt w dst src sz kind\<rparr>
     in map_option (\<lambda>st. (result, w, st)) (pushback_event cap event st))"

definition hipGetDeviceProperties ::
  "'w hip_runtime \<Rightarrow> nat \<Rightarrow> gputrace_event \<Rightarrow> u64 \<Rightarrow> u32 \<Rightarrow> 'w \<times> hiptracer_state
    \<Rightarrow> (u32 \<times> 'w \<times> hiptracer_state) option" where
  "hipGetDeviceProperties rt cap ev p_prop device = (\<lambda>(w, st).
     let (result, w) = rt_hipGetDeviceProperties rt p_prop device w;
         (n, st) = next_event_id st;
         event = ev\<lparr>event_id := n, event_name := ''hipGetDeviceProperties'', event_rc := result,
           event_stream := c_hipStreamDefault rt, event_type := EVENT_DEVICE\<rparr>
     in map_option (\<lambda>st. (result, w, st)) (pushback_event cap event st))"

lemmas wrapper_defs = hipStreamCreate_def hipStreamDestroy_def hipGetDevice_def hipGetDeviceCount_def
  hipStreamSynchronize_def hipDeviceSynchronize_def hipFree_def hipMalloc_def hipMemcpy_def
  hipMemcpyWithStream_def hipGetDeviceProperties_def

section \<open>What a wrapper promises\<close>

datatype hip_call = Call_Malloc u64 u64 | Call_Free u64 | Call_Memcpy u64 u64 u64 u32
  | Call_MemcpyWithStream u64 u64 u64 u32 u64 | Call_StreamCreate u64 | Call_StreamDestroy u64
  | Call_StreamSynchronize u64 | Call_DeviceSynchronize | Call_GetDevice u64
  | Call_GetDeviceCount u64 | Call_GetDeviceProperties u64 u32

text \<open>The call as the application makes it without the tracer, and through the wrapper.\<close>

fun bare_call :: "'w hip_runtime \<Rightarrow> hip_call \<Rightarrow> 'w \<Rightarrow> u32 \<times> 'w" where
  "bare_call rt (Call_Malloc p sz) w = rt_hipMalloc rt p sz w"
| "bare_call rt (Call_Free p) w = rt_hipFree rt p w"
| "bare_call rt (Call_Memcpy dst src sz kind) w = rt_hipMemcpy rt dst src sz kind w"
| "bare_call rt (Call_MemcpyWithStream dst src sz kind stream) w = rt_hipMemcpyWithStream rt dst src sz kind stream w"
| "bare_call rt (Call_StreamCreate stream) w = rt_hipStreamCreate rt stream w"
| "bare_call rt (Call_StreamDestroy stream) w = rt_hipStreamDestroy rt stream w"
| "bare_call rt (Call_StreamSynchronize stream) w = rt_hipStreamSynchronize rt stream w"
| "bare_call rt Call_DeviceSynchronize w = rt_hipDeviceSynchronize rt w"
| "bare_call rt (Call_GetDevice p) w = rt_hipGetDevice rt p w"
| "bare_call rt (Call_GetDeviceCount p) w = rt_hipGetDeviceCount rt p w"
| "bare_call rt (Call_GetDeviceProperties p d) w = rt_hipGetDeviceProperties rt p d w"

fun traced_call :: "'w hip_runtime \<Rightarrow> nat \<Rightarrow> gputrace_event \<Rightarrow> hip_call \<Rightarrow> 'w \<times> hiptracer_state
    \<Rightarrow> (u32 \<times> 'w \<times> hiptracer_state) option" where
  "traced_call rt cap ev (Call_Malloc p sz) = hipMalloc rt cap ev p sz"
| "traced_call rt cap ev (Call_Free p) = hipFree rt cap ev p"
| "traced_call rt cap ev (Call_Memcpy dst src sz kind) = hipMemcpy rt cap ev dst src sz kind"
| "traced_call rt cap ev (Call_MemcpyWithStream dst src sz kind stream) = hipMemcpyWithStream rt cap ev dst src sz kind stream"
| "traced_call rt cap ev (Call_StreamCreate stream) = hipStreamCreate rt cap ev stream"
| "traced_call rt cap ev (Call_StreamDestroy stream) = hipStreamDestroy rt cap ev stream"
| "traced_call rt cap ev (Call_StreamSynchronize stream) = hipStreamSynchronize rt cap ev stream"
| "traced_call rt cap ev Call_DeviceSynchronize = hipDeviceSynchronize rt cap ev"
| "traced_call rt cap ev (Call_GetDevice p) = hipGetDevice rt cap ev p"
| "traced_call rt cap ev (Call_GetDeviceCount p) = hipGetDeviceCount rt cap ev p"
| "traced_call rt cap ev (Call_GetDeviceProperties p d) = hipGetDeviceProperties rt cap ev p d"

text \<open>The specification of the recorded event.\<close>

fun call_name :: "hip_call \<Rightarrow> string" where
  "call_name (Call_Malloc p sz) = ''hipMalloc''"
| "call_name (Call_Free p) = ''hipFree''"
| "call_name (Call_Memcpy dst src sz kind) = ''hipMemcpy''"
| "call_name (Call_MemcpyWithStream dst src sz kind stream) = ''hipMemcpyWithStream''"
| "call_name (Call_StreamCreate stream) = ''hipStreamCreate''"
| "call_name (Call_StreamDestroy stream) = ''hipStreamDestroy''"
| "call_name (Call_StreamSynchronize stream) = ''hipStreamSynchronize''"
| "call_name Call_DeviceSynchronize = ''hipDeviceSynchronize''"
| "call_name (Call_GetDevice p) = ''hipGetDevice''"
| "call_name (Call_GetDeviceCount p) = ''hipGetDeviceCount''"
| "call_name (Call_GetDeviceProperties p d) = ''hipGetDeviceProperties''"

fun call_type :: "hip_call \<Rightarrow> HIP_EVENT" where
  "call_type (Call_Malloc p sz) = EVENT_MALLOC"
| "call_type (Call_Free p) = EVENT_FREE"
| "call_type (Call_Memcpy dst src sz kind) = EVENT_MEMCPY"
| "call_type (Call_MemcpyWithStream dst src sz kind stream) = EVENT_MEMCPY"
| "call_type (Call_StreamCreate stream) = EVENT_STREAM"
| "call_type (Call_StreamDestroy stream) = EVENT_STREAM"
| "call_type (Call_StreamSynchronize stream) = EVENT_SYNC"
| "call_type Call_DeviceSynchronize = EVENT_SYNC"
| "call_type (Call_GetDevice p) = EVENT_DEVICE"
| "call_type (Call_GetDeviceCount p) = EVENT_DEVICE"
| "call_type (Call_GetDeviceProperties p d) = EVENT_DEVICE"

text \<open>The world \<open>w\<close> is the one after the call: the pointer that \<^verbatim>\<open>hipMalloc\<close> returned is read from it.\<close>

fun call_data :: "'w hip_runtime \<Rightarrow> gputrace_event \<Rightarrow> 'w \<Rightarrow> hip_call \<Rightarrow> gputrace_data" where
  "call_data rt ev w (Call_Malloc p sz) =
     Data_malloc \<lparr>malloc_p = (if p = 0 then 0 else host_read_ptr rt w p), malloc_size = sz\<rparr>"
| "call_data rt ev w (Call_Free p) = Data_free \<lparr>free_p = p\<rparr>"
| "call_data rt ev w (Call_Memcpy dst src sz kind) = memcpy_event_data rt w dst src sz kind"
| "call_data rt ev w (Call_MemcpyWithStream dst src sz kind stream) = memcpy_event_data rt w dst src sz kind"
| "call_data rt ev w _ = event_data ev"

fun call_stream :: "'w hip_runtime \<Rightarrow> gputrace_event \<Rightarrow> 'w \<Rightarrow> hip_call \<Rightarrow> u64" where
  "call_stream rt ev w (Call_StreamCreate stream) =
     (if stream \<noteq> 0 then host_read_ptr rt w stream else event_stream ev)"
| "call_stream rt ev w (Call_StreamDestroy stream) = stream"
| "call_stream rt ev w (Call_StreamSynchronize stream) = stream"
| "call_stream rt ev w _ = c_hipStreamDefault rt"

definition call_event :: "'w hip_runtime \<Rightarrow> gputrace_event \<Rightarrow> u32 \<Rightarrow> u32 \<Rightarrow> 'w \<Rightarrow> hip_call \<Rightarrow> gputrace_event" where
  "call_event rt ev n result w call =
     \<lparr>event_id = scast n, event_rc = result, event_stream = call_stream rt ev w call,
      event_name = call_name call, event_type = call_type call, event_data = call_data rt ev w call\<rparr>"

text \<open>A queue with room, in capture mode: the push appends.\<close>

lemma pushback_event_room:
  "tool st = TOOL_CAPTURE \<Longrightarrow> length (events_queue st) < cap \<Longrightarrow>
    pushback_event cap e st = Some (st\<lparr>writer_started := True, events_queue := events_queue st @ [e]\<rparr>)"
  by (simp add: pushback_event_def Let_def)

lemma traced_call_room:
  assumes "tool st = TOOL_CAPTURE" "length (events_queue st) < cap" "bare_call rt call w = (result, w')"
  shows "traced_call rt cap ev call (w, st) = Some (result, w', st\<lparr>writer_started := True,
    curr_event := curr_event st + 1,
    events_queue := events_queue st @ [call_event rt ev (curr_event st) result w' call]\<rparr>)"
  using assms
  by (cases call) (simp_all add: wrapper_defs next_event_id_def pushback_event_room call_event_def)

section \<open>Runs of the application\<close>

fun bare_run :: "'w hip_runtime \<Rightarrow> hip_call list \<Rightarrow> 'w \<Rightarrow> u32 list \<times> 'w" where
  "bare_run rt [] w = ([], w)"
| "bare_run rt (c # cs) w =
     (let (r, w) = bare_call rt c w; (rs, w) = bare_run rt cs w in (r # rs, w))"

fun traced_run :: "'w hip_runtime \<Rightarrow> nat \<Rightarrow> gputrace_event \<Rightarrow> hip_call list \<Rightarrow> 'w \<times> hiptracer_state
    \<Rightarrow> (u32 list \<times> 'w \<times> hiptracer_state) option" where
  "traced_run rt cap ev [] s = Some ([], s)"
| "traced_run rt cap ev (c # cs) s =
     Option.bind (traced_call rt cap ev c s) (\<lambda>(r, s).
       map_option (\<lambda>(rs, s). (r # rs, s)) (traced_run rt cap ev cs s))"

fun run_events :: "'w hip_runtime \<Rightarrow> gputrace_event \<Rightarrow> u32 \<Rightarrow> hip_call list \<Rightarrow> 'w \<Rightarrow> gputrace_event list" where
  "run_events rt ev n [] w = []"
| "run_events rt ev n (c # cs) w =
     (let (r, w) = bare_call rt c w in call_event rt ev n r w c # run_events rt ev (n + 1) cs w)"

lemma traced_run_room:
  assumes "tool st = TOOL_CAPTURE" "length (events_queue st) + length cs \<le> cap"
  shows "\<exists>st'. traced_run rt cap ev cs (w, st) = Some (fst (bare_run rt cs w), snd (bare_run rt cs w), st')
    \<and> events_queue st' = events_queue st @ run_events rt ev (curr_event st) cs w
    \<and> curr_event st' = curr_event st + word_of_nat (length cs) \<and> tool st' = TOOL_CAPTURE"
  using assms
proof (induction cs arbitrary: w st)
  case (Cons c cs)
  obtain r w1 where b: "bare_call rt c w = (r, w1)" by (cases "bare_call rt c w")
  let ?st1 = "st\<lparr>writer_started := True, curr_event := curr_event st + 1,
    events_queue := events_queue st @ [call_event rt ev (curr_event st) r w1 c]\<rparr>"
  have room: "length (events_queue st) < cap" using Cons.prems(2) by simp
  have "traced_call rt cap ev c (w, st) = Some (r, w1, ?st1)"
    by (rule traced_call_room [OF Cons.prems(1) room b])
  moreover from Cons.IH [of ?st1 w1] Cons.prems obtain st' where
    "traced_run rt cap ev cs (w1, ?st1) = Some (fst (bare_run rt cs w1), snd (bare_run rt cs w1), st')"
    "events_queue st' = events_queue ?st1 @ run_events rt ev (curr_event ?st1) cs w1"
    "curr_event st' = curr_event ?st1 + word_of_nat (length cs)" "tool st' = TOOL_CAPTURE" by auto
  ultimately show ?case by (simp add: b split: prod.split)
qed simp

lemma run_events_shape:
  "length (run_events rt ev n cs w) = length cs"
  "map event_name (run_events rt ev n cs w) = map call_name cs"
  "map event_type (run_events rt ev n cs w) = map call_type cs"
  "map event_id (run_events rt ev n cs w) = map (\<lambda>i. scast (n + word_of_nat i)) [0..<length cs]"
proof (induction cs arbitrary: n w)
  case (Cons c cs)
  {
    case 4
    have "map (\<lambda>i. scast (n + word_of_nat i)) [0..<Suc (length cs)]
        = scast n # map (\<lambda>i. scast (n + 1 + word_of_nat i) :: u64) [0..<length cs]"
      by (simp only: upt_conv_Cons zero_less_Suc map_Suc_upt [symmetric] map_map comp_def list.map)
        (simp add: add.assoc)
    then show ?case using Cons.IH(4) [of "n + 1"] by (simp add: call_event_def split: prod.split)
  }
qed (simp_all add: call_event_def split: prod.split)

text \<open>A runtime whose calls all succeed and that counts two of them, used by the witnesses.\<close>

definition sample_runtime :: "nat hip_runtime" where
  "sample_runtime = \<lparr>rt_hipMalloc = \<lambda>p sz w. (0, w + 1), rt_hipFree = \<lambda>p w. (0, w),
    rt_hipMemcpy = \<lambda>d s n k w. (0, w), rt_hipMemcpyWithStream = \<lambda>d s n k t w. (0, w),
    rt_hipStreamCreate = \<lambda>p w. (0, w), rt_hipStreamDestroy = \<lambda>p w. (0, w),
    rt_hipStreamSynchronize = \<lambda>p w. (0, w), rt_hipDeviceSynchronize = \<lambda>w. (0, w + 1),
    rt_hipGetDevice = \<lambda>p w. (0, w), rt_hipGetDeviceCount = \<lambda>p w. (0, w),
    rt_hipGetDeviceProperties = \<lambda>p d w. (0, w), rt_hipLaunchKernel = \<lambda>f g b a n t w. (0, w),
    rt_hipKernelNameRefByPtr = \<lambda>f t. [], host_read_ptr = \<lambda>w p. 4096, host_read = \<lambda>w a n. replicate n 0,
    c_hipMemcpyHostToDevice = 1, c_hipMemcpyDeviceToHost = 2, c_hipStreamDefault = 0\<rparr>"



text \<open>
  in binary instrumentation mode no wrapper records anything: the queue is unchanged and
  results and world are those of the untraced application, whatever the state of the queue.
\<close>

theorem binint_records_nothing:
  assumes "tool st = TOOL_BININT"
  shows "\<exists>st'. traced_run rt cap ev cs (w, st) = Some (fst (bare_run rt cs w), snd (bare_run rt cs w), st')
    \<and> events_queue st' = events_queue st \<and> tool st' = TOOL_BININT"
  using assms
proof (induction cs arbitrary: w st)
  case (Cons c cs)
  obtain r w1 where b: "bare_call rt c w = (r, w1)" by (cases "bare_call rt c w")
  with Cons.prems obtain st1 where st1: "traced_call rt cap ev c (w, st) = Some (r, w1, st1)"
    "events_queue st1 = events_queue st" "tool st1 = TOOL_BININT"
    by (cases c) (simp_all add: wrapper_defs next_event_id_def pushback_event_def)
  from Cons.IH [OF st1(3), of w1] st1 b show ?case by (auto split: prod.split)
qed simp

theorem binint_records_nothing_witness:
  "\<exists>st'. traced_run sample_runtime 0 \<lparr>event_id = 9, event_rc = 9, event_stream = 9, event_name = [],
        event_type = EVENT_UNDEFINED, event_data = Data_free \<lparr>free_p = 9\<rparr>\<rparr> [Call_Malloc 16 64, Call_DeviceSynchronize]
       (0, \<lparr>tool = TOOL_BININT, curr_event = 0, events_queue = [], writer_started = False, notified = False\<rparr>)
       = Some ([0, 0], 2, st') \<and> events_queue st' = []"
  using binint_records_nothing [of "\<lparr>tool = TOOL_BININT, curr_event = 0, events_queue = [], writer_started = False, notified = False\<rparr>"
      sample_runtime 0 "\<lparr>event_id = 9, event_rc = 9, event_stream = 9, event_name = [],
        event_type = EVENT_UNDEFINED, event_data = Data_free \<lparr>free_p = 9\<rparr>\<rparr>" "[Call_Malloc 16 64, Call_DeviceSynchronize]" 0]
  by (auto simp: sample_runtime_def simp del: traced_run.simps)

text \<open>
  C36: \<open>hipStreamCreateWithFlags\<close> never returns: it calls itself before doing anything else.
\<close>

theorem hipStreamCreateWithFlags_diverges: "hipStreamCreateWithFlags rt cap ev stream flags s = None"
proof -
  have "False" if "hipStreamCreateWithFlags rt cap ev stream flags s = Some y" for y
    using that
    by (rule hipStreamCreateWithFlags.raw_induct [where P = "\<lambda>_ _ _ _ _ _ _. False", rotated])
      (auto simp: Option.bind_eq_Some_conv)
  then show ?thesis by (cases "hipStreamCreateWithFlags rt cap ev stream flags s") auto
qed

end
