(* ===== verification/Sqlite_Store.thy ===== *)
theory Sqlite_Store
  imports Trace_Types
begin

text \<open>
  The part of the embedded database (\<^verbatim>\<open>hip/sqlite3.c\<close>) that capture and replay call: binding
  values to the parameters of a prepared statement, reading columns of a result row, and the
  effect of the program's INSERT and SELECT statements on tables with an \<^verbatim>\<open>INTEGER PRIMARY KEY\<close>.
  A \<^verbatim>\<open>Mem\<close> is the datatype \<open>mem\<close>; the mutexes and the states of the virtual machine that never
  occur in the program's use (binding to a running statement, malloc failure) are left out.
\<close>

datatype mem = Mem_Null | Mem_Int u64 | Mem_Text string | Mem_Blob bytes

definition SQLITE_OK :: u32 where "SQLITE_OK = 0"
definition SQLITE_CONSTRAINT :: u32 where "SQLITE_CONSTRAINT = 19"
definition SQLITE_MISMATCH :: u32 where "SQLITE_MISMATCH = 20"
definition SQLITE_RANGE :: u32 where "SQLITE_RANGE = 25"
definition SQLITE_ROW :: u32 where "SQLITE_ROW = 100"
definition SQLITE_DONE :: u32 where "SQLITE_DONE = 101"

lemmas sqlite_codes = SQLITE_OK_def SQLITE_CONSTRAINT_def SQLITE_MISMATCH_def SQLITE_RANGE_def
  SQLITE_ROW_def SQLITE_DONE_def

section \<open>Parameters of a prepared statement\<close>

text \<open>A statement is its variables \<^verbatim>\<open>aVar\<close>; the parameter index counts from 1.\<close>

type_synonym stmt = "mem list"

definition vdbeUnbind :: "stmt \<Rightarrow> u32 \<Rightarrow> u32 \<times> stmt" where
  "vdbeUnbind p i =
     (if i \<ge> word_of_nat (length p) then (SQLITE_RANGE, p) else (SQLITE_OK, p[unat i := Mem_Null]))"

definition sqlite3_bind_int64 :: "stmt \<Rightarrow> u32 \<Rightarrow> u64 \<Rightarrow> u32 \<times> stmt" where
  "sqlite3_bind_int64 p i iValue =
     (let (rc, p) = vdbeUnbind p (i - 1)
      in if rc = SQLITE_OK then (rc, p[unat (i - 1) := Mem_Int iValue]) else (rc, p))"

text \<open>The \<^verbatim>\<open>int\<close> parameter sign-extends to \<^verbatim>\<open>i64\<close>.\<close>

definition sqlite3_bind_int :: "stmt \<Rightarrow> u32 \<Rightarrow> u32 \<Rightarrow> u32 \<times> stmt" where
  "sqlite3_bind_int p i iValue = sqlite3_bind_int64 p i (scast iValue)"

text \<open>A null pointer binds NULL; \<open>None\<close> is the null pointer.\<close>

definition bindText :: "stmt \<Rightarrow> u32 \<Rightarrow> mem option \<Rightarrow> u32 \<times> stmt" where
  "bindText p i zData =
     (let (rc, p) = vdbeUnbind p (i - 1)
      in if rc = SQLITE_OK then
           (case zData of None \<Rightarrow> (rc, p) | Some m \<Rightarrow> (rc, p[unat (i - 1) := m]))
         else (rc, p))"

definition sqlite3_bind_text :: "stmt \<Rightarrow> u32 \<Rightarrow> string \<Rightarrow> u32 \<times> stmt" where
  "sqlite3_bind_text p i zData = bindText p i (Some (Mem_Text (c_str zData)))"

text \<open>\<^verbatim>\<open>data()\<close> of an empty vector is the null pointer.\<close>

definition sqlite3_bind_blob :: "stmt \<Rightarrow> u32 \<Rightarrow> bytes \<Rightarrow> u32 \<times> stmt" where
  "sqlite3_bind_blob p i zData =
     bindText p i (if zData = [] then None else Some (Mem_Blob zData))"

definition sqlite3_clear_bindings :: "stmt \<Rightarrow> u32 \<times> stmt" where
  "sqlite3_clear_bindings p = (SQLITE_OK, map (\<lambda>_. Mem_Null) p)"

section \<open>Reading values\<close>

text \<open>
  The text branch of \<open>sqlite3VdbeIntValue\<close>: an optional sign and the leading digits of the
  text, saturated to 64 bits, as \<^verbatim>\<open>sqlite3Atoi64\<close> computes them for UTF-8.
\<close>

definition sqlite3Isspace :: "char \<Rightarrow> bool" where
  "sqlite3Isspace c \<longleftrightarrow> c \<in> {CHR '' '', CHR 0x09, CHR 0x0A, CHR 0x0B, CHR 0x0C, CHR 0x0D}"

definition is_digit :: "char \<Rightarrow> bool" where
  "is_digit c \<longleftrightarrow> 48 \<le> (of_char c :: nat) \<and> (of_char c :: nat) \<le> 57"

definition LARGEST_INT64 :: u64 where "LARGEST_INT64 = 0x7fffffffffffffff"
definition SMALLEST_INT64 :: u64 where "SMALLEST_INT64 = 0x8000000000000000"

text \<open>The sign of the comparison of a 19-digit number with \<open>9223372036854775808\<close>.\<close>

fun compare2pow63_loop :: "string \<Rightarrow> string \<Rightarrow> int" where
  "compare2pow63_loop (z # zs) (p # ps) =
     (let c = (of_char z - of_char p) * 10 in if c \<noteq> 0 then c else compare2pow63_loop zs ps)"
| "compare2pow63_loop zs [] = (case zs of [] \<Rightarrow> 0 | z # _ \<Rightarrow> of_char z - 56)"
| "compare2pow63_loop [] (p # ps) = 0"

definition compare2pow63 :: "string \<Rightarrow> int" where
  "compare2pow63 zNum = compare2pow63_loop zNum ''922337203685477580''"

definition sqlite3Atoi64 :: "string \<Rightarrow> u64" where
  "sqlite3Atoi64 z =
     (let z = dropWhile sqlite3Isspace z;
          neg = (z \<noteq> [] \<and> hd z = CHR ''-'');
          z = (if z \<noteq> [] \<and> (hd z = CHR ''-'' \<or> hd z = CHR ''+'') then tl z else z);
          z = dropWhile (\<lambda>c. c = CHR ''0'') z;
          ds = takeWhile is_digit z;
          u = foldl (\<lambda>u c. u * 10 + of_char c - 48) (0 :: u64) ds;
          v = (if u > LARGEST_INT64 then (if neg then SMALLEST_INT64 else LARGEST_INT64)
               else if neg then - u else u)
      in if length ds < 19 then v
         else let c = (if length ds > 19 then 1 else compare2pow63 ds)
              in if c < 0 then v else if neg then SMALLEST_INT64 else LARGEST_INT64)"

definition memIntValue :: "string \<Rightarrow> u64" where
  "memIntValue z = sqlite3Atoi64 z"

definition sqlite3VdbeIntValue :: "mem \<Rightarrow> u64" where
  "sqlite3VdbeIntValue m = (case m of
      Mem_Int i \<Rightarrow> i
    | Mem_Text z \<Rightarrow> memIntValue z
    | Mem_Blob b \<Rightarrow> memIntValue (map (\<lambda>c. char_of (unat c)) b)
    | Mem_Null \<Rightarrow> 0)"

text \<open>A result row: \<^verbatim>\<open>columnMem\<close> yields NULL outside it or when there is none.\<close>

type_synonym result_row = "mem list option"

definition columnMem :: "result_row \<Rightarrow> nat \<Rightarrow> mem" where
  "columnMem r i = (case r of None \<Rightarrow> Mem_Null | Some cs \<Rightarrow> if i < length cs then cs ! i else Mem_Null)"

definition sqlite3_column_int :: "result_row \<Rightarrow> nat \<Rightarrow> u32" where
  "sqlite3_column_int r i = ucast (sqlite3VdbeIntValue (columnMem r i))"

definition sqlite3_column_int64 :: "result_row \<Rightarrow> nat \<Rightarrow> u64" where
  "sqlite3_column_int64 r i = sqlite3VdbeIntValue (columnMem r i)"

text \<open>Text of a column; \<open>None\<close> is the null pointer that a NULL value gives.\<close>

definition sqlite3_column_text :: "result_row \<Rightarrow> nat \<Rightarrow> string option" where
  "sqlite3_column_text r i = (case columnMem r i of
      Mem_Text z \<Rightarrow> Some z
    | Mem_Blob b \<Rightarrow> Some (map (\<lambda>c. char_of (unat c)) b)
    | Mem_Int v \<Rightarrow> Some ((if sint v < 0 then ''-'' else []) @ to_string (nat \<bar>sint v\<bar>))
    | Mem_Null \<Rightarrow> None)"

definition sqlite3_column_blob :: "result_row \<Rightarrow> nat \<Rightarrow> bytes" where
  "sqlite3_column_blob r i = (case columnMem r i of
      Mem_Blob b \<Rightarrow> b
    | Mem_Null \<Rightarrow> []
    | _ \<Rightarrow> (case sqlite3_column_text r i of None \<Rightarrow> [] | Some z \<Rightarrow> map (\<lambda>c. word_of_nat (of_char c)) z))"

definition sqlite3_column_bytes :: "result_row \<Rightarrow> nat \<Rightarrow> u32" where
  "sqlite3_column_bytes r i = word_of_nat (length (sqlite3_column_blob r i))"

section \<open>Tables with an integer primary key\<close>

text \<open>
  A row maps column names to values; a table lists its rows with their keys in insertion order.
  Executing an INSERT that names its columns stores the bound values under these names. A NULL
  key is replaced by one more than the largest key, a key already present violates the
  constraint and changes nothing.
\<close>

type_synonym row = "(string \<times> mem) list"
type_synonym table = "(u64 \<times> row) list"
type_synonym database = "string \<Rightarrow> table"

definition column :: "row \<Rightarrow> string \<Rightarrow> mem" where
  "column r name = (case map_of r name of None \<Rightarrow> Mem_Null | Some m \<Rightarrow> m)"

definition new_rowid :: "table \<Rightarrow> u64" where
  "new_rowid t = (if t = [] then 1 else word_of_int (Max (set (map (sint \<circ> fst) t)) + 1))"

definition step_insert :: "string \<Rightarrow> string list \<Rightarrow> stmt \<Rightarrow> database \<Rightarrow> u32 \<times> database" where
  "step_insert tab cols p db =
     (let r = zip cols p
      in case column r ''Id'' of
           Mem_Int k \<Rightarrow> if k \<in> fst ` set (db tab) then (SQLITE_CONSTRAINT, db)
                        else (SQLITE_DONE, db(tab := db tab @ [(k, r)]))
         | Mem_Null \<Rightarrow> (SQLITE_DONE, db(tab := db tab @ [(new_rowid (db tab), r)]))
         | _ \<Rightarrow> (SQLITE_MISMATCH, db))"

text \<open>\<^verbatim>\<open>SELECT cols FROM tab WHERE Id = ?\<close>: the key column reads back as the key itself.\<close>

definition select_columns :: "u64 \<Rightarrow> row \<Rightarrow> string list \<Rightarrow> mem list" where
  "select_columns k r cols = map (\<lambda>c. if c = ''Id'' then Mem_Int k else column r c) cols"

definition step_select :: "string \<Rightarrow> string list \<Rightarrow> stmt \<Rightarrow> database \<Rightarrow> u32 \<times> result_row" where
  "step_select tab cols p db =
     (case p of
        [Mem_Int k] \<Rightarrow> (case map_of (db tab) k of
            None \<Rightarrow> (SQLITE_DONE, None)
          | Some r \<Rightarrow> (SQLITE_ROW, Some (select_columns k r cols)))
      | _ \<Rightarrow> (SQLITE_DONE, None))"

text \<open>\<^verbatim>\<open>SELECT cols FROM tab ORDER BY Id ASC\<close>: all rows by increasing signed key.\<close>

definition select_all :: "string \<Rightarrow> string list \<Rightarrow> database \<Rightarrow> mem list list" where
  "select_all tab cols db =
     map (\<lambda>(k, r). select_columns k r cols) (sort_key (sint \<circ> fst) (db tab))"

section \<open>Facts about binding and reading\<close>

named_theorems store_simps \<open>evaluation of binds, steps and column reads\<close>

lemma vdbeUnbind_ok:
  assumes "1 \<le> i" "unat i \<le> length p" "length p < 2 ^ 32"
  shows "vdbeUnbind p (i - 1) = (SQLITE_OK, p[unat i - 1 := Mem_Null])"
proof -
  have i: "unat (i - 1) = unat i - 1" "1 \<le> unat i"
    using assms(1) by (simp_all add: unat_minus_one word_le_nat_alt word_less_nat_alt unat_sub)
  have "unat (word_of_nat (length p) :: u32) = length p"
    using assms(3) by (simp add: unsigned_of_nat take_bit_nat_eq_self)
  moreover have "\<not> length p \<le> unat i - 1" using i(2) assms(2) by linarith
  ultimately show ?thesis using i(1) by (simp add: vdbeUnbind_def word_le_nat_alt)
qed

lemma bind_ok [store_simps]:
  assumes "1 \<le> i" "unat i \<le> length p" "length p < 2 ^ 32"
  shows "sqlite3_bind_int64 p i v = (SQLITE_OK, p[unat i - 1 := Mem_Int v])"
    "sqlite3_bind_int p i w = (SQLITE_OK, p[unat i - 1 := Mem_Int (scast w)])"
    "sqlite3_bind_text p i z = (SQLITE_OK, p[unat i - 1 := Mem_Text (c_str z)])"
    "sqlite3_bind_blob p i b = (SQLITE_OK, p[unat i - 1 := (if b = [] then Mem_Null else Mem_Blob b)])"
proof -
  have "unat (i - 1) = unat i - 1"
    using assms(1) by (simp add: unat_minus_one word_le_nat_alt word_less_nat_alt unat_sub)
  then show "sqlite3_bind_int64 p i v = (SQLITE_OK, p[unat i - 1 := Mem_Int v])"
    "sqlite3_bind_int p i w = (SQLITE_OK, p[unat i - 1 := Mem_Int (scast w)])"
    "sqlite3_bind_text p i z = (SQLITE_OK, p[unat i - 1 := Mem_Text (c_str z)])"
    "sqlite3_bind_blob p i b = (SQLITE_OK, p[unat i - 1 := (if b = [] then Mem_Null else Mem_Blob b)])"
    using assms by (simp_all add: sqlite3_bind_int64_def sqlite3_bind_int_def sqlite3_bind_text_def
        sqlite3_bind_blob_def bindText_def vdbeUnbind_ok)
qed

lemma length_bindings [simp]: "length (snd (sqlite3_clear_bindings p)) = length p"
  by (simp add: sqlite3_clear_bindings_def)

lemma read_int [store_simps]:
  "i < length cs \<Longrightarrow> cs ! i = Mem_Int v \<Longrightarrow> sqlite3_column_int (Some cs) i = ucast v"
  "i < length cs \<Longrightarrow> cs ! i = Mem_Int v \<Longrightarrow> sqlite3_column_int64 (Some cs) i = v"
  "i < length cs \<Longrightarrow> cs ! i = Mem_Text z \<Longrightarrow> sqlite3_column_text (Some cs) i = Some z"
  "i < length cs \<Longrightarrow> cs ! i = Mem_Blob b \<Longrightarrow> sqlite3_column_blob (Some cs) i = b"
  "i < length cs \<Longrightarrow> cs ! i = Mem_Null \<Longrightarrow> sqlite3_column_blob (Some cs) i = []"
  by (simp_all add: sqlite3_column_int_def sqlite3_column_int64_def sqlite3_column_text_def
      sqlite3_column_blob_def columnMem_def sqlite3VdbeIntValue_def)

lemma ucast_scast_int [simp]: "ucast (scast (w :: u32) :: u64) = w"
  by (rule bit_word_eqI) (simp add: bit_simps)

end
