(* ===== verification/Event_Writer.thy ===== *)
theory Event_Writer
  imports Sqlite_Store
begin

text \<open>
  The writer of the capture library (\<^verbatim>\<open>hip/hip.cpp\<close>): the six INSERT statements that
  \<open>prepare_events\<close> compiles, the \<^verbatim>\<open>insert_*\<close> functions that bind an event to them, and the body
  of its loop, which stores one event. The working directory is a map from file names to contents
  in which every \<^verbatim>\<open>fopen\<close> for writing succeeds.
\<close>

type_synonym files = "string \<Rightarrow> bytes option"

section \<open>Statements\<close>

definition eventSql :: "string \<times> string list" where
  "eventSql = (''Events'', [''EventType'', ''Name'', ''Rc'', ''Stream'', ''Id''])"

definition memcpySql :: "string \<times> string list" where
  "memcpySql = (''EventMemcpy'', [''Id'', ''Stream'', ''Dst'', ''Src'', ''Size'', ''Kind'', ''HostData''])"

definition mallocSql :: "string \<times> string list" where
  "mallocSql = (''EventMalloc'', [''Id'', ''Stream'', ''Ptr'', ''Size''])"

definition launchSql :: "string \<times> string list" where
  "launchSql = (''EventLaunch'', [''Id'', ''Stream'', ''KernelName'', ''NumX'', ''NumY'', ''NumZ'',
     ''DimX'', ''DimY'', ''DimZ'', ''SharedMem'', ''ArgData''])"

definition freeSql :: "string \<times> string list" where
  "freeSql = (''EventFree'', [''Id'', ''Stream'', ''Ptr''])"

definition codeSql :: "string \<times> string list" where
  "codeSql = (''Code'', [''Path''])"

lemmas sql_defs = eventSql_def memcpySql_def mallocSql_def launchSql_def freeSql_def codeSql_def

text \<open>Executing a prepared INSERT, then \<^verbatim>\<open>sqlite3_reset\<close> and \<^verbatim>\<open>sqlite3_clear_bindings\<close>.\<close>

definition step_reset_clear :: "string \<times> string list \<Rightarrow> stmt \<Rightarrow> database \<Rightarrow> u32 \<times> stmt \<times> database" where
  "step_reset_clear sql p db =
     (let (rc, db') = step_insert (fst sql) (snd sql) p db
      in (rc, snd (sqlite3_clear_bindings p), db'))"

definition SQLITE_CHECK :: "u32 \<Rightarrow> trace_error + u32" where
  "SQLITE_CHECK ans =
     (if ans = SQLITE_OK then Inr ans
      else if ans = SQLITE_DONE then Inr ans
      else if ans = SQLITE_ROW then Inr ans
      else Inl (Sqlite_assert ans))"

section \<open>Storing one event\<close>

text \<open>Conversions to the \<^verbatim>\<open>int\<close> parameter of \<open>sqlite3_bind_int\<close> keep the low 32 bits.\<close>

definition insert_code :: "gputrace_event \<Rightarrow> stmt \<Rightarrow> database \<times> files
    \<Rightarrow> trace_error + u32 \<times> stmt \<times> database \<times> files" where
  "insert_code event p = (\<lambda>(db, fs).
     rbind (get_code_data (event_data event)) (\<lambda>code_event.
     let fs = fs(c_str (code_filename code_event) \<mapsto> code_code code_event);
         (rc, p) = sqlite3_bind_text p 1 (code_filename code_event)
     in rbind (SQLITE_CHECK rc) (\<lambda>rc.
        let (_, p, db) = step_reset_clear codeSql p db
        in Inr (rc, p, db, fs))))"

definition insert_free :: "gputrace_event \<Rightarrow> stmt \<Rightarrow> database \<Rightarrow> trace_error + u32 \<times> stmt \<times> database" where
  "insert_free event p db =
     (let (rc, p) = sqlite3_bind_int p 1 (ucast (event_id event));
          (rc, p) = sqlite3_bind_int p 2 (ucast (event_stream event))
      in rbind (get_free_data (event_data event)) (\<lambda>free_event.
         let (rc, p) = sqlite3_bind_int64 p 3 (free_p free_event)
         in Inr (step_reset_clear freeSql p db)))"

definition insert_launch :: "gputrace_event \<Rightarrow> stmt \<Rightarrow> database \<Rightarrow> trace_error + u32 \<times> stmt \<times> database" where
  "insert_launch event p db =
     rbind (get_launch_data (event_data event)) (\<lambda>launch_event.
     let (rc, p) = sqlite3_bind_int p 1 (ucast (event_id event));
         (rc, p) = sqlite3_bind_int p 2 (ucast (event_stream event));
         (rc, p) = sqlite3_bind_text p 3 (launch_kernel_name launch_event);
         (rc, p) = sqlite3_bind_int p 4 (dim_x (launch_num_blocks launch_event));
         (rc, p) = sqlite3_bind_int p 5 (dim_y (launch_num_blocks launch_event));
         (rc, p) = sqlite3_bind_int p 6 (dim_z (launch_num_blocks launch_event));
         (rc, p) = sqlite3_bind_int p 7 (dim_x (launch_dim_blocks launch_event));
         (rc, p) = sqlite3_bind_int p 8 (dim_y (launch_dim_blocks launch_event));
         (rc, p) = sqlite3_bind_int p 9 (dim_z (launch_dim_blocks launch_event));
         (rc, p) = sqlite3_bind_int p 10 (launch_shared_mem_bytes launch_event);
         (rc, p) = sqlite3_bind_blob p 11 (launch_argdata launch_event)
     in Inr (step_reset_clear launchSql p db))"

definition insert_malloc :: "gputrace_event \<Rightarrow> stmt \<Rightarrow> database \<Rightarrow> trace_error + u32 \<times> stmt \<times> database" where
  "insert_malloc event p db =
     rbind (get_malloc_data (event_data event)) (\<lambda>malloc_event.
     let (rc, p) = sqlite3_bind_int p 1 (ucast (event_id event));
         (rc, p) = sqlite3_bind_int p 2 (ucast (event_stream event));
         (rc, p) = sqlite3_bind_int64 p 3 (malloc_p malloc_event);
         (rc, p) = sqlite3_bind_int p 4 (ucast (malloc_size malloc_event))
     in Inr (step_reset_clear mallocSql p db))"

text \<open>\<open>h2d\<close> is the constant \<^verbatim>\<open>hipMemcpyHostToDevice\<close> of the HIP headers.\<close>

definition hostdata_file :: "nat \<Rightarrow> string" where
  "hostdata_file n = ''./hostdata/'' @ ''hostdata-'' @ to_string n @ ''.bin''"

definition insert_memcpy :: "u32 \<Rightarrow> gputrace_event \<Rightarrow> stmt \<Rightarrow> database \<times> files
    \<Rightarrow> trace_error + u32 \<times> stmt \<times> database \<times> files" where
  "insert_memcpy h2d event p = (\<lambda>(db, fs).
     rbind (get_memcpy_data (event_data event)) (\<lambda>memcpy_event.
     let (rc, p) = sqlite3_bind_int p 1 (ucast (event_id event));
         (rc, p) = sqlite3_bind_int p 2 (ucast (event_stream event));
         (rc, p) = sqlite3_bind_int64 p 3 (memcpy_dst memcpy_event);
         (rc, p) = sqlite3_bind_int64 p 4 (memcpy_src memcpy_event);
         (rc, p) = sqlite3_bind_int p 5 (ucast (memcpy_size memcpy_event));
         (rc, p) = sqlite3_bind_int p 6 (memcpy_kind memcpy_event);
         fs = (if memcpy_kind memcpy_event = h2d
               then fs(hostdata_file (unat (event_id event)) \<mapsto> memcpy_hostdata memcpy_event) else fs);
         (rc, p, db) = step_reset_clear memcpySql p db
     in Inr (rc, p, db, fs)))"

definition insert_event :: "gputrace_event \<Rightarrow> stmt \<Rightarrow> database \<Rightarrow> u32 \<times> stmt \<times> database" where
  "insert_event event p db =
     (let (rc, p) = sqlite3_bind_int p 1 (HIP_EVENT_code (event_type event));
          (rc, p) = sqlite3_bind_text p 2 (event_name event);
          (rc, p) = sqlite3_bind_int p 3 (event_rc event);
          (rc, p) = sqlite3_bind_int p 4 (ucast (event_stream event));
          (rc, p) = sqlite3_bind_int p 5 (ucast (event_id event))
      in step_reset_clear eventSql p db)"

section \<open>The loop body of the writer\<close>

record writer =
  eventStmt :: stmt
  mallocStmt :: stmt
  memcpyStmt :: stmt
  freeStmt :: stmt
  launchStmt :: stmt
  codeStmt :: stmt
  event_db :: database
  w_files :: files

definition writer_init :: "database \<Rightarrow> files \<Rightarrow> writer" where
  "writer_init db fs = \<lparr>eventStmt = replicate 5 Mem_Null, mallocStmt = replicate 4 Mem_Null,
     memcpyStmt = replicate 7 Mem_Null, freeStmt = replicate 3 Mem_Null,
     launchStmt = replicate 11 Mem_Null, codeStmt = replicate 1 Mem_Null,
     event_db = db, w_files = fs\<rparr>"

definition write_event :: "u32 \<Rightarrow> gputrace_event \<Rightarrow> writer \<Rightarrow> trace_error + writer" where
  "write_event h2d event w =
     (let w = (if event_type event \<noteq> EVENT_CODE then
                 (let (rc, p, db) = insert_event event (eventStmt w) (event_db w)
                  in w\<lparr>eventStmt := p, event_db := db\<rparr>)
               else w)
      in case event_type event of
        EVENT_MALLOC \<Rightarrow> rbind (insert_malloc event (mallocStmt w) (event_db w))
          (\<lambda>(rc, p, db). Inr (w\<lparr>mallocStmt := p, event_db := db\<rparr>))
      | EVENT_MEMCPY \<Rightarrow> rbind (insert_memcpy h2d event (memcpyStmt w) (event_db w, w_files w))
          (\<lambda>(rc, p, db, fs). Inr (w\<lparr>memcpyStmt := p, event_db := db, w_files := fs\<rparr>))
      | EVENT_FREE \<Rightarrow> rbind (insert_free event (freeStmt w) (event_db w))
          (\<lambda>(rc, p, db). Inr (w\<lparr>freeStmt := p, event_db := db\<rparr>))
      | EVENT_LAUNCH \<Rightarrow> rbind (insert_launch event (launchStmt w) (event_db w))
          (\<lambda>(rc, p, db). Inr (w\<lparr>launchStmt := p, event_db := db\<rparr>))
      | EVENT_CODE \<Rightarrow> rbind (insert_code event (codeStmt w) (event_db w, w_files w))
          (\<lambda>(rc, p, db, fs). Inr (w\<lparr>codeStmt := p, event_db := db, w_files := fs\<rparr>))
      | _ \<Rightarrow> Inr w)"

text \<open>The events that the inner loop takes from the queue until it is empty.\<close>

fun write_events :: "u32 \<Rightarrow> gputrace_event list \<Rightarrow> writer \<Rightarrow> trace_error + writer" where
  "write_events h2d [] w = Inr w"
| "write_events h2d (event # events) w =
     rbind (write_event h2d event w) (\<lambda>w. write_events h2d events w)"

section \<open>What the writer stores\<close>

text \<open>
  The specification of the stored trace: the key of an event (its number cut to 32 bits and
  sign-extended by \<open>sqlite3_bind_int\<close>) and the row it contributes to each table.
\<close>

definition event_key :: "gputrace_event \<Rightarrow> u64" where
  "event_key e = scast (ucast (event_id e) :: u32)"

definition int_value :: "u32 \<Rightarrow> mem" where
  "int_value v = Mem_Int (scast v)"

definition stream_value :: "gputrace_event \<Rightarrow> mem" where
  "stream_value e = int_value (ucast (event_stream e))"

definition event_row :: "gputrace_event \<Rightarrow> row" where
  "event_row e = zip (snd eventSql) [int_value (HIP_EVENT_code (event_type e)),
     Mem_Text (c_str (event_name e)), int_value (event_rc e), stream_value e, Mem_Int (event_key e)]"

definition malloc_row :: "gputrace_event \<Rightarrow> gputrace_event_malloc \<Rightarrow> row" where
  "malloc_row e d = zip (snd mallocSql) [Mem_Int (event_key e), stream_value e,
     Mem_Int (malloc_p d), int_value (ucast (malloc_size d))]"

definition memcpy_row :: "gputrace_event \<Rightarrow> gputrace_event_memcpy \<Rightarrow> row" where
  "memcpy_row e d = zip (snd memcpySql) [Mem_Int (event_key e), stream_value e,
     Mem_Int (memcpy_dst d), Mem_Int (memcpy_src d), int_value (ucast (memcpy_size d)),
     int_value (memcpy_kind d), Mem_Null]"

definition free_row :: "gputrace_event \<Rightarrow> gputrace_event_free \<Rightarrow> row" where
  "free_row e d = zip (snd freeSql) [Mem_Int (event_key e), stream_value e, Mem_Int (free_p d)]"

definition launch_row :: "gputrace_event \<Rightarrow> gputrace_event_launch \<Rightarrow> row" where
  "launch_row e d = zip (snd launchSql) [Mem_Int (event_key e), stream_value e,
     Mem_Text (c_str (launch_kernel_name d)),
     int_value (dim_x (launch_num_blocks d)), int_value (dim_y (launch_num_blocks d)),
     int_value (dim_z (launch_num_blocks d)), int_value (dim_x (launch_dim_blocks d)),
     int_value (dim_y (launch_dim_blocks d)), int_value (dim_z (launch_dim_blocks d)),
     int_value (launch_shared_mem_bytes d),
     (if launch_argdata d = [] then Mem_Null else Mem_Blob (launch_argdata d))]"

definition code_row :: "gputrace_event_code \<Rightarrow> row" where
  "code_row d = zip (snd codeSql) [Mem_Text (c_str (code_filename d))]"

lemmas row_defs = event_row_def malloc_row_def memcpy_row_def free_row_def launch_row_def code_row_def

text \<open>Adding a row under a key: the first row with a key wins.\<close>

definition add_row :: "u64 \<Rightarrow> row \<Rightarrow> table \<Rightarrow> table" where
  "add_row k r t = (if k \<in> fst ` set t then t else t @ [(k, r)])"

definition insert_rc :: "u64 \<Rightarrow> table \<Rightarrow> u32" where
  "insert_rc k t = (if k \<in> fst ` set t then SQLITE_CONSTRAINT else SQLITE_DONE)"

definition add_code_row :: "row \<Rightarrow> table \<Rightarrow> table" where
  "add_code_row r t = t @ [(new_rowid t, r)]"

text \<open>Statements between two events: nothing is bound.\<close>

definition clean :: "writer \<Rightarrow> bool" where
  "clean w \<longleftrightarrow> eventStmt w = replicate 5 Mem_Null \<and> mallocStmt w = replicate 4 Mem_Null
     \<and> memcpyStmt w = replicate 7 Mem_Null \<and> freeStmt w = replicate 3 Mem_Null
     \<and> launchStmt w = replicate 11 Mem_Null \<and> codeStmt w = replicate 1 Mem_Null"

lemma clean_init [simp]: "clean (writer_init db fs)"
  by (simp add: clean_def writer_init_def)

lemma replicate_null_unfold:
  "replicate 3 x = [x, x, x]" "replicate 4 x = [x, x, x, x]" "replicate 5 x = [x, x, x, x, x]"
  "replicate 7 x = [x, x, x, x, x, x, x]" "replicate 11 x = [x, x, x, x, x, x, x, x, x, x, x]"
  by (simp_all add: numeral_eq_Suc)

text \<open>The key column of each statement.\<close>

lemma sql_key:
  "column (zip (snd eventSql) [a, b, c, d, m]) ''Id'' = m"
  "column (zip (snd memcpySql) (m # p)) ''Id'' = m"
  "column (zip (snd mallocSql) (m # p)) ''Id'' = m"
  "column (zip (snd launchSql) (m # p)) ''Id'' = m"
  "column (zip (snd freeSql) (m # p)) ''Id'' = m"
  "column (zip (snd codeSql) [m]) ''Id'' = Mem_Null"
  by (simp_all add: sql_defs column_def)

lemma sql_table:
  "fst eventSql = ''Events''" "fst memcpySql = ''EventMemcpy''" "fst mallocSql = ''EventMalloc''"
  "fst launchSql = ''EventLaunch''" "fst freeSql = ''EventFree''" "fst codeSql = ''Code''"
  by (simp_all add: sql_defs)

lemma step_reset_clear_key:
  assumes "column (zip (snd sql) p) ''Id'' = Mem_Int k"
  shows "step_reset_clear sql p db = (insert_rc k (db (fst sql)), map (\<lambda>_. Mem_Null) p,
    db(fst sql := add_row k (zip (snd sql) p) (db (fst sql))))"
  using assms by (auto simp: step_reset_clear_def step_insert_def sqlite3_clear_bindings_def
      Let_def add_row_def insert_rc_def)

lemmas bind_eval = store_simps Let_def replicate_null_unfold
lemmas value_defs = int_value_def stream_value_def event_key_def

lemma insert_event_stores:
  "insert_event e (replicate 5 Mem_Null) db
    = (insert_rc (event_key e) (db ''Events''), replicate 5 Mem_Null,
       db(''Events'' := add_row (event_key e) (event_row e) (db ''Events'')))"
  unfolding insert_event_def event_row_def value_defs
  by (simp add: bind_eval step_reset_clear_key sql_key sql_table cong: prod.case_cong_weak let_weak_cong)

lemma insert_malloc_stores:
  "event_data e = Data_malloc d \<Longrightarrow> insert_malloc e (replicate 4 Mem_Null) db
    = Inr (insert_rc (event_key e) (db ''EventMalloc''), replicate 4 Mem_Null,
      db(''EventMalloc'' := add_row (event_key e) (malloc_row e d) (db ''EventMalloc'')))"
  unfolding insert_malloc_def malloc_row_def value_defs
  by (simp add: bind_eval step_reset_clear_key sql_key sql_table cong: prod.case_cong_weak let_weak_cong)

lemma insert_free_stores:
  "event_data e = Data_free d \<Longrightarrow> insert_free e (replicate 3 Mem_Null) db
    = Inr (insert_rc (event_key e) (db ''EventFree''), replicate 3 Mem_Null,
      db(''EventFree'' := add_row (event_key e) (free_row e d) (db ''EventFree'')))"
  unfolding insert_free_def free_row_def value_defs
  by (simp add: bind_eval step_reset_clear_key sql_key sql_table cong: prod.case_cong_weak let_weak_cong)

lemma insert_launch_stores:
  "event_data e = Data_launch d \<Longrightarrow> insert_launch e (replicate 11 Mem_Null) db
    = Inr (insert_rc (event_key e) (db ''EventLaunch''), replicate 11 Mem_Null,
      db(''EventLaunch'' := add_row (event_key e) (launch_row e d) (db ''EventLaunch'')))"
  unfolding insert_launch_def launch_row_def value_defs
  by (simp add: bind_eval step_reset_clear_key sql_key sql_table cong: prod.case_cong_weak let_weak_cong)

lemma insert_memcpy_stores:
  "event_data e = Data_memcpy d \<Longrightarrow> insert_memcpy h2d e (replicate 7 Mem_Null) (db, fs)
    = Inr (insert_rc (event_key e) (db ''EventMemcpy''), replicate 7 Mem_Null,
      db(''EventMemcpy'' := add_row (event_key e) (memcpy_row e d) (db ''EventMemcpy'')),
      (if memcpy_kind d = h2d then fs(hostdata_file (unat (event_id e)) \<mapsto> memcpy_hostdata d) else fs))"
  unfolding insert_memcpy_def memcpy_row_def value_defs
  by (simp add: bind_eval step_reset_clear_key sql_key sql_table cong: prod.case_cong_weak let_weak_cong)

lemma insert_code_stores:
  "event_data e = Data_code d \<Longrightarrow> insert_code e [Mem_Null] (db, fs)
    = Inr (SQLITE_OK, [Mem_Null],
      db(''Code'' := add_code_row (code_row d) (db ''Code'')), fs(c_str (code_filename d) \<mapsto> code_code d))"
  by (simp add: insert_code_def bind_eval SQLITE_CHECK_def step_reset_clear_def step_insert_def
     sql_key sql_table sqlite3_clear_bindings_def code_row_def add_code_row_def
     sqlite_codes cong: prod.case_cong_weak let_weak_cong)

lemmas insert_stores = insert_event_stores insert_malloc_stores insert_free_stores
  insert_launch_stores insert_memcpy_stores insert_code_stores

section \<open>The stored trace\<close>

text \<open>An event whose data is of the kind that its type announces.\<close>

definition well_typed :: "gputrace_event \<Rightarrow> bool" where
  "well_typed e = (case event_type e of
      EVENT_MALLOC \<Rightarrow> (\<exists>d. event_data e = Data_malloc d)
    | EVENT_MEMCPY \<Rightarrow> (\<exists>d. event_data e = Data_memcpy d)
    | EVENT_FREE \<Rightarrow> (\<exists>d. event_data e = Data_free d)
    | EVENT_LAUNCH \<Rightarrow> (\<exists>d. event_data e = Data_launch d)
    | EVENT_CODE \<Rightarrow> (\<exists>d. event_data e = Data_code d)
    | _ \<Rightarrow> True)"

text \<open>What storing one event does to the tables and to the files.\<close>

definition store_tables :: "gputrace_event \<Rightarrow> database \<Rightarrow> database" where
  "store_tables e db =
     (let k = event_key e;
          db = (if event_type e \<noteq> EVENT_CODE then db(''Events'' := add_row k (event_row e) (db ''Events'')) else db)
      in case event_type e of
        EVENT_MALLOC \<Rightarrow> (case event_data e of Data_malloc d \<Rightarrow>
          db(''EventMalloc'' := add_row k (malloc_row e d) (db ''EventMalloc'')) | _ \<Rightarrow> db)
      | EVENT_MEMCPY \<Rightarrow> (case event_data e of Data_memcpy d \<Rightarrow>
          db(''EventMemcpy'' := add_row k (memcpy_row e d) (db ''EventMemcpy'')) | _ \<Rightarrow> db)
      | EVENT_FREE \<Rightarrow> (case event_data e of Data_free d \<Rightarrow>
          db(''EventFree'' := add_row k (free_row e d) (db ''EventFree'')) | _ \<Rightarrow> db)
      | EVENT_LAUNCH \<Rightarrow> (case event_data e of Data_launch d \<Rightarrow>
          db(''EventLaunch'' := add_row k (launch_row e d) (db ''EventLaunch'')) | _ \<Rightarrow> db)
      | EVENT_CODE \<Rightarrow> (case event_data e of Data_code d \<Rightarrow>
          db(''Code'' := add_code_row (code_row d) (db ''Code'')) | _ \<Rightarrow> db)
      | _ \<Rightarrow> db)"

definition store_files :: "u32 \<Rightarrow> gputrace_event \<Rightarrow> files \<Rightarrow> files" where
  "store_files h2d e fs = (case (event_type e, event_data e) of
      (EVENT_MEMCPY, Data_memcpy d) \<Rightarrow> (if memcpy_kind d = h2d
        then fs(hostdata_file (unat (event_id e)) \<mapsto> memcpy_hostdata d) else fs)
    | (EVENT_CODE, Data_code d) \<Rightarrow> fs(c_str (code_filename d) \<mapsto> code_code d)
    | _ \<Rightarrow> fs)"

lemma write_event_stores:
  assumes "well_typed e" "clean w"
  shows "\<exists>w'. write_event h2d e w = Inr w' \<and> clean w'
    \<and> event_db w' = store_tables e (event_db w) \<and> w_files w' = store_files h2d e (w_files w)"
  using assms
  by (cases "event_type e")
    (auto simp: write_event_def well_typed_def clean_def store_tables_def store_files_def
      insert_stores Let_def)

text \<open>The row that an event contributes to a table other than \<^verbatim>\<open>Code\<close>.\<close>

definition row_in :: "string \<Rightarrow> gputrace_event \<Rightarrow> row option" where
  "row_in tab e =
     (if tab = ''Events'' then (if event_type e \<noteq> EVENT_CODE then Some (event_row e) else None)
      else case (event_type e, event_data e) of
        (EVENT_MALLOC, Data_malloc d) \<Rightarrow> if tab = ''EventMalloc'' then Some (malloc_row e d) else None
      | (EVENT_MEMCPY, Data_memcpy d) \<Rightarrow> if tab = ''EventMemcpy'' then Some (memcpy_row e d) else None
      | (EVENT_FREE, Data_free d) \<Rightarrow> if tab = ''EventFree'' then Some (free_row e d) else None
      | (EVENT_LAUNCH, Data_launch d) \<Rightarrow> if tab = ''EventLaunch'' then Some (launch_row e d) else None
      | _ \<Rightarrow> None)"

definition keyed_row_in :: "string \<Rightarrow> gputrace_event \<Rightarrow> (u64 \<times> row) option" where
  "keyed_row_in tab e = map_option (Pair (event_key e)) (row_in tab e)"

definition code_rows :: "gputrace_event list \<Rightarrow> row list" where
  "code_rows es = List.map_filter (\<lambda>e. case (event_type e, event_data e) of
      (EVENT_CODE, Data_code d) \<Rightarrow> Some (code_row d) | _ \<Rightarrow> None) es"

lemma store_tables_row:
  assumes "well_typed e" "tab \<noteq> ''Code''"
  shows "store_tables e db tab = (case row_in tab e of None \<Rightarrow> db tab | Some r \<Rightarrow> add_row (event_key e) r (db tab))"
  using assms by (cases "event_type e"; cases "event_data e")
    (auto simp: store_tables_def row_in_def Let_def well_typed_def)

lemma store_tables_code:
  assumes "well_typed e"
  shows "store_tables e db ''Code'' = fold add_code_row (code_rows [e]) (db ''Code'')"
  using assms by (cases "event_type e"; cases "event_data e")
    (auto simp: store_tables_def code_rows_def Let_def well_typed_def map_filter_simps)

lemma write_events_stores:
  assumes "\<forall>e\<in>set es. well_typed e" "clean w"
  shows "\<exists>w'. write_events h2d es w = Inr w' \<and> clean w'
    \<and> event_db w' = fold store_tables es (event_db w) \<and> w_files w' = fold (store_files h2d) es (w_files w)"
  using assms
proof (induction es arbitrary: w)
  case (Cons e es)
  from Cons.prems obtain w1 where w1: "write_event h2d e w = Inr w1" "clean w1"
    "event_db w1 = store_tables e (event_db w)" "w_files w1 = store_files h2d e (w_files w)"
    using write_event_stores [of e w h2d] by auto
  from Cons.IH [of w1] Cons.prems w1 show ?case by simp
qed simp

text \<open>With different keys nothing is dropped.\<close>

lemma fold_store_tables:
  assumes "\<forall>e\<in>set es. well_typed e" "tab \<noteq> ''Code''"
    and "distinct (map event_key (filter (\<lambda>e. event_type e \<noteq> EVENT_CODE) es))"
    and "\<forall>e\<in>set es. event_type e \<noteq> EVENT_CODE \<longrightarrow> event_key e \<notin> fst ` set (db tab)"
  shows "fold store_tables es db tab = db tab @ List.map_filter (keyed_row_in tab) es"
  using assms
proof (induction es arbitrary: db)
  case (Cons e es)
  show ?case
  proof (cases "row_in tab e")
    case None
    then have "store_tables e db tab = db tab" using Cons.prems by (simp add: store_tables_row)
    with Cons None show ?thesis
      by (auto simp: map_filter_simps keyed_row_in_def split: if_splits)
  next
    case (Some r)
    then have code: "event_type e \<noteq> EVENT_CODE"
      by (auto simp: row_in_def split: if_splits HIP_EVENT.splits gputrace_data.splits)
    then have db: "store_tables e db tab = db tab @ [(event_key e, r)]"
      using Cons.prems Some by (simp add: store_tables_row add_row_def)
    have "fold store_tables es (store_tables e db) tab
        = store_tables e db tab @ List.map_filter (keyed_row_in tab) es"
      by (rule Cons.IH) (use Cons.prems code db in \<open>auto simp: image_iff\<close>)
    moreover have "keyed_row_in tab e = Some (event_key e, r)" using Some by (simp add: keyed_row_in_def)
    ultimately show ?thesis using db by (simp add: map_filter_simps)
  qed
qed (simp add: map_filter_simps)



end
