(* ===== verification/Writer_Thread.thy ===== *)
theory Writer_Thread
  imports Event_Writer
begin

text \<open>
  The interplay of the application's threads, the writer thread (\<open>prepare_events\<close> in
  \<^verbatim>\<open>hip/hip.cpp\<close>) and the destructor of \<^verbatim>\<open>hiptracer_state\<close> (\<^verbatim>\<open>include/trace.h\<close>) as a step relation over
  one state. Each action is one access to shared data, in the order of the code; accesses are
  sequentially consistent. The events queue is the list of its elements, the conditional variable
  wakes the writer only while it waits.
\<close>

section \<open>State\<close>

datatype writer_pc =
    W_none        \<comment> \<open>the thread does not exist\<close>
  | W_prepare     \<comment> \<open>before \<^verbatim>\<open>sqlite3_prepare_v2\<close>\<close>
  | W_outer       \<comment> \<open>\<^verbatim>\<open>while (get_library_loaded())\<close>\<close>
  | W_inner       \<comment> \<open>\<^verbatim>\<open>while (!was_empty())\<close>\<close>
  | W_pop         \<comment> \<open>\<^verbatim>\<open>try_pop\<close> and the insertions\<close>
  | W_decide      \<comment> \<open>\<^verbatim>\<open>if (was_empty() && get_library_loaded())\<close>\<close>
  | W_wait        \<comment> \<open>about to take the mutex and wait\<close>
  | W_blocked     \<comment> \<open>inside \<^verbatim>\<open>condition_variable::wait\<close>\<close>
  | W_finish      \<comment> \<open>before \<^verbatim>\<open>END TRANSACTION\<close>\<close>
  | W_done
  | W_crash       \<comment> \<open>an uncaught exception, or a statement prepared on a closed database\<close>

datatype exit_pc = X_running | X_flagged | X_notified | X_closed | X_joined

record sys =
  s_queue :: "gputrace_event list"
  s_pc :: writer_pc
  s_loaded :: bool
  s_exit :: exit_pc
  s_pending :: nat               \<comment> \<open>pushes whose \<^verbatim>\<open>notify_all\<close> is still to come\<close>
  s_writer :: writer
  s_open :: bool
  s_pushed :: "gputrace_event list"   \<comment> \<open>history: every event pushed\<close>
  s_written :: "gputrace_event list"  \<comment> \<open>history: every event taken by the writer\<close>

definition sys_init :: "files \<Rightarrow> sys" where
  "sys_init fs = \<lparr>s_queue = [], s_pc = W_none, s_loaded = True, s_exit = X_running, s_pending = 0,
     s_writer = writer_init (\<lambda>_. []) fs, s_open = True, s_pushed = [], s_written = []\<rparr>"

section \<open>Steps\<close>

datatype action = Create | Push gputrace_event | Notify | Writer | Spurious | Exit

text \<open>\<^verbatim>\<open>notify_all\<close>: a writer inside \<^verbatim>\<open>wait\<close> returns from it, any other is not affected.\<close>

definition notify_all :: "sys \<Rightarrow> sys" where
  "notify_all s = (if s_pc s = W_blocked then s\<lparr>s_pc := W_outer\<rparr> else s)"

text \<open>The writer takes the first event and stores it; an uncaught exception ends the program.\<close>

definition pop_step :: "u32 \<Rightarrow> sys \<Rightarrow> sys" where
  "pop_step h2d s = (case s_queue s of
      [] \<Rightarrow> s
    | event # queue \<Rightarrow>
        (let s = s\<lparr>s_queue := queue, s_written := s_written s @ [event]\<rparr>
         in case write_event h2d event (s_writer s) of
              Inl e \<Rightarrow> s\<lparr>s_pc := W_crash\<rparr>
            | Inr w \<Rightarrow> s\<lparr>s_writer := w, s_pc := W_inner\<rparr>))"

fun writer_step :: "u32 \<Rightarrow> writer_pc \<Rightarrow> sys \<Rightarrow> sys option" where
  "writer_step h2d W_prepare s = Some (s\<lparr>s_pc := (if s_open s then W_outer else W_crash)\<rparr>)"
| "writer_step h2d W_outer s = Some (s\<lparr>s_pc := (if s_loaded s then W_inner else W_finish)\<rparr>)"
| "writer_step h2d W_inner s = Some (s\<lparr>s_pc := (if s_queue s \<noteq> [] then W_pop else W_decide)\<rparr>)"
| "writer_step h2d W_pop s = Some (pop_step h2d s)"
| "writer_step h2d W_decide s =
     Some (s\<lparr>s_pc := (if s_queue s = [] \<and> s_loaded s then W_wait else W_outer)\<rparr>)"
| "writer_step h2d W_wait s = Some (s\<lparr>s_pc := W_blocked\<rparr>)"
| "writer_step h2d W_finish s = Some (s\<lparr>s_pc := W_done\<rparr>)"
| "writer_step h2d W_none s = None"
| "writer_step h2d W_blocked s = None"
| "writer_step h2d W_done s = None"
| "writer_step h2d W_crash s = None"

text \<open>
  The destructor: clear the flag, notify, close the database, join. \<^verbatim>\<open>sqlite3_close\<close> refuses a
  connection that still has prepared statements, so it closes it only before the writer has
  prepared any.
\<close>

fun exit_step :: "exit_pc \<Rightarrow> sys \<Rightarrow> sys option" where
  "exit_step X_running s = (if s_pending s = 0 then Some (s\<lparr>s_loaded := False, s_exit := X_flagged\<rparr>) else None)"
| "exit_step X_flagged s = Some ((notify_all s)\<lparr>s_exit := X_notified\<rparr>)"
| "exit_step X_notified s =
     Some (s\<lparr>s_open := (s_open s \<and> s_pc s \<notin> {W_none, W_prepare}), s_exit := X_closed\<rparr>)"
| "exit_step X_closed s = (if s_pc s \<in> {W_none, W_done} then Some (s\<lparr>s_exit := X_joined\<rparr>) else None)"
| "exit_step X_joined s = None"

text \<open>
  A push finds the thread created, waits for room and is followed by its notification; the
  application is over when the destructor runs. \<open>Spurious\<close> is a wakeup without a cause.
\<close>

fun sys_action :: "u32 \<Rightarrow> nat \<Rightarrow> action \<Rightarrow> sys \<Rightarrow> sys option" where
  "sys_action h2d cap Create s =
     (if s_pc s = W_none \<and> s_exit s = X_running then Some (s\<lparr>s_pc := W_prepare\<rparr>) else None)"
| "sys_action h2d cap (Push event) s =
     (if s_pc s \<noteq> W_none \<and> s_exit s = X_running \<and> length (s_queue s) < cap
      then Some (s\<lparr>s_queue := s_queue s @ [event], s_pushed := s_pushed s @ [event],
             s_pending := Suc (s_pending s)\<rparr>)
      else None)"
| "sys_action h2d cap Notify s =
     (if s_pending s > 0 then Some ((notify_all s)\<lparr>s_pending := s_pending s - 1\<rparr>) else None)"
| "sys_action h2d cap Writer s = writer_step h2d (s_pc s) s"
| "sys_action h2d cap Spurious s = (if s_pc s = W_blocked then Some (s\<lparr>s_pc := W_outer\<rparr>) else None)"
| "sys_action h2d cap Exit s = exit_step (s_exit s) s"

text \<open>After a crash nothing runs.\<close>

definition sys_step :: "u32 \<Rightarrow> nat \<Rightarrow> action \<Rightarrow> sys \<Rightarrow> sys option" where
  "sys_step h2d cap a s = (if s_pc s = W_crash then None else sys_action h2d cap a s)"

inductive reachable :: "u32 \<Rightarrow> nat \<Rightarrow> files \<Rightarrow> sys \<Rightarrow> bool" for h2d cap fs where
  init: "reachable h2d cap fs (sys_init fs)"
| step: "reachable h2d cap fs s \<Longrightarrow> sys_step h2d cap a s = Some t \<Longrightarrow> reachable h2d cap fs t"

text \<open>Running a list of actions, and what it reaches.\<close>

fun run :: "u32 \<Rightarrow> nat \<Rightarrow> action list \<Rightarrow> sys \<Rightarrow> sys option" where
  "run h2d cap [] s = Some s"
| "run h2d cap (a # acts) s = Option.bind (sys_step h2d cap a s) (run h2d cap acts)"

lemma run_append: "run h2d cap (as @ bs) s = Option.bind (run h2d cap as s) (run h2d cap bs)"
  by (induction as arbitrary: s) (auto split: Option.bind_split)

lemma run_reachable:
  "reachable h2d cap fs s \<Longrightarrow> run h2d cap acts s = Some t \<Longrightarrow> reachable h2d cap fs t"
  by (induction acts arbitrary: s) (auto simp: bind_eq_Some_conv intro: reachable.step)

section \<open>The invariant\<close>

text \<open>
  Every pushed event is either written or still queued, in order; the queue respects its
  capacity; the writer's database and files are those of the written events, unless the program
  died; at the end of the program's life no notification is outstanding.
\<close>

definition sys_inv :: "u32 \<Rightarrow> nat \<Rightarrow> files \<Rightarrow> sys \<Rightarrow> bool" where
  "sys_inv h2d cap fs s \<longleftrightarrow> s_pushed s = s_written s @ s_queue s \<and> length (s_queue s) \<le> cap
     \<and> (s_pc s \<noteq> W_crash \<longrightarrow> write_events h2d (s_written s) (writer_init (\<lambda>_. []) fs) = Inr (s_writer s))
     \<and> (s_pc s = W_pop \<longrightarrow> s_queue s \<noteq> []) \<and> (s_exit s \<noteq> X_running \<longrightarrow> s_pending s = 0 \<and> \<not> s_loaded s)
     \<and> (s_exit s = X_running \<longrightarrow> s_loaded s \<and> s_open s) \<and> (s_pc s = W_none \<longrightarrow> s_pushed s = [])"

lemma write_events_snoc:
  "write_events h2d (es @ [e]) w = rbind (write_events h2d es w) (write_event h2d e)"
  by (induction es arbitrary: w) (simp_all add: rbind_assoc rbind_def split: sum.splits)

lemma sys_inv_init: "sys_inv h2d cap fs (sys_init fs)"
  by (simp add: sys_inv_def sys_init_def)

lemma sys_inv_writer:
  assumes "sys_inv h2d cap fs s" "writer_step h2d (s_pc s) s = Some t"
  shows "sys_inv h2d cap fs t"
proof (cases "s_pc s")
  case W_pop
  with assms(1) obtain e q where q: "s_queue s = e # q" by (cases "s_queue s") (auto simp: sys_inv_def)
  with assms W_pop show ?thesis
    by (cases "write_event h2d e (s_writer s)")
      (auto simp: sys_inv_def pop_step_def Let_def write_events_snoc)
qed (use assms in \<open>auto simp: sys_inv_def split: if_splits\<close>)

lemma sys_inv_exit:
  assumes "sys_inv h2d cap fs s" "exit_step (s_exit s) s = Some t"
  shows "sys_inv h2d cap fs t"
  using assms by (cases "s_exit s") (auto simp: sys_inv_def notify_all_def split: if_splits)

lemma sys_inv_step:
  assumes "sys_inv h2d cap fs s" "sys_step h2d cap a s = Some t"
  shows "sys_inv h2d cap fs t"
proof -
  from assms(2) have "sys_action h2d cap a s = Some t" by (simp add: sys_step_def split: if_splits)
  then show ?thesis
  proof (cases a)
    case Writer
    with assms(1) sys_inv_writer \<open>sys_action h2d cap a s = Some t\<close> show ?thesis by auto
  next
    case Exit
    with assms(1) sys_inv_exit \<open>sys_action h2d cap a s = Some t\<close> show ?thesis by auto
  qed (use assms(1) in \<open>auto simp: sys_inv_def notify_all_def split: if_splits\<close>)
qed

lemma reachable_inv: "reachable h2d cap fs s \<Longrightarrow> sys_inv h2d cap fs s"
  by (induction rule: reachable.induct) (auto intro: sys_inv_init sys_inv_step)

text \<open>
  C6: whatever the interleaving of pushes, notifications, writer steps, wakeups and exit, no
  event is lost, duplicated or reordered between the queue and the database: what was pushed is
  what was written followed by what is still queued, the queue never exceeds its capacity, and
  the database and the files are exactly those of the written events.
\<close>

theorem writer_fifo:
  assumes "reachable h2d cap fs s"
  shows "s_pushed s = s_written s @ s_queue s \<and> length (s_queue s) \<le> cap
    \<and> (s_pc s \<noteq> W_crash \<longrightarrow> write_events h2d (s_written s) (writer_init (\<lambda>_. []) fs) = Inr (s_writer s))"
  using reachable_inv [OF assms] by (simp add: sys_inv_def)

theorem writer_fifo_witness:
  "\<exists>s. reachable 1 2 (\<lambda>_. None) s \<and> s_pushed s = s_written s @ s_queue s \<and> s_pushed s \<noteq> []"
proof -
  let ?e = "\<lparr>event_id = 0, event_rc = 0, event_stream = 0, event_name = ''hipFree'', event_type = EVENT_FREE,
       event_data = Data_free \<lparr>free_p = 4096\<rparr>\<rparr>"
  obtain s where s: "run 1 2 [Create, Push ?e] (sys_init (\<lambda>_. None)) = Some s" "s_pushed s = [?e]"
    by (simp add: sys_step_def sys_init_def)
  from run_reachable [OF reachable.init s(1)] have "reachable 1 2 (\<lambda>_. None) s" .
  from writer_fifo [OF this] this s(2) show ?thesis by auto
qed

section \<open>Well-typed events do not stop the writer\<close>

lemma write_event_returns: "well_typed e \<Longrightarrow> clean w \<Longrightarrow> \<exists>w'. write_event h2d e w = Inr w' \<and> clean w'"
  using write_event_stores [of e w h2d] by blast

definition typed_inv :: "sys \<Rightarrow> bool" where
  "typed_inv s \<longleftrightarrow> (\<forall>e\<in>set (s_pushed s). well_typed e) \<longrightarrow>
     clean (s_writer s) \<and> (s_pc s = W_crash \<longrightarrow> \<not> s_open s)"

lemma pop_step_typed:
  assumes "sys_inv h2d cap fs s" "typed_inv s" "s_pc s = W_pop"
  shows "typed_inv (pop_step h2d s)"
proof -
  obtain e q where q: "s_queue s = e # q" using assms(1,3) by (cases "s_queue s") (auto simp: sys_inv_def)
  have e: "e \<in> set (s_pushed s)" using assms(1) q by (simp add: sys_inv_def)
  show ?thesis
  proof (cases "\<forall>e\<in>set (s_pushed s). well_typed e")
    case True
    with assms(2) e write_event_returns [of e "s_writer s" h2d] obtain w'
      where "write_event h2d e (s_writer s) = Inr w'" "clean w'" by (auto simp: typed_inv_def)
    with q show ?thesis by (simp add: pop_step_def typed_inv_def)
  next
    case False
    then show ?thesis using q by (auto simp: typed_inv_def pop_step_def Let_def split: sum.splits)
  qed
qed

lemma typed_inv_step:
  assumes "sys_inv h2d cap fs s" "typed_inv s" "sys_step h2d cap a s = Some t"
  shows "typed_inv t"
proof -
  from assms(3) have act: "sys_action h2d cap a s = Some t" and "s_pc s \<noteq> W_crash"
    by (auto simp: sys_step_def split: if_splits)
  show ?thesis
  proof (cases a)
    case Writer
    show ?thesis
    proof (cases "s_pc s")
      case W_pop
      with act Writer pop_step_typed [OF assms(1,2)] show ?thesis by simp
    qed (use act Writer assms(2) in \<open>auto simp: typed_inv_def split: if_splits\<close>)
  next
    case Exit
    with act assms(2) \<open>s_pc s \<noteq> W_crash\<close> show ?thesis
      by (cases "s_exit s") (auto simp: typed_inv_def notify_all_def split: if_splits)
  qed (use act assms(2) in \<open>auto simp: typed_inv_def notify_all_def split: if_splits\<close>)
qed

lemma reachable_typed: "reachable h2d cap fs s \<Longrightarrow> typed_inv s"
proof (induction rule: reachable.induct)
  case init
  then show ?case by (simp add: typed_inv_def sys_init_def)
next
  case (step s a t)
  with typed_inv_step reachable_inv show ?case by blast
qed

text \<open>
  C8: with well-typed events the only way the writer dies is a database that the destructor
  closed before the thread had prepared its statements; and that can happen, with an event still
  in the queue.
\<close>

theorem writer_crash_only_when_closed:
  "(reachable h2d cap fs s \<and> (\<forall>e\<in>set (s_pushed s). well_typed e) \<and> s_pc s = W_crash \<longrightarrow> \<not> s_open s)
    \<and> (0 < cap \<longrightarrow> (\<exists>u. run h2d cap [Create, Push e, Notify, Exit, Exit, Exit, Writer] (sys_init fs) = Some u
         \<and> s_pc u = W_crash \<and> s_queue u = [e]))"
  using reachable_typed [of h2d cap fs s]
  by (auto simp: typed_inv_def sys_step_def sys_init_def notify_all_def)

definition sample_event :: gputrace_event where
  "sample_event = \<lparr>event_id = 0, event_rc = 0, event_stream = 0, event_name = ''hipFree'', event_type = EVENT_FREE,
       event_data = Data_free \<lparr>free_p = 4096\<rparr>\<rparr>"

lemma well_typed_sample: "well_typed sample_event"
  by (simp add: sample_event_def well_typed_def)

lemma write_sample: "clean w \<Longrightarrow> \<exists>w'. write_event h2d sample_event w = Inr w' \<and> clean w'"
  by (rule write_event_returns [OF well_typed_sample])

theorem writer_crash_only_when_closed_witness:
  "\<exists>u. run 1 2 [Create, Push sample_event, Notify, Exit, Exit, Exit, Writer] (sys_init (\<lambda>_. None)) = Some u
     \<and> s_pc u = W_crash \<and> \<not> s_open u"
proof -
  obtain u where u: "run 1 2 [Create, Push sample_event, Notify, Exit, Exit, Exit, Writer] (sys_init (\<lambda>_. None)) = Some u"
    "s_pc u = W_crash" using writer_crash_only_when_closed [of 1 2 "\<lambda>_. None" _ sample_event] by auto
  moreover from u(1) have "\<not> s_open u" by (auto simp: sys_step_def sys_init_def notify_all_def)
  ultimately show ?thesis by blast
qed

section \<open>Progress\<close>

lemma run_replicate_Suc:
  "run h2d cap (replicate (Suc n) a) s = Option.bind (sys_step h2d cap a s) (run h2d cap (replicate n a))"
  by simp

text \<open>From the inner loop, each event takes two steps of the writer.\<close>

lemma inner_drains:
  assumes "s_pc s = W_inner" "s_loaded s" "clean (s_writer s)" "\<forall>e\<in>set (s_queue s). well_typed e"
  shows "\<exists>t. run h2d cap (replicate (2 * length (s_queue s) + 2) Writer) s = Some t \<and> s_pc t = W_wait
    \<and> s_queue t = [] \<and> s_written t = s_written s @ s_queue s"
  using assms
proof (induction "s_queue s" arbitrary: s)
  case Nil
  then have "s_queue s = []" by simp
  with Nil show ?case by (simp add: numeral_2_eq_2 sys_step_def)
next
  case (Cons e q)
  note q = Cons.hyps(2) [symmetric]
  from Cons.prems q obtain w' where w': "write_event h2d e (s_writer s) = Inr w'" "clean w'"
    using write_event_returns [of e "s_writer s" h2d] by auto
  let ?t = "s\<lparr>s_queue := q, s_written := s_written s @ [e], s_writer := w', s_pc := W_inner\<rparr>"
  have "run h2d cap [Writer, Writer] s = Some ?t"
    using Cons.prems(1) q w'(1) by (simp add: sys_step_def pop_step_def)
  then have two: "run h2d cap ([Writer, Writer] @ acts) s = run h2d cap acts ?t" for acts
    by (simp only: run_append bind.bind_lunit)
  have "replicate (2 * length (s_queue s) + 2) Writer = [Writer, Writer] @ replicate (2 * length q + 2) Writer"
    using q by (simp add: numeral_2_eq_2)
  with two have "run h2d cap (replicate (2 * length (s_queue s) + 2) Writer) s
      = run h2d cap (replicate (2 * length q + 2) Writer) ?t" by metis
  moreover have "\<exists>t. run h2d cap (replicate (2 * length (s_queue ?t) + 2) Writer) ?t = Some t \<and> s_pc t = W_wait
    \<and> s_queue t = [] \<and> s_written t = s_written ?t @ s_queue ?t"
    by (rule Cons.hyps(1)) (use Cons.prems q w' in auto)
  ultimately show ?case using q by simp
qed

text \<open>
  a woken writer catches up: from the head of its loop, while the library is loaded, it
  writes everything pushed so far within two of its own steps per queued event and three more,
  and only then waits again.
\<close>

theorem writer_drains:
  assumes "reachable h2d cap fs s" "s_pc s = W_outer" "s_loaded s" "\<forall>e\<in>set (s_pushed s). well_typed e"
  shows "\<exists>t. run h2d cap (replicate (2 * length (s_queue s) + 3) Writer) s = Some t \<and> s_pc t = W_wait
    \<and> s_queue t = [] \<and> s_written t = s_pushed s"
proof -
  let ?s = "s\<lparr>s_pc := W_inner\<rparr>"
  have inv: "s_pushed s = s_written s @ s_queue s" "clean (s_writer s)"
    using reachable_inv [OF assms(1)] reachable_typed [OF assms(1)] assms(4)
    by (auto simp: sys_inv_def typed_inv_def)
  have "sys_step h2d cap Writer s = Some ?s" using assms(2,3) by (simp add: sys_step_def)
  then have "run h2d cap (replicate (2 * length (s_queue s) + 3) Writer) s
      = run h2d cap (replicate (2 * length (s_queue s) + 2) Writer) ?s"
    by (simp add: eval_nat_numeral)
  with inner_drains [of ?s h2d cap] inv assms(3,4) show ?thesis by auto
qed

theorem writer_drains_witness:
  "\<exists>s t. run 1 2 [Create, Push sample_event, Notify, Writer] (sys_init (\<lambda>_. None)) = Some s
    \<and> run 1 2 (replicate 5 Writer) s = Some t \<and> s_written t = [sample_event] \<and> s_pc t = W_wait"
proof -
  obtain s where s: "run 1 2 [Create, Push sample_event, Notify, Writer] (sys_init (\<lambda>_. None)) = Some s"
    "s_pc s = W_outer" "s_loaded s" "s_pushed s = [sample_event]" "s_queue s = [sample_event]"
    by (simp add: sys_step_def sys_init_def notify_all_def)
  from run_reachable [OF reachable.init s(1)] have "reachable 1 2 (\<lambda>_. None) s" .
  from writer_drains [OF this s(2,3)] s well_typed_sample show ?thesis by (auto simp del: run.simps)
qed

section \<open>The end of the program\<close>

text \<open>While the inner loop is running the queue is emptied even after the flag is cleared.\<close>

definition quiet :: "sys \<Rightarrow> bool" where
  "quiet s \<longleftrightarrow> s_exit s \<noteq> X_running \<and> \<not> s_loaded s \<and> (s_pc s \<in> {W_inner, W_pop, W_crash} \<or> s_queue s = [])"

lemma quiet_step:
  assumes "quiet s" "sys_step h2d cap a s = Some t"
  shows "quiet t"
proof -
  from assms(2) have act: "sys_action h2d cap a s = Some t" and "s_pc s \<noteq> W_crash"
    by (auto simp: sys_step_def split: if_splits)
  show ?thesis
  proof (cases a)
    case Writer
    with act assms(1) show ?thesis
      by (cases "s_pc s") (auto simp: quiet_def pop_step_def Let_def split: if_splits list.splits sum.splits)
  next
    case Exit
    with act assms(1) show ?thesis
      by (cases "s_exit s") (auto simp: quiet_def notify_all_def split: if_splits)
  qed (use act assms(1) in \<open>auto simp: quiet_def notify_all_def split: if_splits\<close>)
qed

lemma quiet_run: "quiet s \<Longrightarrow> run h2d cap acts s = Some t \<Longrightarrow> quiet t"
  by (induction acts arbitrary: s) (auto simp: bind_eq_Some_conv dest: quiet_step)

lemma run_inv:
  assumes "reachable h2d cap fs s" "run h2d cap acts s = Some t"
  shows "sys_inv h2d cap fs t"
  using reachable_inv [OF run_reachable [OF assms]] .

text \<open>
  If the queue is empty, or the writer is in its inner loop, at the moment the destructor clears
  the flag, nothing is queued any more when the writer is done.
\<close>

lemma done_means_written:
  assumes "reachable h2d cap fs s" "sys_step h2d cap Exit s = Some t" "s_exit s = X_running"
    and "s_pc s \<in> {W_inner, W_pop} \<or> s_queue s = []"
    and "run h2d cap acts t = Some u" "s_pc u = W_done"
  shows "s_written u = s_pushed u \<and> s_queue u = []"
proof -
  have "quiet t" using assms(2,3,4) by (auto simp: quiet_def sys_step_def split: if_splits)
  from quiet_run [OF this assms(5)] assms(6) have "s_queue u = []" by (simp add: quiet_def)
  moreover have "sys_inv h2d cap fs u"
    using run_inv [OF reachable.step [OF assms(1,2)] assms(5)] .
  ultimately show ?thesis by (simp add: sys_inv_def)
qed

text \<open>
  The steps that are left to both threads while the program ends, when the writer is on its way
  from the inner loop to its end; the other places of the writer do not occur then.
\<close>

fun writer_left :: "writer_pc \<Rightarrow> nat \<Rightarrow> nat" where
  "writer_left W_inner n = 2 * n + 4"
| "writer_left W_pop n = 2 * n + 3"
| "writer_left W_decide n = 3"
| "writer_left W_outer n = 2"
| "writer_left W_finish n = 1"
| "writer_left _ n = 0"

fun exit_left :: "exit_pc \<Rightarrow> nat" where
  "exit_left X_running = 4"
| "exit_left X_flagged = 3"
| "exit_left X_notified = 2"
| "exit_left X_closed = 1"
| "exit_left X_joined = 0"

definition steps_left :: "sys \<Rightarrow> nat" where
  "steps_left s = writer_left (s_pc s) (length (s_queue s)) + exit_left (s_exit s)"

definition ending :: "sys \<Rightarrow> bool" where
  "ending s \<longleftrightarrow> s_exit s \<noteq> X_running \<and> \<not> s_loaded s \<and> s_pending s = 0 \<and> clean (s_writer s)
     \<and> (\<forall>e\<in>set (s_queue s). well_typed e) \<and> s_pc s \<in> {W_inner, W_pop, W_decide, W_outer, W_finish, W_done}
     \<and> (s_pc s = W_pop \<longrightarrow> s_queue s \<noteq> []) \<and> (s_exit s = X_joined \<longrightarrow> s_pc s = W_done)"

lemma ending_writer:
  assumes "ending s" "writer_step h2d (s_pc s) s = Some t"
  shows "ending t \<and> steps_left t < steps_left s"
proof (cases "s_pc s")
  case W_pop
  with assms(1) obtain e q where q: "s_queue s = e # q" by (cases "s_queue s") (auto simp: ending_def)
  with assms(1) write_event_returns [of e "s_writer s" h2d] obtain w'
    where "write_event h2d e (s_writer s) = Inr w'" "clean w'" by (auto simp: ending_def)
  with assms W_pop q show ?thesis by (auto simp: ending_def steps_left_def pop_step_def)
qed (use assms in \<open>auto simp: ending_def steps_left_def split: if_splits\<close>)

lemma ending_step:
  assumes "ending s" "sys_step h2d cap a s = Some t"
  shows "ending t \<and> steps_left t < steps_left s"
proof -
  from assms(2) have act: "sys_action h2d cap a s = Some t" by (simp add: sys_step_def split: if_splits)
  show ?thesis
  proof (cases a)
    case Writer
    with act show ?thesis by (auto dest: ending_writer [OF assms(1)])
  next
    case Exit
    with act assms(1) show ?thesis
      by (cases "s_exit s") (auto simp: ending_def steps_left_def notify_all_def split: if_splits)
  qed (use act assms(1) in \<open>auto simp: ending_def split: if_splits\<close>)
qed

lemma ending_run:
  "ending s \<Longrightarrow> run h2d cap acts s = Some t \<Longrightarrow> ending t \<and> length acts + steps_left t \<le> steps_left s"
proof (induction acts arbitrary: s)
  case (Cons a acts)
  from Cons.prems(2) obtain s' where s': "sys_step h2d cap a s = Some s'" "run h2d cap acts s' = Some t"
    by (auto simp: bind_eq_Some_conv)
  from ending_step [OF Cons.prems(1) s'(1)] Cons.IH [OF _ s'(2)] show ?case by simp
qed simp

lemma ending_progress:
  assumes "ending s" "s_exit s \<noteq> X_joined"
  shows "\<exists>a t. sys_step h2d cap a s = Some t"
proof (cases "s_pc s = W_done")
  case True
  with assms have "\<exists>t. sys_step h2d cap Exit s = Some t"
    by (cases "s_exit s") (auto simp: sys_step_def ending_def)
  then show ?thesis by blast
next
  case False
  with assms(1) have "\<exists>t. sys_step h2d cap Writer s = Some t" by (auto simp: sys_step_def ending_def)
  then show ?thesis by blast
qed

text \<open>
  C7: if the writer is in its inner loop at the moment the destructor clears the flag, and the
  events are well typed, the program ends with a complete trace under every schedule: no schedule
  is longer than two steps for each queued event and seven more, and a schedule that cannot be
  continued has joined the writer, which has written everything that was ever pushed.
\<close>

theorem exit_drains:
  assumes "reachable h2d cap fs s" "s_exit s = X_running" "sys_step h2d cap Exit s = Some t"
    and "s_pc s \<in> {W_inner, W_pop}" "\<forall>e\<in>set (s_pushed s). well_typed e"
    and "run h2d cap acts t = Some u"
  shows "length acts \<le> 2 * length (s_queue s) + 7
    \<and> (s_exit u = X_joined \<and> s_pc u = W_done \<and> s_queue u = [] \<and> s_written u = s_pushed u
       \<or> (\<exists>a v. sys_step h2d cap a u = Some v))"
proof -
  have t: "t = s\<lparr>s_loaded := False, s_exit := X_flagged\<rparr>" "s_pending s = 0"
    using assms(2,3) by (auto simp: sys_step_def split: if_splits)
  have "ending t"
    using reachable_inv [OF assms(1)] reachable_typed [OF assms(1)] assms(4,5) t
    by (auto simp: ending_def sys_inv_def typed_inv_def)
  from ending_run [OF this assms(6)] have u: "ending u" "length acts \<le> steps_left t" by auto
  have "steps_left t \<le> 2 * length (s_queue s) + 7" using assms(4) t by (auto simp: steps_left_def)
  moreover have "s_pc u = W_done" if "s_exit u = X_joined" using u(1) that by (simp add: ending_def)
  ultimately show ?thesis
    using u ending_progress [OF u(1), of h2d cap]
      done_means_written [OF assms(1,3,2) _ assms(6)] assms(4) by (cases "s_exit u = X_joined") auto
qed

theorem exit_drains_witness:
  "\<exists>s t u. run 1 2 [Create, Writer, Writer, Push sample_event, Notify] (sys_init (\<lambda>_. None)) = Some s
    \<and> sys_step 1 2 Exit s = Some t
    \<and> run 1 2 [Writer, Writer, Writer, Writer, Writer, Writer, Exit, Exit, Exit] t = Some u
    \<and> s_exit u = X_joined \<and> s_written u = [sample_event]"
proof -
  obtain w' where w': "write_event 1 sample_event (writer_init (\<lambda>_. []) (\<lambda>_. None)) = Inr w'"
    using write_sample [OF clean_init, of 1 "\<lambda>_. []" "\<lambda>_. None"] by blast
  obtain s where s: "run 1 2 [Create, Writer, Writer, Push sample_event, Notify] (sys_init (\<lambda>_. None)) = Some s"
    "s_exit s = X_running" "s_pc s = W_inner" "s_pushed s = [sample_event]"
    by (simp add: sys_step_def sys_init_def notify_all_def)
  then obtain t where t: "sys_step 1 2 Exit s = Some t" "s_pushed t = [sample_event]"
    by (auto simp: sys_step_def sys_init_def notify_all_def)
  from s(1) t(1) w' obtain u where u: "run 1 2 [Writer, Writer, Writer, Writer, Writer, Writer, Exit, Exit, Exit] t = Some u"
    "s_exit u = X_joined" "s_pushed u = [sample_event]"
    by (auto simp: sys_step_def sys_init_def notify_all_def pop_step_def)
  have "\<not> (\<exists>a v. sys_step 1 2 a u = Some v)"
  proof
    assume "\<exists>a v. sys_step 1 2 a u = Some v"
    then obtain a v where a: "sys_step 1 2 a u = Some v" by blast
    have "run 1 2 ([Writer, Writer, Writer, Writer, Writer, Writer, Exit, Exit, Exit] @ [a]) t = Some v"
      by (simp only: run_append u(1) bind.bind_lunit) (simp add: a)
    from exit_drains [OF run_reachable [OF reachable.init s(1)] s(2) t(1) _ _ this] s well_typed_sample
    show False by (auto simp: sys_step_def sys_init_def notify_all_def)
  qed
  with exit_drains [OF run_reachable [OF reachable.init s(1)] s(2) t(1) _ _ u(1)] s(3,4) u(2,3) well_typed_sample
  show ?thesis using s(1) t(1) u(1) by auto
qed

text \<open>
  C37: otherwise the capture can be lost or the program can hang, for every event and every
  capacity: when the flag is cleared before the writer looks at it again, the event that was
  pushed last is never written although the program ends; and when it is cleared between the
  writer's check and its wait, the notification is missed and only a spurious wakeup could ever
  move the system again, with the destructor in \<^verbatim>\<open>join\<close> and the event in the queue.
\<close>

theorem exit_loses_or_hangs:
  assumes "0 < cap"
  shows "(\<exists>u. run h2d cap [Create, Writer, Push e, Notify, Exit, Writer, Writer, Exit, Exit, Exit] (sys_init fs) = Some u
        \<and> s_exit u = X_joined \<and> s_queue u = [e] \<and> s_written u = [])
    \<and> (\<exists>u. run h2d cap [Create, Writer, Writer, Writer, Writer, Push e, Notify, Exit, Exit, Writer, Exit] (sys_init fs) = Some u
        \<and> s_exit u = X_closed \<and> s_queue u = [e] \<and> (\<forall>a. a \<noteq> Spurious \<longrightarrow> sys_step h2d cap a u = None))"
proof (intro conjI)
  show "\<exists>u. run h2d cap [Create, Writer, Push e, Notify, Exit, Writer, Writer, Exit, Exit, Exit] (sys_init fs) = Some u
        \<and> s_exit u = X_joined \<and> s_queue u = [e] \<and> s_written u = []"
    using assms by (simp add: sys_step_def sys_init_def notify_all_def)
  have stuck: "sys_step h2d cap a u = None" if "s_pc u = W_blocked" "s_exit u = X_closed" "s_pending u = 0" "a \<noteq> Spurious" for a u
    using that by (cases a) (simp_all add: sys_step_def)
  obtain u where "run h2d cap [Create, Writer, Writer, Writer, Writer, Push e, Notify, Exit, Exit, Writer, Exit] (sys_init fs) = Some u"
    "s_exit u = X_closed" "s_queue u = [e]" "s_pc u = W_blocked" "s_pending u = 0"
    using assms by (simp add: sys_step_def sys_init_def notify_all_def)
  with stuck show "\<exists>u. run h2d cap [Create, Writer, Writer, Writer, Writer, Push e, Notify, Exit, Exit, Writer, Exit] (sys_init fs) = Some u
        \<and> s_exit u = X_closed \<and> s_queue u = [e] \<and> (\<forall>a. a \<noteq> Spurious \<longrightarrow> sys_step h2d cap a u = None)"
    by blast
qed

theorem exit_loses_or_hangs_witness:
  "\<exists>u. run 1 131072 [Create, Writer, Push sample_event, Notify, Exit, Writer, Writer, Exit, Exit, Exit] (sys_init (\<lambda>_. None)) = Some u
        \<and> s_exit u = X_joined \<and> s_queue u = [sample_event]"
proof -
  have "(0 :: nat) < 131072" by simp
  from exit_loses_or_hangs [OF this, of 1 sample_event "\<lambda>_. None"] show ?thesis by blast
qed

end
