(* ===== verification/Replay_Read.thy ===== *)
theory Replay_Read
  imports Event_Writer
begin

text \<open>
  How replay reads a stored trace back (\<^verbatim>\<open>replay/replay.cpp\<close>): the \<^verbatim>\<open>get_*\<close> functions, the list
  of events that the command loop loads, and the round trip from the event that capture queued to
  the values that replay uses.
\<close>

datatype replay_error = Null_text | File_missing | Length_error

section \<open>The queries\<close>

text \<open>A query with one parameter, stepped once.\<close>

definition query :: "string \<Rightarrow> string list \<Rightarrow> u32 \<Rightarrow> database \<Rightarrow> u32 \<times> result_row" where
  "query tab cols eid db =
     (let (rc, p) = sqlite3_bind_int [Mem_Null] 1 eid in step_select tab cols p db)"

definition get_free :: "database \<Rightarrow> u32 \<Rightarrow> u32 \<times> u64" where
  "get_free db eid =
     (let (rc, row) = query ''EventFree'' [''Ptr''] eid db
      in (rc, sqlite3_column_int64 row 0))"

definition get_malloc :: "database \<Rightarrow> u32 \<Rightarrow> u32 \<times> u64 \<times> u64" where
  "get_malloc db eid =
     (let (rc, row) = query ''EventMalloc'' [''Ptr'', ''Size''] eid db
      in (rc, sqlite3_column_int64 row 0, scast (sqlite3_column_int row 1)))"

text \<open>\<^verbatim>\<open>std::to_string\<close> of an \<^verbatim>\<open>int\<close>.\<close>

definition int_to_string :: "u32 \<Rightarrow> string" where
  "int_to_string n = (if sint n < 0 then ''-'' else []) @ to_string (nat \<bar>sint n\<bar>)"

text \<open>
  The buffer is resized to \<open>size\<close> zeroes (\<^verbatim>\<open>vector::resize\<close> throws above its largest size) and
  filled from the file as far as it goes. Opening a missing file yields the null pointer, which
  is then used.
\<close>

definition vector_max_size :: u64 where "vector_max_size = 0x7FFFFFFFFFFFFFFF"

definition get_memcpy :: "u32 \<Rightarrow> database \<times> files \<Rightarrow> u32
    \<Rightarrow> replay_error + u32 \<times> u64 \<times> u64 \<times> u64 \<times> u32 \<times> bytes" where
  "get_memcpy h2d = (\<lambda>(db, fs) eid.
     let (rc, row) = query ''EventMemcpy'' [''Dst'', ''Src'', ''Size'', ''Kind'', ''HostData''] eid db;
         dst = sqlite3_column_int64 row 0;
         src = sqlite3_column_int64 row 1;
         sz = scast (sqlite3_column_int row 2) :: u64;
         kind = sqlite3_column_int row 3;
         filename = ''./hostdata/'' @ ''hostdata-'' @ int_to_string eid @ ''.bin''
     in if kind = h2d then
          if sz > vector_max_size then Inl Length_error else
          (case fs filename of
             None \<Rightarrow> Inl File_missing
           | Some content \<Rightarrow>
               let got = take (unat sz) content
               in Inr (rc, dst, src, sz, kind, got @ replicate (unat sz - length got) 0))
        else Inr (rc, dst, src, sz, kind, []))"

definition get_launch :: "database \<Rightarrow> u32
    \<Rightarrow> replay_error + u32 \<times> u64 \<times> string \<times> dim3 \<times> dim3 \<times> u32 \<times> bytes" where
  "get_launch db eid =
     (let (rc, row) = query ''EventLaunch'' [''Stream'', ''KernelName'', ''NumX'', ''NumY'', ''NumZ'',
            ''DimX'', ''DimY'', ''DimZ'', ''SharedMem'', ''ArgData''] eid db;
          stream = scast (sqlite3_column_int row 0) :: u64
      in case sqlite3_column_text row 1 of
           None \<Rightarrow> Inl Null_text
         | Some name \<Rightarrow>
             let numBlocks = \<lparr>dim_x = sqlite3_column_int row 2, dim_y = sqlite3_column_int row 3,
                   dim_z = sqlite3_column_int row 4\<rparr>;
                 dimBlocks = \<lparr>dim_x = sqlite3_column_int row 5, dim_y = sqlite3_column_int row 6,
                   dim_z = sqlite3_column_int row 7\<rparr>;
                 sharedMemBytes = sqlite3_column_int row 8;
                 args_size = unat (sqlite3_column_bytes row 9)
             in Inr (rc, stream, c_str name, numBlocks, dimBlocks, sharedMemBytes,
                  take args_size (sqlite3_column_blob row 9)))"

text \<open>
  The list of events, as the command \<^verbatim>\<open>r\<close> loads it; the stream is not selected. A name is looked
  up in \<^verbatim>\<open>event_names\<close> and added to it when it is new; \<^verbatim>\<open>event.name\<close> points to that entry, here the
  text itself.
\<close>

record replay_event =
  re_id :: u64
  re_name :: string
  re_type :: HIP_EVENT

definition event_names :: "string list" where
  "event_names = [''hipMalloc'', ''hipMemcpy'', ''hipGetDeviceProperties'', ''hipFree'', ''hipLaunchKernel'']"

definition load_event :: "mem list \<Rightarrow> string list \<Rightarrow> replay_error + replay_event \<times> string list" where
  "load_event cs names =
     (case sqlite3_column_text (Some cs) 1 of
        None \<Rightarrow> Inl Null_text
      | Some text \<Rightarrow>
          let name = c_str text;
              names = (if name \<in> set names then names else names @ [name])
          in Inr (\<lparr>re_id = scast (sqlite3_column_int (Some cs) 0), re_name = name,
               re_type = HIP_EVENT_of (sqlite3_column_int (Some cs) 2)\<rparr>, names))"

fun load_rows :: "mem list list \<Rightarrow> replay_event list \<Rightarrow> string list
    \<Rightarrow> replay_error + replay_event list \<times> string list" where
  "load_rows [] events names = Inr (events, names)"
| "load_rows (r # rs) events names =
     rbind (load_event r names) (\<lambda>(event, names). load_rows rs (events @ [event]) names)"

text \<open>The loop appends to the events that an earlier command \<^verbatim>\<open>r\<close> left.\<close>

definition load_events :: "database \<Rightarrow> replay_event list \<Rightarrow> string list
    \<Rightarrow> replay_error + replay_event list \<times> string list" where
  "load_events db events names =
     load_rows (select_all ''Events'' [''Id'', ''Name'', ''EventType''] db) events names"

text \<open>The code objects, loaded once at the start.\<close>

fun load_code_rows :: "mem list list \<Rightarrow> string list \<Rightarrow> replay_error + string list" where
  "load_code_rows [] objects = Inr objects"
| "load_code_rows (r # rs) objects =
     (case sqlite3_column_text (Some r) 0 of
        None \<Rightarrow> Inl Null_text
      | Some name \<Rightarrow> load_code_rows rs (objects @ [c_str name]))"

definition load_code_objects :: "database \<Rightarrow> replay_error + string list" where
  "load_code_objects db = load_code_rows (select_all ''Code'' [''Path''] db) []"

section \<open>Reading what the writer stored\<close>

lemma map_of_map_filter:
  assumes "distinct (map key (filter (\<lambda>x. f x \<noteq> None) xs))" "x \<in> set xs" "f x = Some r"
  shows "map_of (List.map_filter (\<lambda>x. map_option (Pair (key x)) (f x)) xs) (key x) = Some r"
  using assms
proof (induction xs)
  case (Cons y xs)
  then show ?case
    by (cases "f y") (auto simp: map_filter_simps image_iff)
qed simp

definition stored :: "u32 \<Rightarrow> files \<Rightarrow> gputrace_event list \<Rightarrow> writer \<Rightarrow> bool" where
  "stored h2d fs es w \<longleftrightarrow> (\<forall>e\<in>set es. well_typed e)
     \<and> distinct (map event_key (filter (\<lambda>e. event_type e \<noteq> EVENT_CODE) es))
     \<and> write_events h2d es (writer_init (\<lambda>_. []) fs) = Inr w"

lemma stored_db:
  assumes "stored h2d fs es w"
  shows "tab \<noteq> ''Code'' \<Longrightarrow> event_db w tab = List.map_filter (keyed_row_in tab) es"
    and "w_files w = fold (store_files h2d) es fs"
proof -
  from assms have typed: "\<forall>e\<in>set es. well_typed e"
    and keys: "distinct (map event_key (filter (\<lambda>e. event_type e \<noteq> EVENT_CODE) es))"
    and run: "write_events h2d es (writer_init (\<lambda>_. []) fs) = Inr w" by (auto simp: stored_def)
  from write_events_stores [OF typed clean_init, of h2d "\<lambda>_. []" fs] run
  have db: "event_db w = fold store_tables es (\<lambda>_. [])" and "w_files w = fold (store_files h2d) es fs"
    by (auto simp: writer_init_def)
  then show "w_files w = fold (store_files h2d) es fs" by simp
  show "event_db w tab = List.map_filter (keyed_row_in tab) es" if "tab \<noteq> ''Code''"
    using fold_store_tables [OF typed that keys, of "\<lambda>_. []"] db by simp
qed

lemma row_in_not_code: "row_in tab e = Some r \<Longrightarrow> event_type e \<noteq> EVENT_CODE"
  by (auto simp: row_in_def split: if_splits)

lemma distinct_keys_subset:
  assumes "distinct (map key (filter P xs))" "\<And>x. Q x \<Longrightarrow> P x"
  shows "distinct (map key (filter Q xs))"
  using assms by (induction xs) (auto split: if_splits)

lemma stored_rows:
  assumes "stored h2d fs es w" "e \<in> set es" "row_in tab e = Some r" "tab \<noteq> ''Code''"
  shows "map_of (event_db w tab) (event_key e) = Some r"
proof -
  have "distinct (map event_key (filter (\<lambda>e. event_type e \<noteq> EVENT_CODE) es))"
    using assms(1) by (simp add: stored_def)
  then have "distinct (map event_key (filter (\<lambda>e. row_in tab e \<noteq> None) es))"
    by (rule distinct_keys_subset) (auto dest: row_in_not_code)
  from map_of_map_filter [of event_key "row_in tab", OF this assms(2,3)] show ?thesis
    using stored_db(1) [OF assms(1,4)] by (simp add: keyed_row_in_def [abs_def])
qed

text \<open>The parameter of the query is the key of the event.\<close>

lemma query_stored:
  assumes "stored h2d fs es w" "e \<in> set es" "row_in tab e = Some r" "tab \<noteq> ''Code''"
  shows "query tab cols (ucast (event_id e)) (event_db w)
    = (SQLITE_ROW, Some (select_columns (event_key e) r cols))"
  using stored_rows [OF assms]
  by (simp add: query_def store_simps step_select_def event_key_def)

lemma row_in_typed:
  "event_type e = EVENT_MALLOC \<Longrightarrow> event_data e = Data_malloc a \<Longrightarrow> row_in ''EventMalloc'' e = Some (malloc_row e a)"
  "event_type e = EVENT_FREE \<Longrightarrow> event_data e = Data_free b \<Longrightarrow> row_in ''EventFree'' e = Some (free_row e b)"
  "event_type e = EVENT_MEMCPY \<Longrightarrow> event_data e = Data_memcpy c \<Longrightarrow> row_in ''EventMemcpy'' e = Some (memcpy_row e c)"
  "event_type e = EVENT_LAUNCH \<Longrightarrow> event_data e = Data_launch d \<Longrightarrow> row_in ''EventLaunch'' e = Some (launch_row e d)"
  by (simp_all add: row_in_def)

lemma select_rows:
  "select_columns k (malloc_row e a) [''Ptr'', ''Size''] = [Mem_Int (malloc_p a), int_value (ucast (malloc_size a))]"
  "select_columns k (free_row e b) [''Ptr''] = [Mem_Int (free_p b)]"
  "select_columns k (memcpy_row e c) [''Dst'', ''Src'', ''Size'', ''Kind'', ''HostData'']
     = [Mem_Int (memcpy_dst c), Mem_Int (memcpy_src c), int_value (ucast (memcpy_size c)),
        int_value (memcpy_kind c), Mem_Null]"
  by (simp_all add: select_columns_def column_def row_defs sql_defs)

lemma select_launch_row:
  "select_columns k (launch_row e d) [''Stream'', ''KernelName'', ''NumX'', ''NumY'', ''NumZ'',
            ''DimX'', ''DimY'', ''DimZ'', ''SharedMem'', ''ArgData'']
     = [stream_value e, Mem_Text (c_str (launch_kernel_name d)),
        int_value (dim_x (launch_num_blocks d)), int_value (dim_y (launch_num_blocks d)),
        int_value (dim_z (launch_num_blocks d)), int_value (dim_x (launch_dim_blocks d)),
        int_value (dim_y (launch_dim_blocks d)), int_value (dim_z (launch_dim_blocks d)),
        int_value (launch_shared_mem_bytes d),
        (if launch_argdata d = [] then Mem_Null else Mem_Blob (launch_argdata d))]"
  by (simp add: select_columns_def column_def row_defs sql_defs)

text \<open>A small trace, used by the witnesses: an allocation of 2 GiB, a copy, a launch and a release.\<close>

definition sample_trace :: "gputrace_event list" where
  "sample_trace =
     [\<lparr>event_id = 0, event_rc = 0, event_stream = 0, event_name = ''hipMalloc'', event_type = EVENT_MALLOC,
       event_data = Data_malloc \<lparr>malloc_p = 4096, malloc_size = 0x80000000\<rparr>\<rparr>,
      \<lparr>event_id = 1, event_rc = 0, event_stream = 0, event_name = ''hipMemcpy'', event_type = EVENT_MEMCPY,
       event_data = Data_memcpy \<lparr>memcpy_dst = 4096, memcpy_src = 64, memcpy_size = 2, memcpy_kind = 1,
         memcpy_hostdata = [7, 9]\<rparr>\<rparr>,
      \<lparr>event_id = 2, event_rc = 0, event_stream = 0x300000001, event_name = ''hipLaunchKernel'', event_type = EVENT_LAUNCH,
       event_data = Data_launch \<lparr>launch_function_address = 16, launch_num_blocks = \<lparr>dim_x = 8, dim_y = 1, dim_z = 1\<rparr>,
         launch_dim_blocks = \<lparr>dim_x = 64, dim_y = 1, dim_z = 1\<rparr>, launch_shared_mem_bytes = 0,
         launch_argdata = [0, 16, 0, 0, 0, 0, 0, 0], launch_kernel_name = ''k''\<rparr>\<rparr>,
      \<lparr>event_id = 3, event_rc = 0, event_stream = 0, event_name = ''hipFree'', event_type = EVENT_FREE,
       event_data = Data_free \<lparr>free_p = 4096\<rparr>\<rparr>]"

lemma stored_exists:
  assumes "\<forall>e\<in>set es. well_typed e" "distinct (map event_key (filter (\<lambda>e. event_type e \<noteq> EVENT_CODE) es))"
  obtains w where "stored h2d fs es w"
  using write_events_stores [OF assms(1) clean_init, of h2d "\<lambda>_. []" fs] assms
  by (auto simp: stored_def)

lemma sample_stored: obtains w where "stored 1 (\<lambda>_. None) sample_trace w"
  by (rule stored_exists [of sample_trace]) (simp_all add: sample_trace_def well_typed_def event_key_def)

section \<open>Round trips\<close>

text \<open>A 64-bit value cut to 32 bits and sign-extended survives when it fits an \<^verbatim>\<open>int\<close>.\<close>

definition through_int :: "u64 \<Rightarrow> u64" where
  "through_int v = scast (ucast v :: u32)"

lemma through_int_exact: "through_int v = v \<longleftrightarrow> - (2 ^ 31) \<le> sint v \<and> sint v < 2 ^ 31"
proof -
  have "sint (through_int v) = signed_take_bit 31 (sint v)"
    by (rule bit_eqI) (auto simp: through_int_def bit_simps min_def)
  moreover have "through_int v = v \<longleftrightarrow> sint (through_int v) = sint v" by (metis signed_word_eqI)
  moreover have "signed_take_bit 31 (sint v) = sint v \<longleftrightarrow> - (2 ^ 31) \<le> sint v \<and> sint v < 2 ^ 31"
    using signed_take_bit_int_eq_self_iff [of 31 "sint v"] by simp
  ultimately show ?thesis by simp
qed

lemma get_malloc_stored:
  assumes "stored h2d fs es w" "e \<in> set es" "event_type e = EVENT_MALLOC" "event_data e = Data_malloc a"
  shows "get_malloc (event_db w) (ucast (event_id e)) = (SQLITE_ROW, malloc_p a, through_int (malloc_size a))"
  by (simp add: get_malloc_def query_stored [OF assms(1,2) row_in_typed(1) [OF assms(3,4)]]
      select_rows store_simps int_value_def through_int_def)

lemma get_free_stored:
  assumes "stored h2d fs es w" "e \<in> set es" "event_type e = EVENT_FREE" "event_data e = Data_free b"
  shows "get_free (event_db w) (ucast (event_id e)) = (SQLITE_ROW, free_p b)"
  by (simp add: get_free_def query_stored [OF assms(1,2) row_in_typed(2) [OF assms(3,4)]] select_rows store_simps)

text \<open>
  C13: an allocation or a release that capture stored is read back by replay with its pointer
  unchanged; the size comes back cut to 32 bits and sign-extended, so it is unchanged exactly
  when it fits a signed \<^verbatim>\<open>int\<close>.
\<close>

theorem replay_reads_malloc_free:
  assumes "stored h2d fs es w" "e \<in> set es"
  shows "(event_type e = EVENT_MALLOC \<and> event_data e = Data_malloc a \<longrightarrow>
        get_malloc (event_db w) (ucast (event_id e)) = (SQLITE_ROW, malloc_p a, through_int (malloc_size a))
        \<and> (through_int (malloc_size a) = malloc_size a \<longleftrightarrow>
             - (2 ^ 31) \<le> sint (malloc_size a) \<and> sint (malloc_size a) < 2 ^ 31))
    \<and> (event_type e = EVENT_FREE \<and> event_data e = Data_free b \<longrightarrow>
        get_free (event_db w) (ucast (event_id e)) = (SQLITE_ROW, free_p b))"
  using get_malloc_stored [OF assms] get_free_stored [OF assms] through_int_exact by blast

text \<open>The allocation of 2 GiB is read back with a size of nearly \<open>2 ^ 64\<close>.\<close>

theorem replay_reads_malloc_free_witness:
  "\<exists>w. stored 1 (\<lambda>_. None) sample_trace w
    \<and> get_malloc (event_db w) 0 = (SQLITE_ROW, 4096, 0xFFFFFFFF80000000)
    \<and> get_free (event_db w) 3 = (SQLITE_ROW, 4096)"
proof -
  obtain w where w: "stored 1 (\<lambda>_. None) sample_trace w" by (rule sample_stored)
  have e: "sample_trace ! 0 \<in> set sample_trace" "sample_trace ! 3 \<in> set sample_trace"
    by (simp_all add: sample_trace_def)
  show ?thesis
    using w replay_reads_malloc_free [OF w e(1), of "\<lparr>malloc_p = 4096, malloc_size = 0x80000000\<rparr>"]
      replay_reads_malloc_free [OF w e(2), of _ "\<lparr>free_p = 4096\<rparr>"]
    by (auto simp: sample_trace_def through_int_def)
qed

text \<open>Which file an event writes.\<close>

definition file_of :: "u32 \<Rightarrow> gputrace_event \<Rightarrow> string option" where
  "file_of h2d e = (case (event_type e, event_data e) of
      (EVENT_MEMCPY, Data_memcpy d) \<Rightarrow> if memcpy_kind d = h2d then Some (hostdata_file (unat (event_id e))) else None
    | (EVENT_CODE, Data_code d) \<Rightarrow> Some (c_str (code_filename d))
    | _ \<Rightarrow> None)"

lemma fold_store_files_other:
  "\<forall>x\<in>set es. file_of h2d x \<noteq> Some f \<Longrightarrow> fold (store_files h2d) es fs f = fs f"
proof (induction es arbitrary: fs)
  case (Cons x es)
  then have "store_files h2d x fs f = fs f"
    by (cases "event_type x"; cases "event_data x") (auto simp: store_files_def file_of_def)
  with Cons show ?case by simp
qed simp

lemma hostdata_file_inject [simp]: "hostdata_file m = hostdata_file n \<longleftrightarrow> m = n"
  by (simp add: hostdata_file_def)

lemma stored_hostdata:
  assumes "stored h2d fs es w" "e \<in> set es" "event_type e = EVENT_MEMCPY" "event_data e = Data_memcpy c"
    and "memcpy_kind c = h2d"
    and "\<forall>x\<in>set es. event_type x = EVENT_CODE \<longrightarrow> file_of h2d x \<noteq> Some (hostdata_file (unat (event_id e)))"
  shows "w_files w (hostdata_file (unat (event_id e))) = Some (memcpy_hostdata c)"
proof -
  obtain xs ys where es: "es = xs @ e # ys" "e \<notin> set ys" using split_list_last [OF assms(2)] by blast
  have keys: "event_key e \<notin> event_key ` {y \<in> set ys. event_type y \<noteq> EVENT_CODE}"
    using assms(1,3) es by (auto simp: stored_def)
  have "file_of h2d y \<noteq> Some (hostdata_file (unat (event_id e)))" if y: "y \<in> set ys" for y
  proof (cases "event_type y = EVENT_CODE")
    case True
    with y assms(6) es show ?thesis by auto
  next
    case False
    with y have "event_key y \<in> event_key ` {y \<in> set ys. event_type y \<noteq> EVENT_CODE}" by simp
    with keys have "unat (event_id y) \<noteq> unat (event_id e)" by (metis event_key_def word_unat_eq_iff)
    with False show ?thesis by (auto simp: file_of_def split: HIP_EVENT.splits gputrace_data.splits)
  qed
  then show ?thesis using stored_db(2) [OF assms(1)] es assms(3-5)
    by (simp add: fold_store_files_other store_files_def)
qed

lemma small_uint:
  assumes "unat (v :: u64) < 2 ^ 31"
  shows "0 \<le> uint v" "uint v < 2 ^ 31"
proof -
  have "int (unat v) < int (2 ^ 31)" using assms by (simp only: of_nat_less_iff)
  then show "uint v < 2 ^ 31" by simp
qed simp

lemma sint_small:
  "unat (v :: u64) < 2 ^ 31 \<Longrightarrow> sint v = int (unat v)"
  "unat (v :: u64) < 2 ^ 31 \<Longrightarrow> sint (ucast v :: u32) = int (unat v)"
proof -
  assume "unat v < 2 ^ 31"
  then have b: "0 \<le> uint v" "uint v < 2 ^ 31" by (rule small_uint)+
  have "sint v = signed_take_bit 63 (uint v)" "sint (ucast v :: u32) = signed_take_bit 31 (uint v)"
    by (simp add: sint_uint, simp add: signed_ucast_eq)
  moreover have "k \<le> uint v" if "k \<le> 0" for k using that unsigned_greater_eq [of v] by (rule order_trans)
  then have "signed_take_bit 63 (uint v) = uint v" "signed_take_bit 31 (uint v) = uint v"
    using b(2) unfolding signed_take_bit_int_eq_self_iff by simp_all
  ultimately show "sint v = int (unat v)" "sint (ucast v :: u32) = int (unat v)" by simp_all
qed

lemma int_to_string_small: "unat (v :: u64) < 2 ^ 31 \<Longrightarrow> int_to_string (ucast v) = to_string (unat v)"
  by (simp add: int_to_string_def sint_small)

lemma through_int_small: "unat v < 2 ^ 31 \<Longrightarrow> through_int v = v"
proof (subst through_int_exact)
  assume "unat v < 2 ^ 31"
  then have "sint v = uint v" "0 \<le> uint v" "uint v < 2 ^ 31" using sint_small(1) [of v] small_uint [of v] by auto
  then show "- (2 ^ 31) \<le> sint v \<and> sint v < 2 ^ 31" by linarith
qed

lemma get_memcpy_stored_other:
  assumes "stored h2d fs es w" "e \<in> set es" "event_type e = EVENT_MEMCPY" "event_data e = Data_memcpy c"
    and "memcpy_kind c \<noteq> h2d"
  shows "get_memcpy h2d (event_db w, w_files w) (ucast (event_id e))
        = Inr (SQLITE_ROW, memcpy_dst c, memcpy_src c, through_int (memcpy_size c), memcpy_kind c, [])"
  using assms(5)
  by (simp add: get_memcpy_def query_stored [OF assms(1,2) row_in_typed(3) [OF assms(3,4)]]
      select_rows store_simps int_value_def Let_def through_int_def)

text \<open>The copies whose data replay gets back.\<close>

definition replayable_copy :: "u32 \<Rightarrow> gputrace_event list \<Rightarrow> gputrace_event \<Rightarrow> gputrace_event_memcpy \<Rightarrow> bool" where
  "replayable_copy h2d es e c \<longleftrightarrow> memcpy_kind c = h2d \<and> unat (event_id e) < 2 ^ 31 \<and> unat (memcpy_size c) < 2 ^ 31
     \<and> length (memcpy_hostdata c) = unat (memcpy_size c)
     \<and> (\<forall>x\<in>set es. event_type x = EVENT_CODE \<longrightarrow> file_of h2d x \<noteq> Some (hostdata_file (unat (event_id e))))"

lemma get_memcpy_stored_h2d:
  assumes "stored h2d fs es w" "e \<in> set es" "event_type e = EVENT_MEMCPY" "event_data e = Data_memcpy c"
    and "replayable_copy h2d es e c"
  shows "get_memcpy h2d (event_db w, w_files w) (ucast (event_id e))
        = Inr (SQLITE_ROW, memcpy_dst c, memcpy_src c, memcpy_size c, h2d, memcpy_hostdata c)"
proof -
  note q = query_stored [OF assms(1,2) row_in_typed(3) [OF assms(3,4)]]
  from assms(5) have h: "memcpy_kind c = h2d" and small: "unat (event_id e) < 2 ^ 31" "unat (memcpy_size c) < 2 ^ 31"
    and len: "length (memcpy_hostdata c) = unat (memcpy_size c)"
    and other: "\<forall>x\<in>set es. event_type x = EVENT_CODE \<longrightarrow> file_of h2d x \<noteq> Some (hostdata_file (unat (event_id e)))"
    by (auto simp: replayable_copy_def)
  have content: "w_files w (''./hostdata/'' @ ''hostdata-'' @ int_to_string (ucast (event_id e)) @ ''.bin'')
      = Some (memcpy_hostdata c)"
    using stored_hostdata [OF assms(1-4) h other] unfolding int_to_string_small [OF small(1)] hostdata_file_def .
  have sz: "scast (ucast (memcpy_size c) :: u32) = memcpy_size c"
    using through_int_small [OF small(2)] by (simp add: through_int_def)
  have "\<not> memcpy_size c > vector_max_size"
    using small(2) by (simp add: vector_max_size_def word_less_nat_alt)
  with content sz len h show ?thesis
    by (simp add: get_memcpy_def q select_rows store_simps int_value_def Let_def del: append.simps append_assoc)
qed

text \<open>
  C11: a copy that capture stored is read back with its addresses and its kind, and its size
  through an \<^verbatim>\<open>int\<close>; a copy from the host with an event number and a size below \<open>2 ^ 31\<close> gets
  exactly the bytes that capture saved, provided that no code object was saved under the name of
  its data file.
\<close>

theorem replay_reads_memcpy:
  assumes "stored h2d fs es w" "e \<in> set es" "event_type e = EVENT_MEMCPY" "event_data e = Data_memcpy c"
  shows "(memcpy_kind c \<noteq> h2d \<longrightarrow> get_memcpy h2d (event_db w, w_files w) (ucast (event_id e))
        = Inr (SQLITE_ROW, memcpy_dst c, memcpy_src c, through_int (memcpy_size c), memcpy_kind c, []))
    \<and> (replayable_copy h2d es e c \<longrightarrow> get_memcpy h2d (event_db w, w_files w) (ucast (event_id e))
        = Inr (SQLITE_ROW, memcpy_dst c, memcpy_src c, memcpy_size c, h2d, memcpy_hostdata c))"
  using get_memcpy_stored_other [OF assms] get_memcpy_stored_h2d [OF assms] by blast

theorem replay_reads_memcpy_witness:
  "\<exists>w. stored 1 (\<lambda>_. None) sample_trace w
    \<and> get_memcpy 1 (event_db w, w_files w) 1 = Inr (SQLITE_ROW, 4096, 64, 2, 1, [7, 9])"
proof -
  obtain w where w: "stored 1 (\<lambda>_. None) sample_trace w" by (rule sample_stored)
  have e: "sample_trace ! 1 \<in> set sample_trace" by (simp add: sample_trace_def)
  show ?thesis
    using w replay_reads_memcpy [OF w e, of "\<lparr>memcpy_dst = 4096, memcpy_src = 64, memcpy_size = 2, memcpy_kind = 1,
         memcpy_hostdata = [7, 9]\<rparr>"]
    by (auto simp: sample_trace_def replayable_copy_def)
qed

lemma c_str_c_str [simp]: "c_str (c_str s) = c_str s"
  by (simp add: c_str_def)

lemma get_launch_stored:
  assumes "stored h2d fs es w" "e \<in> set es" "event_type e = EVENT_LAUNCH" "event_data e = Data_launch d"
    and "length (launch_argdata d) < 2 ^ 31"
  shows "get_launch (event_db w) (ucast (event_id e))
    = Inr (SQLITE_ROW, through_int (event_stream e), c_str (launch_kernel_name d), launch_num_blocks d,
        launch_dim_blocks d, launch_shared_mem_bytes d, launch_argdata d)"
proof -
  note q = query_stored [OF assms(1,2) row_in_typed(4) [OF assms(3,4)]]
  have len: "unat (word_of_nat (length (launch_argdata d)) :: u32) = length (launch_argdata d)"
    using assms(5) by (simp add: unsigned_of_nat take_bit_nat_eq_self)
  show ?thesis
    by (simp add: get_launch_def q select_launch_row store_simps int_value_def stream_value_def
        through_int_def sqlite3_column_bytes_def len)
qed

text \<open>
  C12: a launch that capture stored is read back with its name, its grid and block dimensions, its
  shared memory and every byte of its packed arguments; the stream handle comes back cut to 32
  bits and sign-extended.
\<close>

theorem replay_reads_launch:
  assumes "stored h2d fs es w" "e \<in> set es" "event_type e = EVENT_LAUNCH" "event_data e = Data_launch d"
    and "length (launch_argdata d) < 2 ^ 31"
  shows "get_launch (event_db w) (ucast (event_id e))
    = Inr (SQLITE_ROW, through_int (event_stream e), c_str (launch_kernel_name d), launch_num_blocks d,
        launch_dim_blocks d, launch_shared_mem_bytes d, launch_argdata d)"
  using get_launch_stored [OF assms] .

theorem replay_reads_launch_witness:
  "\<exists>w. stored 1 (\<lambda>_. None) sample_trace w
    \<and> get_launch (event_db w) 2 = Inr (SQLITE_ROW, 1, ''k'', \<lparr>dim_x = 8, dim_y = 1, dim_z = 1\<rparr>,
        \<lparr>dim_x = 64, dim_y = 1, dim_z = 1\<rparr>, 0, [0, 16, 0, 0, 0, 0, 0, 0])"
proof -
  obtain w where w: "stored 1 (\<lambda>_. None) sample_trace w" by (rule sample_stored)
  have e: "sample_trace ! 2 \<in> set sample_trace" by (simp add: sample_trace_def)
  show ?thesis
    using w replay_reads_launch [OF w e, of "\<lparr>launch_function_address = 16, launch_num_blocks = \<lparr>dim_x = 8, dim_y = 1, dim_z = 1\<rparr>,
         launch_dim_blocks = \<lparr>dim_x = 64, dim_y = 1, dim_z = 1\<rparr>, launch_shared_mem_bytes = 0,
         launch_argdata = [0, 16, 0, 0, 0, 0, 0, 0], launch_kernel_name = ''k''\<rparr>"]
    by (auto simp: sample_trace_def through_int_def c_str_def)
qed

section \<open>The list of events\<close>

lemma insort_key_map: "insort_key f (g x) (map g xs) = map g (insort_key (\<lambda>x. f (g x)) x xs)"
  by (induction xs) auto

lemma sort_key_map: "sort_key f (map g xs) = map g (sort_key (\<lambda>x. f (g x)) xs)"
  by (induction xs) (simp_all add: insort_key_map)

lemma insort_key_cong:
  "\<forall>y\<in>set xs. f x \<le> f y \<longleftrightarrow> g x \<le> g y \<Longrightarrow> insort_key f x xs = insort_key g x xs"
  by (induction xs) auto

lemma sort_key_cong_order:
  "\<forall>x\<in>set xs. \<forall>y\<in>set xs. f x \<le> f y \<longleftrightarrow> g x \<le> g y \<Longrightarrow> sort_key f xs = sort_key g xs"
proof (induction xs)
  case (Cons x xs)
  then have "sort_key f xs = sort_key g xs" by simp
  moreover have "insort_key f x (sort_key g xs) = insort_key g x (sort_key g xs)"
    by (rule insort_key_cong) (use Cons.prems in simp)
  ultimately show ?case by simp
qed simp

lemma map_filter_Pair:
  "List.map_filter (\<lambda>x. if P x then Some (g x) else None) xs = map g (filter P xs)"
  by (induction xs) (simp_all add: map_filter_simps)

lemma stored_Events:
  "stored h2d fs es w \<Longrightarrow> event_db w ''Events''
    = map (\<lambda>e. (event_key e, event_row e)) (filter (\<lambda>e. event_type e \<noteq> EVENT_CODE) es)"
  unfolding map_filter_Pair [symmetric]
  by (subst stored_db(1)) (auto simp: keyed_row_in_def row_in_def intro!: arg_cong2 [where f = List.map_filter])

definition loaded_event :: "gputrace_event \<Rightarrow> replay_event" where
  "loaded_event e = \<lparr>re_id = event_key e, re_name = c_str (event_name e), re_type = event_type e\<rparr>"

lemma select_event_row:
  "select_columns k (event_row e) [''Id'', ''Name'', ''EventType'']
     = [Mem_Int k, Mem_Text (c_str (event_name e)), int_value (HIP_EVENT_code (event_type e))]"
  by (simp add: select_columns_def column_def row_defs sql_defs)

lemma load_event_stored:
  "\<exists>names'. load_event (select_columns (event_key e) (event_row e) [''Id'', ''Name'', ''EventType'']) names
    = Inr (loaded_event e, names')"
  by (simp add: load_event_def select_event_row store_simps int_value_def loaded_event_def event_key_def Let_def)

lemma load_rows_stored:
  "\<exists>names'. load_rows (map (\<lambda>e. select_columns (event_key e) (event_row e) [''Id'', ''Name'', ''EventType'']) es)
      events names = Inr (events @ map loaded_event es, names')"
proof (induction es arbitrary: events names)
  case (Cons e es)
  obtain n where "load_event (select_columns (event_key e) (event_row e) [''Id'', ''Name'', ''EventType'']) names
    = Inr (loaded_event e, n)" using load_event_stored by blast
  with Cons.IH [of "events @ [loaded_event e]" n] show ?case by auto
qed simp

lemma load_events_stored:
  assumes "stored h2d fs es w" "\<forall>e\<in>set es. event_type e \<noteq> EVENT_CODE \<longrightarrow> unat (event_id e) < 2 ^ 31"
  shows "\<exists>names. load_events (event_db w) events names0 = Inr (events @
      map (\<lambda>e. \<lparr>re_id = event_id e, re_name = c_str (event_name e), re_type = event_type e\<rparr>)
        (sort_key event_id (filter (\<lambda>e. event_type e \<noteq> EVENT_CODE) es)), names)"
proof -
  let ?es = "filter (\<lambda>e. event_type e \<noteq> EVENT_CODE) es"
  have small: "event_key e = event_id e" "sint (event_id e) = uint (event_id e)" if "e \<in> set ?es" for e
    using that assms(2) sint_small(1) [of "event_id e"] through_int_small [of "event_id e"]
    by (auto simp: event_key_def through_int_def)
  have "sort_key (sint \<circ> event_key) ?es = sort_key event_id ?es"
    by (intro sort_key_cong_order ballI) (use small in \<open>auto simp: word_le_def\<close>)
  then have "select_all ''Events'' [''Id'', ''Name'', ''EventType''] (event_db w)
      = map (\<lambda>e. select_columns (event_key e) (event_row e) [''Id'', ''Name'', ''EventType'']) (sort_key event_id ?es)"
    by (simp add: select_all_def stored_Events [OF assms(1)] sort_key_map comp_def)
  moreover have "map loaded_event (sort_key event_id ?es)
      = map (\<lambda>e. \<lparr>re_id = event_id e, re_name = c_str (event_name e), re_type = event_type e\<rparr>) (sort_key event_id ?es)"
    by (rule map_cong) (use small in \<open>auto simp: loaded_event_def\<close>)
  ultimately show ?thesis using load_rows_stored [of "sort_key event_id ?es" events names0]
    by (auto simp: load_events_def)
qed



end
