(* ===== verification/Replay_Step.thy ===== *)
theory Replay_Step
  imports Replay_Read Arg_Info
begin

text \<open>
  Replaying one event (\<open>step_event\<close> in \<^verbatim>\<open>replay/replay.cpp\<close>) and the command loop of the program.
  The HIP driver and the loader of code objects are the fields of a record, each a function of a
  state of the outside world. Every undefined behaviour of the C++ code that the checks of the
  code do not exclude is an error value.
\<close>

section \<open>State\<close>

datatype step_error = Read_failed replay_error | Metadata_failed elf_error
  | Deref_end                \<comment> \<open>\<^verbatim>\<open>it->second\<close> of \<^verbatim>\<open>allocations.end()\<close>\<close>
  | Arg_out_of_range         \<comment> \<open>\<^verbatim>\<open>memcpy\<close> outside the packed arguments, or past the 8 bytes of a pointer\<close>
  | Buffer_out_of_range      \<comment> \<open>\<^verbatim>\<open>((float*)buff.data())[12]\<close> beyond the buffer\<close>
  | Event_out_of_range       \<comment> \<open>\<^verbatim>\<open>events[i]\<close> beyond the list\<close>

definition lift_read :: "replay_error + 'a \<Rightarrow> step_error + 'a" where
  "lift_read m = (case m of Inl e \<Rightarrow> Inl (Read_failed e) | Inr x \<Rightarrow> Inr x)"

definition lift_elf :: "elf_error + 'a \<Rightarrow> step_error + 'a" where
  "lift_elf m = (case m of Inl e \<Rightarrow> Inl (Metadata_failed e) | Inr x \<Rightarrow> Inr x)"

text \<open>
  The driver: \<open>Some stream\<close> in a copy stands for \<^verbatim>\<open>hipMemcpyWithStream\<close>. \<open>rr_find_kernel\<close> is
  \<^verbatim>\<open>hipModuleLoad\<close> followed by \<^verbatim>\<open>hipModuleGetFunction\<close>. An allocation that fails leaves the null
  pointer.
\<close>

record 'w replay_runtime =
  rr_hipMalloc :: "u64 \<Rightarrow> 'w \<Rightarrow> u64 \<times> 'w"
  rr_hipFree :: "u64 \<Rightarrow> 'w \<Rightarrow> 'w"
  rr_copy_to :: "u64 option \<Rightarrow> u64 \<Rightarrow> bytes \<Rightarrow> u64 \<Rightarrow> 'w \<Rightarrow> 'w"
  rr_copy_from :: "u64 option \<Rightarrow> u64 \<Rightarrow> u64 \<Rightarrow> 'w \<Rightarrow> bytes \<times> 'w"
  rr_find_kernel :: "string \<Rightarrow> string \<Rightarrow> 'w \<Rightarrow> u64 option \<times> 'w"
  rr_launch :: "u64 \<Rightarrow> dim3 \<Rightarrow> dim3 \<Rightarrow> u32 \<Rightarrow> u64 \<Rightarrow> bytes \<Rightarrow> 'w \<Rightarrow> 'w"
  rr_stream_create :: "'w \<Rightarrow> u64 \<times> 'w"
  rr_stream_synchronize :: "u64 \<Rightarrow> 'w \<Rightarrow> 'w"
  rr_device_synchronize :: "'w \<Rightarrow> 'w"
  rr_get_properties :: "'w \<Rightarrow> 'w"
  rr_event_create :: "'w \<Rightarrow> u64 \<times> 'w"
  rr_event_record :: "u64 \<Rightarrow> 'w \<Rightarrow> 'w"
  rr_elapsed :: "u64 \<times> u64 \<Rightarrow> 'w \<Rightarrow> u32 \<times> 'w"
  rr_sections :: "string \<Rightarrow> section_data list"
  rr_h2d :: u32
  rr_d2h :: u32
  rr_default_stream :: u64

record 'w replay_state =
  allocations :: "u64 \<Rightarrow> u64 option"
  host_buffers :: "u64 \<Rightarrow> bytes option"
  stream_mappings :: "u64 \<Rightarrow> u64 option"
  timers :: "(u64 \<times> u64) list"
  world :: 'w

text \<open>\<^verbatim>\<open>map[key]\<close> inserts a null value when the key is absent.\<close>

definition index_map :: "(u64 \<Rightarrow> u64 option) \<Rightarrow> u64 \<Rightarrow> u64 \<times> (u64 \<Rightarrow> u64 option)" where
  "index_map m k = (case m k of Some v \<Rightarrow> (v, m) | None \<Rightarrow> (0, m(k \<mapsto> 0)))"

text \<open>What does not change while replaying: the database, the files and the code objects.\<close>

record trace_input =
  in_db :: database
  in_files :: files
  in_objects :: "string list"

section \<open>Memory copies\<close>

definition replay_memcpy :: "'w replay_runtime \<Rightarrow> string \<Rightarrow> u64 \<Rightarrow> u64 \<times> u64 \<times> u64 \<times> u32 \<times> bytes \<Rightarrow> 'w replay_state
    \<Rightarrow> step_error + 'w replay_state" where
  "replay_memcpy rt name stream = (\<lambda>(dst, src, sz, kind, buffer) s.
     let on = (if name = ''hipMemcpyWithStream'' then Some stream else None)
     in if kind = rr_h2d rt then
          (case allocations s dst of
             None \<Rightarrow> Inl Deref_end
           | Some real_dst \<Rightarrow> Inr (s\<lparr>world := rr_copy_to rt on real_dst buffer sz (world s)\<rparr>))
        else if kind = rr_d2h rt then
          if sz > vector_max_size then Inl (Read_failed Length_error) else
          let buff = (case host_buffers s dst of Some b \<Rightarrow> b | None \<Rightarrow> replicate (unat sz) 0);
              buff = (if length buff < unat sz then buff @ replicate (unat sz - length buff) 0 else buff);
              (real_src, allocs) = index_map (allocations s) src;
              (got, w) = rr_copy_from rt on real_src sz (world s);
              buff = take (unat sz) got @ drop (length (take (unat sz) got)) buff
          in if length buff < 52 then Inl Buffer_out_of_range
             else Inr (s\<lparr>allocations := allocs, host_buffers := (host_buffers s)(dst \<mapsto> buff), world := w\<rparr>)
        else Inr s)"

definition step_memcpy :: "'w replay_runtime \<Rightarrow> trace_input \<Rightarrow> replay_event \<Rightarrow> u64 \<Rightarrow> 'w replay_state
    \<Rightarrow> step_error + 'w replay_state" where
  "step_memcpy rt inp event stream s =
     rbind (lift_read (get_memcpy (rr_h2d rt) (in_db inp, in_files inp) (ucast (re_id event))))
       (\<lambda>(rc, copy). replay_memcpy rt (re_name event) stream copy s)"

section \<open>Launches\<close>

text \<open>
  One argument: the captured value of a buffer argument is replaced by the address that replay
  allocated for it. A value narrower than a pointer keeps the upper bytes \<open>uninit\<close> of the
  uninitialised variable.
\<close>

definition translate_arg :: "u64 \<Rightarrow> (u64 \<Rightarrow> u64 option) \<Rightarrow> ArgInfo \<Rightarrow> bytes \<Rightarrow> step_error + bytes" where
  "translate_arg uninit allocs info args =
     (if value_kind info = ''global_buffer'' then
        let sz = unat (info_size info); offset = unat (info_offset info)
        in if sz > 8 \<or> offset + sz > length args then Inl Arg_out_of_range
           else
             let val = le_word (take sz (drop offset args) @ drop sz (le_bytes 8 uninit))
             in case allocs val of
                  Some replay_value \<Rightarrow>
                    Inr (take offset args @ take sz (le_bytes 8 replay_value) @ drop (offset + sz) args)
                | None \<Rightarrow> Inr args
      else Inr args)"

fun translate_args :: "u64 \<Rightarrow> (u64 \<Rightarrow> u64 option) \<Rightarrow> ArgInfo list \<Rightarrow> bytes \<Rightarrow> step_error + bytes" where
  "translate_args uninit allocs [] args = Inr args"
| "translate_args uninit allocs (info # infos) args =
     rbind (translate_arg uninit allocs info args) (translate_args uninit allocs infos)"

fun read_arg_infos :: "'w replay_runtime \<Rightarrow> ArgInfo \<Rightarrow> string list \<Rightarrow> names_to_info \<Rightarrow> step_error + names_to_info" where
  "read_arg_infos rt fresh [] t = Inr t"
| "read_arg_infos rt fresh (path # objects) t =
     rbind (lift_elf (oldGetArgInfo fresh (rr_sections rt path) t)) (read_arg_infos rt fresh objects)"

fun find_kernel :: "'w replay_runtime \<Rightarrow> string \<Rightarrow> string list \<Rightarrow> 'w \<Rightarrow> u64 option \<times> 'w" where
  "find_kernel rt kernel_name [] w = (None, w)"
| "find_kernel rt kernel_name (path # objects) w =
     (case rr_find_kernel rt path kernel_name w of
        (Some fn, w) \<Rightarrow> (Some fn, w)
      | (None, w) \<Rightarrow> find_kernel rt kernel_name objects w)"

text \<open>The result is false for the early return with \<^verbatim>\<open>-1\<close>.\<close>

definition replay_launch :: "'w replay_runtime \<Rightarrow> ArgInfo \<Rightarrow> u64 \<Rightarrow> string list
    \<Rightarrow> u64 \<times> string \<times> dim3 \<times> dim3 \<times> u32 \<times> bytes \<Rightarrow> 'w replay_state \<Rightarrow> step_error + bool \<times> 'w replay_state" where
  "replay_launch rt fresh uninit objects = (\<lambda>(stream, kernel_name, numBlocks, dimBlocks, sharedMemBytes, args) s.
     rbind (read_arg_infos rt fresh objects (\<lambda>_. None)) (\<lambda>names_to_infos.
     let arg_infos = (case names_to_infos kernel_name of None \<Rightarrow> [] | Some infos \<Rightarrow> infos)
     in rbind (translate_args uninit (allocations s) arg_infos args) (\<lambda>args.
        case find_kernel rt kernel_name objects (world s) of
          (None, w) \<Rightarrow> Inr (False, s\<lparr>world := w\<rparr>)
        | (Some fn, w) \<Rightarrow>
            let (new_stream, mappings) =
                  (if stream \<noteq> rr_default_stream rt then index_map (stream_mappings s) stream
                   else (rr_default_stream rt, stream_mappings s))
            in Inr (True, s\<lparr>stream_mappings := mappings,
                 world := rr_launch rt fn numBlocks dimBlocks sharedMemBytes new_stream args w\<rparr>))))"

definition step_launch :: "'w replay_runtime \<Rightarrow> ArgInfo \<Rightarrow> u64 \<Rightarrow> trace_input \<Rightarrow> replay_event \<Rightarrow> 'w replay_state
    \<Rightarrow> step_error + bool \<times> 'w replay_state" where
  "step_launch rt fresh uninit inp event s =
     rbind (lift_read (get_launch (in_db inp) (ucast (re_id event))))
       (\<lambda>(rc, launch). replay_launch rt fresh uninit (in_objects inp) launch s)"

section \<open>Allocations\<close>

text \<open>\<^verbatim>\<open>unordered_map::insert\<close> keeps an entry that is already there.\<close>

definition replay_malloc :: "'w replay_runtime \<Rightarrow> u64 \<Rightarrow> u64 \<Rightarrow> 'w replay_state \<Rightarrow> bool \<times> 'w replay_state" where
  "replay_malloc rt ptr sz s =
     (let (ret, w) = rr_hipMalloc rt sz (world s);
          s = s\<lparr>world := w\<rparr>
      in if ret = 0 then (False, s)
         else (True, s\<lparr>allocations := (case allocations s ptr of
                None \<Rightarrow> (allocations s)(ptr \<mapsto> ret) | Some _ \<Rightarrow> allocations s)\<rparr>))"

definition step_malloc :: "'w replay_runtime \<Rightarrow> trace_input \<Rightarrow> replay_event \<Rightarrow> 'w replay_state
    \<Rightarrow> bool \<times> 'w replay_state" where
  "step_malloc rt inp event s =
     (let (rc, ptr, sz) = get_malloc (in_db inp) (ucast (re_id event)) in replay_malloc rt ptr sz s)"

definition replay_free :: "'w replay_runtime \<Rightarrow> u64 \<Rightarrow> 'w replay_state \<Rightarrow> 'w replay_state" where
  "replay_free rt p s =
     (let real_ptr = (case allocations s p of Some q \<Rightarrow> q | None \<Rightarrow> 0)
      in if real_ptr \<noteq> 0 then s\<lparr>world := rr_hipFree rt real_ptr (world s)\<rparr> else s)"

definition step_free :: "'w replay_runtime \<Rightarrow> trace_input \<Rightarrow> replay_event \<Rightarrow> 'w replay_state \<Rightarrow> 'w replay_state" where
  "step_free rt inp event s =
     (let (rc, p) = get_free (in_db inp) (ucast (re_id event)) in replay_free rt p s)"

section \<open>One event\<close>

text \<open>
  The body between the two timer events. \<open>stream\<close> is \<^verbatim>\<open>replay_event.stream\<close>, which the loading
  loop leaves uninitialised.
\<close>

definition execute_event :: "'w replay_runtime \<Rightarrow> ArgInfo \<Rightarrow> u64 \<Rightarrow> trace_input \<Rightarrow> replay_event \<Rightarrow> u64 \<Rightarrow> 'w replay_state
    \<Rightarrow> step_error + bool \<times> 'w replay_state" where
  "execute_event rt fresh uninit inp event stream s =
     (if re_type event = EVENT_DEVICE \<and> re_name event = ''hipGetDeviceProperties'' then
        Inr (True, s\<lparr>world := rr_get_properties rt (world s)\<rparr>)
      else if re_name event = ''hipDeviceSynchronize'' then
        Inr (True, s\<lparr>world := rr_device_synchronize rt (world s)\<rparr>)
      else if re_name event = ''hipStreamCreate'' then
        (let (new, w) = rr_stream_create rt (world s)
         in Inr (True, s\<lparr>stream_mappings := (stream_mappings s)(stream \<mapsto> new), world := w\<rparr>))
      else if re_name event = ''hipStreamSynchronize'' then
        (let (target, mappings) =
               (if stream \<noteq> rr_default_stream rt then index_map (stream_mappings s) stream
                else (rr_default_stream rt, stream_mappings s))
         in Inr (True, s\<lparr>stream_mappings := mappings, world := rr_stream_synchronize rt target (world s)\<rparr>))
      else case re_type event of
        EVENT_MEMCPY \<Rightarrow> rbind (step_memcpy rt inp event stream s) (\<lambda>s. Inr (True, s))
      | EVENT_LAUNCH \<Rightarrow> step_launch rt fresh uninit inp event s
      | EVENT_MALLOC \<Rightarrow> Inr (step_malloc rt inp event s)
      | EVENT_FREE \<Rightarrow> Inr (True, step_free rt inp event s)
      | _ \<Rightarrow> Inr (True, s))"

text \<open>An event that returns early is not timed.\<close>

definition step_event :: "'w replay_runtime \<Rightarrow> ArgInfo \<Rightarrow> u64 \<Rightarrow> trace_input \<Rightarrow> replay_event \<times> u64 \<Rightarrow> 'w replay_state
    \<Rightarrow> step_error + 'w replay_state" where
  "step_event rt fresh uninit inp = (\<lambda>(event, stream) s.
     let (start, w) = rr_event_create rt (world s);
         (finish, w) = rr_event_create rt w;
         w = rr_event_record rt start w
     in rbind (execute_event rt fresh uninit inp event stream (s\<lparr>world := w\<rparr>)) (\<lambda>(done, s).
          if done then Inr (s\<lparr>timers := timers s @ [(start, finish)],
                              world := rr_event_record rt finish (world s)\<rparr>)
          else Inr s))"

section \<open>The command loop\<close>

record 'w session =
  ss_state :: "'w replay_state"
  ss_events :: "(replay_event \<times> u64) list"
  ss_names :: "string list"
  ss_curr :: nat
  ss_results :: "(u32 \<times> u32) list"

datatype command = Cmd_run | Cmd_step | Cmd_save | Cmd_load | Cmd_other

definition command_of :: "string \<Rightarrow> command" where
  "command_of line = (case line of [] \<Rightarrow> Cmd_other | c # _ \<Rightarrow>
     if c = CHR ''r'' then Cmd_run else if c = CHR ''n'' then Cmd_step
     else if c = CHR ''s'' then Cmd_save else if c = CHR ''l'' then Cmd_load else Cmd_other)"

fun step_events :: "'w replay_runtime \<Rightarrow> ArgInfo \<Rightarrow> u64 \<Rightarrow> trace_input \<Rightarrow> (replay_event \<times> u64) list \<Rightarrow> 'w replay_state
    \<Rightarrow> step_error + 'w replay_state" where
  "step_events rt fresh uninit inp [] s = Inr s"
| "step_events rt fresh uninit inp (event # events) s =
     rbind (step_event rt fresh uninit inp event s) (step_events rt fresh uninit inp events)"

text \<open>
  The results: timer \<open>i\<close> is stored under the number of event \<open>i\<close>; a number that is already in
  the table violates its primary key and is skipped.
\<close>

fun store_results :: "'w replay_runtime \<Rightarrow> (replay_event \<times> u64) list \<Rightarrow> nat \<Rightarrow> (u64 \<times> u64) list
    \<Rightarrow> (u32 \<times> u32) list \<Rightarrow> 'w \<Rightarrow> step_error + (u32 \<times> u32) list \<times> 'w" where
  "store_results rt events i [] results w = Inr (results, w)"
| "store_results rt events i (timer # ts) results w =
     (if i < length events then
        (let (elapsed, w) = rr_elapsed rt timer w;
             k = ucast (re_id (fst (events ! i)));
             results = (if k \<in> fst ` set results then results else results @ [(k, elapsed)])
         in store_results rt events (Suc i) ts results w)
      else Inl Event_out_of_range)"

text \<open>\<open>stack\<close> holds what the uninitialised stream fields contain.\<close>

definition run_command :: "'w replay_runtime \<Rightarrow> ArgInfo \<Rightarrow> u64 \<Rightarrow> (nat \<Rightarrow> u64) \<Rightarrow> trace_input \<Rightarrow> command
    \<Rightarrow> 'w session \<Rightarrow> step_error + 'w session" where
  "run_command rt fresh uninit stack inp cmd ss = (case cmd of
      Cmd_run \<Rightarrow>
        rbind (lift_read (load_events (in_db inp) [] (ss_names ss))) (\<lambda>(loaded, names).
        let events = ss_events ss @ map (\<lambda>i. (loaded ! i, stack i)) [0..<length loaded]
        in rbind (step_events rt fresh uninit inp (drop (ss_curr ss) events) (ss_state ss)) (\<lambda>s.
           rbind (store_results rt events 0 (timers s) [] (world s)) (\<lambda>(results, w).
             Inr (ss\<lparr>ss_state := s\<lparr>world := w\<rparr>, ss_events := events, ss_names := names,
                    ss_curr := length events, ss_results := results\<rparr>))))
    | Cmd_step \<Rightarrow>
        if ss_curr ss < length (ss_events ss) then
          rbind (step_event rt fresh uninit inp (ss_events ss ! ss_curr ss) (ss_state ss)) (\<lambda>s. Inr (ss\<lparr>ss_state := s\<rparr>))
        else Inl Event_out_of_range
    | Cmd_save \<Rightarrow> if ss_curr ss < length (ss_events ss) then Inr ss else Inl Event_out_of_range
    | Cmd_load \<Rightarrow> Inr ss
    | Cmd_other \<Rightarrow> Inr ss)"

definition init_session :: "'w \<Rightarrow> 'w session" where
  "init_session w = \<lparr>ss_state = \<lparr>allocations = (\<lambda>_. None), host_buffers = (\<lambda>_. None),
     stream_mappings = (\<lambda>_. None), timers = [], world = w\<rparr>, ss_events = [], ss_names = event_names,
     ss_curr = 0, ss_results = []\<rparr>"

fun run_commands :: "'w replay_runtime \<Rightarrow> ArgInfo \<Rightarrow> u64 \<Rightarrow> (nat \<Rightarrow> u64) \<Rightarrow> trace_input \<Rightarrow> command list
    \<Rightarrow> 'w session \<Rightarrow> step_error + 'w session" where
  "run_commands rt fresh uninit stack inp [] ss = Inr ss"
| "run_commands rt fresh uninit stack inp (cmd # cmds) ss =
     rbind (run_command rt fresh uninit stack inp cmd ss) (run_commands rt fresh uninit stack inp cmds)"

section \<open>Translating pointers\<close>

definition translated :: "(u64 \<Rightarrow> u64 option) \<Rightarrow> u64 \<Rightarrow> u64" where
  "translated allocs v = (case allocs v of Some r \<Rightarrow> r | None \<Rightarrow> v)"

definition patch :: "bytes \<Rightarrow> nat \<Rightarrow> u64 \<Rightarrow> bytes" where
  "patch args off v = take off args @ le_bytes 8 v @ drop (off + 8) args"

definition pointer_at :: "bytes \<Rightarrow> nat \<Rightarrow> u64" where
  "pointer_at args off = le_word (take 8 (drop off args))"

lemma length_patch: "off + 8 \<le> length args \<Longrightarrow> length (patch args off v) = length args"
  by (simp add: patch_def)

lemma nth_patch:
  assumes "off + 8 \<le> length args" "k < length args"
  shows "patch args off v ! k = (if off \<le> k \<and> k < off + 8 then le_bytes 8 v ! (k - off) else args ! k)"
  using assms by (auto simp: patch_def nth_append min_def)

lemma pointer_at_cong:
  assumes "off + 8 \<le> length a" "length b = length a" "\<forall>k. off \<le> k \<and> k < off + 8 \<longrightarrow> a ! k = b ! k"
  shows "pointer_at a off = pointer_at b off"
proof -
  have "take 8 (drop off a) = take 8 (drop off b)"
    by (rule nth_equalityI) (use assms in auto)
  then show ?thesis by (simp add: pointer_at_def)
qed

lemma pointer_at_patch:
  assumes "off + 8 \<le> length args"
  shows "pointer_at (patch args off v) off = v"
  using assms by (simp add: pointer_at_def patch_def min_def le_word_le_bytes)

lemma patch_pointer_at:
  assumes "off + 8 \<le> length args"
  shows "patch args off (pointer_at args off) = args"
proof -
  have "le_bytes 8 (pointer_at args off) = take 8 (drop off args)"
    unfolding pointer_at_def by (rule le_bytes_le_word) (use assms in auto)
  then show ?thesis by (simp add: patch_def) (metis append_take_drop_id drop_drop add.commute)
qed

lemma translate_arg_patch:
  assumes "value_kind info = ''global_buffer''" "info_size info = 8" "unat (info_offset info) + 8 \<le> length args"
  shows "translate_arg uninit allocs info args
    = Inr (patch args (unat (info_offset info)) (translated allocs (pointer_at args (unat (info_offset info)))))"
  using assms patch_pointer_at [OF assms(3)]
  by (auto simp: translate_arg_def Let_def translated_def pointer_at_def patch_def split: option.split)

definition is_buffer :: "ArgInfo \<Rightarrow> bool" where
  "is_buffer info \<longleftrightarrow> value_kind info = ''global_buffer''"

text \<open>The buffer arguments are whole pointers, lie in the packed arguments and do not overlap.\<close>

definition apart :: "ArgInfo \<Rightarrow> ArgInfo \<Rightarrow> bool" where
  "apart i j \<longleftrightarrow> unat (info_offset i) + 8 \<le> unat (info_offset j) \<or> unat (info_offset j) + 8 \<le> unat (info_offset i)"

definition buffers_ok :: "ArgInfo list \<Rightarrow> nat \<Rightarrow> bool" where
  "buffers_ok infos n \<longleftrightarrow> (\<forall>i\<in>set (filter is_buffer infos). info_size i = 8 \<and> unat (info_offset i) + 8 \<le> n)
     \<and> sorted_wrt apart (filter is_buffer infos)"

definition inside :: "ArgInfo list \<Rightarrow> nat \<Rightarrow> bool" where
  "inside infos k \<longleftrightarrow> (\<exists>i\<in>set (filter is_buffer infos). unat (info_offset i) \<le> k \<and> k < unat (info_offset i) + 8)"

lemma translate_args_ok:
  assumes "buffers_ok infos (length args)"
  shows "\<exists>out. translate_args uninit allocs infos args = Inr out \<and> length out = length args
    \<and> (\<forall>i\<in>set (filter is_buffer infos). pointer_at out (unat (info_offset i))
         = translated allocs (pointer_at args (unat (info_offset i))))
    \<and> (\<forall>k<length args. \<not> inside infos k \<longrightarrow> out ! k = args ! k)"
  using assms
proof (induction infos arbitrary: args)
  case (Cons i infos)
  show ?case
  proof (cases "is_buffer i")
    case False
    with Cons.prems have "buffers_ok infos (length args)" by (simp add: buffers_ok_def)
    from Cons.IH [OF this] False show ?thesis
      by (auto simp: translate_arg_def is_buffer_def inside_def)
  next
    case True
    let ?off = "unat (info_offset i)"
    let ?args = "patch args ?off (translated allocs (pointer_at args ?off))"
    from Cons.prems True have fits: "info_size i = 8" "?off + 8 \<le> length args"
      and rest: "buffers_ok infos (length args)" and apart: "\<forall>j\<in>set (filter is_buffer infos). apart i j"
      by (auto simp: buffers_ok_def)
    have len: "length ?args = length args" using fits(2) by (rule length_patch)
    from Cons.IH [of ?args] rest len obtain out
      where out: "translate_args uninit allocs infos ?args = Inr out" "length out = length args"
        "\<forall>j\<in>set (filter is_buffer infos). pointer_at out (unat (info_offset j))
          = translated allocs (pointer_at ?args (unat (info_offset j)))"
        "\<forall>k<length args. \<not> inside infos k \<longrightarrow> out ! k = ?args ! k" by auto
    have elsewhere: "?args ! k = args ! k" if "k < length args" "k < ?off \<or> ?off + 8 \<le> k" for k
      using that nth_patch [OF fits(2)] by auto
    have other: "pointer_at ?args (unat (info_offset j)) = pointer_at args (unat (info_offset j))"
      if "j \<in> set (filter is_buffer infos)" for j
    proof (rule pointer_at_cong)
      from that rest have j: "unat (info_offset j) + 8 \<le> length args" by (simp add: buffers_ok_def)
      then show "unat (info_offset j) + 8 \<le> length ?args" "length args = length ?args" using len by simp_all
      from that apart have "apart i j" by blast
      with j elsewhere show "\<forall>k. unat (info_offset j) \<le> k \<and> k < unat (info_offset j) + 8 \<longrightarrow> ?args ! k = args ! k"
        by (auto simp: apart_def)
    qed
    have "\<not> inside infos k" if "?off \<le> k" "k < ?off + 8" for k
      using that apart by (fastforce simp: inside_def apart_def)
    then have "pointer_at out ?off = pointer_at ?args ?off"
      by (intro pointer_at_cong) (use out(2,4) len fits(2) in auto)
    with pointer_at_patch [OF fits(2)] have
      ptr: "pointer_at out ?off = translated allocs (pointer_at args ?off)" by simp
    have step: "translate_arg uninit allocs i args = Inr ?args"
      by (rule translate_arg_patch) (use True fits in \<open>simp_all add: is_buffer_def\<close>)
    have rest_bytes: "out ! k = args ! k" if "k < length args" "\<not> inside (i # infos) k" for k
      using that out(4) elsewhere True by (auto simp: inside_def not_le)
    show ?thesis using step out(1-3) other ptr rest_bytes True by auto
  qed
qed simp

text \<open>
  pointer translation: when the buffer arguments of a kernel are whole pointers that lie in
  the packed arguments and do not overlap, translating succeeds, every buffer argument holds
  afterwards the address that replay allocated for the captured one (or the captured one when
  there is none), and every other byte is unchanged.
\<close>

theorem translate_args_correct:
  assumes "buffers_ok infos (length args)"
  shows "\<exists>out. translate_args uninit allocs infos args = Inr out \<and> length out = length args
    \<and> (\<forall>i\<in>set (filter is_buffer infos). pointer_at out (unat (info_offset i))
         = translated allocs (pointer_at args (unat (info_offset i))))
    \<and> (\<forall>k<length args. \<not> inside infos k \<longrightarrow> out ! k = args ! k)"
  using translate_args_ok [OF assms] .

definition sample_infos :: "ArgInfo list" where
  "sample_infos =
    [\<lparr>info_index = 0, address_space = ''global'', info_size = 8, info_offset = 0, value_kind = ''global_buffer'', access = []\<rparr>,
     \<lparr>info_index = 1, address_space = [], info_size = 4, info_offset = 8, value_kind = ''by_value'', access = []\<rparr>]"

theorem translate_args_correct_witness:
  "\<exists>out. translate_args 7 [4096 \<mapsto> 0xABCD0000] sample_infos [0, 16, 0, 0, 0, 0, 0, 0, 5, 0, 0, 0] = Inr out
    \<and> pointer_at out 0 = 0xABCD0000 \<and> out ! 8 = 5"
proof -
  have "buffers_ok sample_infos (length [0, 16, 0, 0, 0, 0, 0, 0, 5, 0, 0, 0 :: u8])"
    by (simp add: buffers_ok_def sample_infos_def is_buffer_def)
  from translate_args_correct [OF this, of 7 "[4096 \<mapsto> 0xABCD0000]"] obtain out
    where out: "translate_args 7 [4096 \<mapsto> 0xABCD0000] sample_infos [0, 16, 0, 0, 0, 0, 0, 0, 5, 0, 0, 0] = Inr out"
      "pointer_at out 0 = translated [4096 \<mapsto> 0xABCD0000] (pointer_at [0, 16, 0, 0, 0, 0, 0, 0, 5, 0, 0, 0] 0)"
      "\<not> inside sample_infos 8 \<longrightarrow> out ! 8 = 5"
    by (auto simp: sample_infos_def is_buffer_def)
  moreover have "pointer_at [0, 16, 0, 0, 0, 0, 0, 0, 5, 0, 0, 0] 0 = 4096"
    by (simp add: pointer_at_def le_word_def)
  moreover have "\<not> inside sample_infos 8" by (simp add: inside_def sample_infos_def is_buffer_def)
  ultimately show ?thesis by (simp add: translated_def)
qed

section \<open>Replay follows the captured events\<close>

text \<open>
  The specification of replaying an event: the same effect computed from the captured event
  itself, without the database and the data files.
\<close>

definition execute_captured :: "'w replay_runtime \<Rightarrow> ArgInfo \<Rightarrow> u64 \<Rightarrow> string list \<Rightarrow> gputrace_event \<Rightarrow> u64
    \<Rightarrow> 'w replay_state \<Rightarrow> step_error + bool \<times> 'w replay_state" where
  "execute_captured rt fresh uninit objects e stream s =
     (let name = c_str (event_name e)
      in case (event_type e, event_data e) of
        (EVENT_MALLOC, Data_malloc d) \<Rightarrow> Inr (replay_malloc rt (malloc_p d) (through_int (malloc_size d)) s)
      | (EVENT_FREE, Data_free d) \<Rightarrow> Inr (True, replay_free rt (free_p d) s)
      | (EVENT_MEMCPY, Data_memcpy d) \<Rightarrow>
          rbind (replay_memcpy rt name stream (memcpy_dst d, memcpy_src d, through_int (memcpy_size d), memcpy_kind d,
              (if memcpy_kind d = rr_h2d rt then memcpy_hostdata d else [])) s) (\<lambda>s. Inr (True, s))
      | (EVENT_LAUNCH, Data_launch d) \<Rightarrow>
          replay_launch rt fresh uninit objects (through_int (event_stream e), c_str (launch_kernel_name d),
            launch_num_blocks d, launch_dim_blocks d, launch_shared_mem_bytes d, launch_argdata d) s
      | _ \<Rightarrow> execute_event rt fresh uninit \<lparr>in_db = (\<lambda>_. []), in_files = (\<lambda>_. None), in_objects = objects\<rparr>
               \<lparr>re_id = 0, re_name = name, re_type = event_type e\<rparr> stream s)"

text \<open>The names that the dispatch compares before the type belong to other events.\<close>

definition plain_name :: "gputrace_event \<Rightarrow> bool" where
  "plain_name e \<longleftrightarrow> (event_type e \<in> {EVENT_MALLOC, EVENT_FREE, EVENT_MEMCPY, EVENT_LAUNCH} \<longrightarrow>
     c_str (event_name e) \<notin> {''hipDeviceSynchronize'', ''hipStreamCreate'', ''hipStreamSynchronize''})"

definition replayable :: "u32 \<Rightarrow> gputrace_event list \<Rightarrow> gputrace_event \<Rightarrow> bool" where
  "replayable h2d es e \<longleftrightarrow> plain_name e \<and> unat (event_id e) < 2 ^ 31
     \<and> (\<forall>d. event_type e = EVENT_MEMCPY \<and> event_data e = Data_memcpy d \<and> memcpy_kind d = h2d \<longrightarrow> replayable_copy h2d es e d)
     \<and> (\<forall>d. event_type e = EVENT_LAUNCH \<and> event_data e = Data_launch d \<longrightarrow> length (launch_argdata d) < 2 ^ 31)"

abbreviation loaded :: "gputrace_event \<Rightarrow> replay_event" where
  "loaded e \<equiv> \<lparr>re_id = event_id e, re_name = c_str (event_name e), re_type = event_type e\<rparr>"

lemma execute_event_stored:
  assumes "stored (rr_h2d rt) fs es w" "e \<in> set es" "event_type e \<noteq> EVENT_CODE" "replayable (rr_h2d rt) es e"
  shows "execute_event rt fresh uninit \<lparr>in_db = event_db w, in_files = w_files w, in_objects = objects\<rparr> (loaded e) stream s
    = execute_captured rt fresh uninit objects e stream s"
proof -
  note r = assms(4) [unfolded replayable_def plain_name_def]
  have typed: "well_typed e" using assms(1,2) by (simp add: stored_def)
  show ?thesis
  proof (cases "event_type e")
    case EVENT_MALLOC
    with typed obtain d where "event_data e = Data_malloc d" by (auto simp: well_typed_def)
    with EVENT_MALLOC r get_malloc_stored [OF assms(1,2)] show ?thesis
      by (simp add: execute_event_def execute_captured_def step_malloc_def)
  next
    case EVENT_FREE
    with typed obtain d where "event_data e = Data_free d" by (auto simp: well_typed_def)
    with EVENT_FREE r get_free_stored [OF assms(1,2)] show ?thesis
      by (simp add: execute_event_def execute_captured_def step_free_def)
  next
    case EVENT_MEMCPY
    with typed obtain d where d: "event_data e = Data_memcpy d" by (auto simp: well_typed_def)
    show ?thesis
    proof (cases "memcpy_kind d = rr_h2d rt")
      case True
      with EVENT_MEMCPY d r have copy: "replayable_copy (rr_h2d rt) es e d" by simp
      then have "through_int (memcpy_size d) = memcpy_size d" by (simp add: replayable_copy_def through_int_small)
      with get_memcpy_stored_h2d [OF assms(1,2) EVENT_MEMCPY d copy] EVENT_MEMCPY d r True show ?thesis
        by (simp add: execute_event_def execute_captured_def step_memcpy_def lift_read_def)
    next
      case False
      with get_memcpy_stored_other [OF assms(1,2) EVENT_MEMCPY d] EVENT_MEMCPY d r show ?thesis
        by (simp add: execute_event_def execute_captured_def step_memcpy_def lift_read_def)
    qed
  next
    case EVENT_LAUNCH
    with typed obtain d where d: "event_data e = Data_launch d" by (auto simp: well_typed_def)
    with EVENT_LAUNCH r get_launch_stored [OF assms(1,2) EVENT_LAUNCH d] show ?thesis
      by (simp add: execute_event_def execute_captured_def step_launch_def lift_read_def)
  qed (use assms(3) in \<open>simp_all add: execute_event_def execute_captured_def Let_def\<close>)
qed

definition step_captured :: "'w replay_runtime \<Rightarrow> ArgInfo \<Rightarrow> u64 \<Rightarrow> string list \<Rightarrow> gputrace_event \<times> u64 \<Rightarrow> 'w replay_state
    \<Rightarrow> step_error + 'w replay_state" where
  "step_captured rt fresh uninit objects = (\<lambda>(e, stream) s.
     let (start, w) = rr_event_create rt (world s);
         (finish, w) = rr_event_create rt w;
         w = rr_event_record rt start w
     in rbind (execute_captured rt fresh uninit objects e stream (s\<lparr>world := w\<rparr>)) (\<lambda>(done, s).
          if done then Inr (s\<lparr>timers := timers s @ [(start, finish)],
                              world := rr_event_record rt finish (world s)\<rparr>)
          else Inr s))"

fun steps_captured :: "'w replay_runtime \<Rightarrow> ArgInfo \<Rightarrow> u64 \<Rightarrow> string list \<Rightarrow> (gputrace_event \<times> u64) list
    \<Rightarrow> 'w replay_state \<Rightarrow> step_error + 'w replay_state" where
  "steps_captured rt fresh uninit objects [] s = Inr s"
| "steps_captured rt fresh uninit objects (e # es) s =
     rbind (step_captured rt fresh uninit objects e s) (steps_captured rt fresh uninit objects es)"

lemma step_events_stored:
  assumes "stored (rr_h2d rt) fs es w" "\<forall>(e, stream)\<in>set xs. e \<in> set es \<and> event_type e \<noteq> EVENT_CODE \<and> replayable (rr_h2d rt) es e"
  shows "step_events rt fresh uninit \<lparr>in_db = event_db w, in_files = w_files w, in_objects = objects\<rparr>
      (map (\<lambda>(e, stream). (loaded e, stream)) xs) s
    = steps_captured rt fresh uninit objects xs s"
  using assms(2)
proof (induction xs arbitrary: s)
  case (Cons x xs)
  obtain e stream where x: "x = (e, stream)" by (cases x)
  with Cons.prems have "step_event rt fresh uninit \<lparr>in_db = event_db w, in_files = w_files w, in_objects = objects\<rparr>
      (loaded e, stream) s = step_captured rt fresh uninit objects (e, stream) s"
    using execute_event_stored [OF assms(1)] by (simp add: step_event_def step_captured_def)
  with Cons x show ?case by (simp cong: rbind_cong)
qed simp

section \<open>Timers and results\<close>

lemma index_map_cases: "index_map m k = (v, m') \<Longrightarrow> m' = m \<or> m' = m(k \<mapsto> 0)"
  by (auto simp: index_map_def split: option.splits)

lemma replay_memcpy_timers: "replay_memcpy rt name stream c s = Inr s' \<Longrightarrow> timers s' = timers s"
  by (cases c) (auto simp: replay_memcpy_def Let_def split: if_splits option.splits prod.splits)

lemma replay_launch_timers: "replay_launch rt fresh uninit objects l s = Inr (b, s') \<Longrightarrow> timers s' = timers s"
  by (cases l) (auto simp: replay_launch_def Let_def outcome_simps split: if_splits option.splits prod.splits)

lemma replay_malloc_timers: "replay_malloc rt p sz s = (b, s') \<Longrightarrow> timers s' = timers s"
  by (auto simp: replay_malloc_def Let_def split: if_splits prod.splits)

lemma execute_event_timers:
  assumes "execute_event rt fresh uninit inp event stream s = Inr (b, s')"
  shows "timers s' = timers s"
  using assms
  by (auto simp: execute_event_def step_memcpy_def step_launch_def step_malloc_def step_free_def replay_free_def
      Let_def outcome_simps dest: replay_memcpy_timers replay_launch_timers replay_malloc_timers
      split: if_splits HIP_EVENT.splits prod.splits)

lemma step_event_timers:
  assumes "step_event rt fresh uninit inp x s = Inr s'"
  shows "length (timers s') \<le> Suc (length (timers s))"
  using assms
  by (cases x) (auto simp: step_event_def Let_def outcome_simps split: prod.splits if_splits dest!: execute_event_timers)

lemma step_events_timers:
  "step_events rt fresh uninit inp xs s = Inr s' \<Longrightarrow> length (timers s') \<le> length (timers s) + length xs"
proof (induction xs arbitrary: s)
  case (Cons x xs)
  then obtain t where t: "step_event rt fresh uninit inp x s = Inr t" "step_events rt fresh uninit inp xs t = Inr s'"
    by (auto simp: outcome_simps)
  with Cons.IH step_event_timers [OF t(1)] show ?case by fastforce
qed simp

lemma store_results_returns:
  "i + length ts \<le> length events \<Longrightarrow> \<exists>results' w'. store_results rt events i ts results w = Inr (results', w')"
  by (induction ts arbitrary: i results w) (auto simp: Let_def split: prod.split)

section \<open>Sessions\<close>

definition session_inv :: "'w session \<Rightarrow> bool" where
  "session_inv ss \<longleftrightarrow> ss_curr ss = length (ss_events ss) \<and> length (timers (ss_state ss)) \<le> length (ss_events ss)"

lemma run_command_inv:
  assumes "session_inv ss" "run_command rt fresh uninit stack inp cmd ss = Inr ss'"
  shows "session_inv ss'"
proof (cases cmd)
  case Cmd_run
  with assms(2) obtain loaded names s results w where
    "step_events rt fresh uninit inp (drop (ss_curr ss) (ss_events ss @ map (\<lambda>i. (loaded ! i, stack i)) [0..<length loaded]))
       (ss_state ss) = Inr s"
    and "ss' = ss\<lparr>ss_state := s\<lparr>world := w\<rparr>,
       ss_events := ss_events ss @ map (\<lambda>i. (loaded ! i, stack i)) [0..<length loaded], ss_names := names,
       ss_curr := length (ss_events ss @ map (\<lambda>i. (loaded ! i, stack i)) [0..<length loaded]), ss_results := results\<rparr>"
    by (auto simp: run_command_def Let_def outcome_simps)
  with assms(1) step_events_timers show ?thesis by (fastforce simp: session_inv_def)
qed (use assms in \<open>auto simp: run_command_def session_inv_def\<close>)

lemma run_commands_inv:
  "session_inv ss \<Longrightarrow> run_commands rt fresh uninit stack inp cmds ss = Inr ss' \<Longrightarrow> session_inv ss'"
  by (induction cmds arbitrary: ss) (auto simp: outcome_simps dest: run_command_inv)

lemma init_session_inv: "session_inv (init_session w)"
  by (simp add: session_inv_def init_session_def)

text \<open>Only the loops over the list itself can leave it.\<close>

lemma lift_range: "lift_read m \<noteq> Inl Event_out_of_range" "lift_elf m' \<noteq> Inl Event_out_of_range"
  by (auto simp: lift_read_def lift_elf_def split: sum.splits)

lemma read_arg_infos_range: "read_arg_infos rt fresh objects t \<noteq> Inl Event_out_of_range"
  by (induction objects arbitrary: t) (auto simp: outcome_simps lift_range)

lemma translate_args_range: "translate_args uninit allocs infos args \<noteq> Inl Event_out_of_range"
proof (induction infos arbitrary: args)
  case (Cons i infos)
  then show ?case
    by (auto simp: outcome_simps translate_arg_def Let_def split: if_splits option.splits)
qed simp

lemma replay_launch_range: "replay_launch rt fresh uninit objects l s \<noteq> Inl Event_out_of_range"
  by (cases l) (auto simp: replay_launch_def Let_def outcome_simps read_arg_infos_range translate_args_range
      split: option.splits prod.splits)

lemma replay_memcpy_range: "replay_memcpy rt name stream c s \<noteq> Inl Event_out_of_range"
  by (cases c) (auto simp: replay_memcpy_def Let_def split: option.splits prod.splits)

lemma step_event_range: "step_event rt fresh uninit inp x s \<noteq> Inl Event_out_of_range"
proof -
  have launch: "step_launch rt fresh uninit inp event t \<noteq> Inl Event_out_of_range" for event t
    by (auto simp: step_launch_def outcome_simps lift_range replay_launch_range)
  have copy: "step_memcpy rt inp event stream t \<noteq> Inl Event_out_of_range" for event stream t
    by (auto simp: step_memcpy_def outcome_simps lift_range replay_memcpy_range)
  have "execute_event rt fresh uninit inp event stream t \<noteq> Inl Event_out_of_range" for event stream t
    using launch copy
    by (auto simp: execute_event_def Let_def outcome_simps split: HIP_EVENT.splits prod.splits)
  then show ?thesis by (cases x) (auto simp: step_event_def Let_def outcome_simps split: prod.splits)
qed

lemma step_events_range: "step_events rt fresh uninit inp xs s \<noteq> Inl Event_out_of_range"
  by (induction xs arbitrary: s) (auto simp: outcome_simps step_event_range)

lemma run_in_range:
  assumes "session_inv ss"
  shows "run_command rt fresh uninit stack inp Cmd_run ss \<noteq> Inl Event_out_of_range"
proof
  assume "run_command rt fresh uninit stack inp Cmd_run ss = Inl Event_out_of_range"
  then obtain loaded s where
    s: "step_events rt fresh uninit inp (drop (ss_curr ss) (ss_events ss @ map (\<lambda>i. (loaded ! i, stack i)) [0..<length loaded]))
       (ss_state ss) = Inr s"
    and res: "store_results rt (ss_events ss @ map (\<lambda>i. (loaded ! i, stack i)) [0..<length loaded]) 0 (timers s) [] (world s)
       = Inl Event_out_of_range"
    by (auto simp: run_command_def Let_def outcome_simps lift_range step_events_range)
  from step_events_timers [OF s] assms
  have "0 + length (timers s) \<le> length (ss_events ss @ map (\<lambda>i. (loaded ! i, stack i)) [0..<length loaded])"
    by (simp add: session_inv_def)
  from store_results_returns [OF this, of rt "[]" "world s"] obtain r w
    where "store_results rt (ss_events ss @ map (\<lambda>i. (loaded ! i, stack i)) [0..<length loaded]) 0
      (timers s) [] (world s) = Inr (r, w)" by blast
  with res show False by simp
qed


text \<open>A driver that numbers its results and logs frees and copies, for the witnesses.\<close>

datatype log_entry = Log_free u64 | Log_copy u64 bytes

definition log_runtime :: "(u64 \<times> log_entry list) replay_runtime" where
  "log_runtime = \<lparr>rr_hipMalloc = (\<lambda>sz (n, l). (0x1000 * (n + 1), (n + 1, l))),
     rr_hipFree = (\<lambda>p (n, l). (n, l @ [Log_free p])),
     rr_copy_to = (\<lambda>on dst data sz (n, l). (n, l @ [Log_copy dst data])),
     rr_copy_from = (\<lambda>on src sz w. ([], w)), rr_find_kernel = (\<lambda>path name w. (None, w)),
     rr_launch = (\<lambda>f b d m st args w. w), rr_stream_create = (\<lambda>w. (1, w)), rr_stream_synchronize = (\<lambda>st w. w),
     rr_device_synchronize = (\<lambda>w. w), rr_get_properties = (\<lambda>w. w), rr_event_create = (\<lambda>w. (9, w)),
     rr_event_record = (\<lambda>ev w. w), rr_elapsed = (\<lambda>t w. (77, w)), rr_sections = (\<lambda>path. []),
     rr_h2d = 1, rr_d2h = 2, rr_default_stream = 0\<rparr>"

definition empty_input :: trace_input where
  "empty_input = \<lparr>in_db = (\<lambda>_. []), in_files = (\<lambda>_. None), in_objects = []\<rparr>"


section \<open>Refinement\<close>

lemma run_command_run:
  assumes "session_inv ss" "load_events (in_db inp) [] (ss_names ss) = Inr (new, names)"
  shows "case step_events rt fresh uninit inp (map (\<lambda>i. (new ! i, stack i)) [0..<length new]) (ss_state ss) of
      Inl err \<Rightarrow> run_command rt fresh uninit stack inp Cmd_run ss = Inl err
    | Inr s \<Rightarrow> \<exists>ss' v. run_command rt fresh uninit stack inp Cmd_run ss = Inr ss' \<and> ss_state ss' = s\<lparr>world := v\<rparr>
        \<and> ss_curr ss' = length (ss_events ss) + length new"
proof (cases "step_events rt fresh uninit inp (map (\<lambda>i. (new ! i, stack i)) [0..<length new]) (ss_state ss)")
  case (Inl err)
  with assms show ?thesis by (simp add: run_command_def session_inv_def lift_read_def Let_def)
next
  case (Inr s)
  let ?events = "ss_events ss @ map (\<lambda>i. (new ! i, stack i)) [0..<length new]"
  have "0 + length (timers s) \<le> length ?events"
    using step_events_timers [OF Inr] assms(1) by (simp add: session_inv_def)
  from store_results_returns [OF this, of rt "[]" "world s"] obtain r v
    where "store_results rt ?events 0 (timers s) [] (world s) = Inr (r, v)" by blast
  with Inr assms show ?thesis by (auto simp: run_command_def session_inv_def lift_read_def Let_def)
qed




text \<open>
  Timers are matched with events by position, but an allocation that fails leaves no timer:
  after it, the time of the next event is reported under the number of the allocation, and the
  last event has no result.
\<close>

theorem failed_allocation_shifts_results:
  assumes "rr_hipMalloc rt = (\<lambda>sz w. (0, w))" "re_type e = EVENT_MALLOC"
    and "re_name e \<notin> {''hipDeviceSynchronize'', ''hipStreamCreate'', ''hipStreamSynchronize''}"
    and "re_name e' = ''hipDeviceSynchronize''" "re_type e' = EVENT_SYNC" "timers s = []"
  shows "\<exists>t s' elapsed v. step_events rt fresh uninit inp [(e, a), (e', b)] s = Inr s' \<and> timers s' = [t]
    \<and> store_results rt [(e, a), (e', b)] 0 (timers s') [] (world s') = Inr ([(ucast (re_id e), elapsed)], v)"
proof -
  obtain s1 where "step_event rt fresh uninit inp (e, a) s = Inr s1" "timers s1 = []"
    using assms(1-3,6)
    by (cases "rr_event_create rt (world s)"; cases "rr_event_create rt (snd (rr_event_create rt (world s)))")
      (auto simp: step_event_def execute_event_def step_malloc_def replay_malloc_def Let_def split: prod.split)
  moreover obtain t s2 where "step_event rt fresh uninit inp (e', b) s1 = Inr s2" "timers s2 = timers s1 @ [t]"
    using assms(4,5)
    by (cases "rr_event_create rt (world s1)"; cases "rr_event_create rt (snd (rr_event_create rt (world s1)))")
      (auto simp: step_event_def execute_event_def Let_def)
  ultimately show ?thesis by (auto split: prod.split)
qed

theorem failed_allocation_shifts_results_witness:
  "\<exists>t s' elapsed v. step_events (log_runtime\<lparr>rr_hipMalloc := \<lambda>sz w. (0, w)\<rparr>) (hd sample_infos) 0 empty_input
      [(\<lparr>re_id = 4, re_name = ''hipMalloc'', re_type = EVENT_MALLOC\<rparr>, 0),
       (\<lparr>re_id = 5, re_name = ''hipDeviceSynchronize'', re_type = EVENT_SYNC\<rparr>, 0)] (ss_state (init_session (0, []))) = Inr s'
    \<and> store_results (log_runtime\<lparr>rr_hipMalloc := \<lambda>sz w. (0, w)\<rparr>)
      [(\<lparr>re_id = 4, re_name = ''hipMalloc'', re_type = EVENT_MALLOC\<rparr>, 0),
       (\<lparr>re_id = 5, re_name = ''hipDeviceSynchronize'', re_type = EVENT_SYNC\<rparr>, 0)] 0 [t] [] (world s') = Inr ([(4, elapsed)], v)"
proof -
  let ?rt = "log_runtime\<lparr>rr_hipMalloc := \<lambda>sz w. (0, w)\<rparr>"
  let ?e = "\<lparr>re_id = 4, re_name = ''hipMalloc'', re_type = EVENT_MALLOC\<rparr>"
  let ?e' = "\<lparr>re_id = 5, re_name = ''hipDeviceSynchronize'', re_type = EVENT_SYNC\<rparr>"
  have "\<exists>t s' elapsed v. step_events ?rt (hd sample_infos) 0 empty_input [(?e, 0), (?e', 0)] (ss_state (init_session (0, []))) = Inr s'
      \<and> timers s' = [t]
      \<and> store_results ?rt [(?e, 0), (?e', 0)] 0 (timers s') [] (world s') = Inr ([(ucast (re_id ?e), elapsed)], v)"
    by (rule failed_allocation_shifts_results) (simp_all add: init_session_def)
  then obtain t s' elapsed v where
    "step_events ?rt (hd sample_infos) 0 empty_input [(?e, 0), (?e', 0)] (ss_state (init_session (0, []))) = Inr s'"
    "timers s' = [t]" "store_results ?rt [(?e, 0), (?e', 0)] 0 (timers s') [] (world s') = Inr ([(ucast (re_id ?e), elapsed)], v)"
    by blast
  then show ?thesis by (intro exI [of _ t] exI [of _ s'] exI [of _ elapsed] exI [of _ v]) (simp del: step_events.simps store_results.simps)
qed

end
