(* ===== verification/Launch.thy ===== *)
theory Launch
  imports Instrument Capture
begin

text \<open>
  Registration of fat binaries and kernel launches (\<^verbatim>\<open>hip/hip-fatbin.cpp\<close>): walking the bundles of
  a fat binary, filling the table of argument layouts, and packing the arguments of a launch into
  the bytes that the trace stores. Memory outside a buffer, a missing table entry and a full
  queue are error values.
\<close>

datatype launch_error = Fatbin_out_of_range | Bad_metadata elf_error | Push_blocks
  | Missing_key | Args_out_of_range | Heap_overflow | Bad_alloc
  | Setup_failed binint_error

text \<open>
  What these functions use beside the library of the wrappers. \<open>fr_binary\<close> is the readable memory
  from \<^verbatim>\<open>fbwrapper->binary\<close> on; a module function reports whether it succeeded.
\<close>

record 'w module_runtime =
  fr_register :: "u64 \<Rightarrow> 'w \<Rightarrow> u64 \<times> 'w"
  fr_binary :: "'w \<Rightarrow> u64 \<Rightarrow> bytes"
  fr_binint :: "'w binint_runtime"
  fr_module_load :: "string \<Rightarrow> 'w \<Rightarrow> u64 \<times> 'w"
  fr_get_function :: "u64 \<Rightarrow> string \<Rightarrow> 'w \<Rightarrow> u64 option \<times> 'w"
  fr_module_launch :: "u64 \<Rightarrow> dim3 \<Rightarrow> dim3 \<Rightarrow> u32 \<Rightarrow> u64 \<Rightarrow> u64 list \<Rightarrow> 'w \<Rightarrow> u32 \<times> 'w"

record launch_state =
  tracer :: hiptracer_state
  kernel_arg_sizes :: argument_sizes
  handled_fatbins :: "u64 \<Rightarrow> bool option"
  filenames :: "string list"
  atomic_addr :: u64
  buffer_addr :: u64

definition elf_sections :: "'w module_runtime \<Rightarrow> bytes \<Rightarrow> section_data list" where
  "elf_sections mr img = map (\<lambda>s. \<lparr>sec_type = sec_type s, sec_data = sec_data s\<rparr>) (br_load (fr_binint mr) img)"

section \<open>Fat binaries\<close>

definition u64_at :: "bytes \<Rightarrow> nat \<Rightarrow> launch_error + u64" where
  "u64_at binary pos =
     (if pos + 8 \<le> length binary then Inr (le_word (take 8 (drop pos binary))) else Inl Fatbin_out_of_range)"

definition slice :: "bytes \<Rightarrow> nat \<Rightarrow> nat \<Rightarrow> launch_error + bytes" where
  "slice binary pos n =
     (if pos + n \<le> length binary then Inr (take n (drop pos binary)) else Inl Fatbin_out_of_range)"

definition push_event :: "nat \<Rightarrow> gputrace_event \<Rightarrow> hiptracer_state \<Rightarrow> launch_error + hiptracer_state" where
  "push_event cap event st = (case pushback_event cap event st of None \<Rightarrow> Inl Push_blocks | Some st \<Rightarrow> Inr st)"

text \<open>The code event takes the next number without using it up.\<close>

definition captureFatBin :: "'w hip_runtime \<Rightarrow> nat \<Rightarrow> gputrace_event \<Rightarrow> bytes \<Rightarrow> string \<Rightarrow> hiptracer_state
    \<Rightarrow> launch_error + hiptracer_state" where
  "captureFatBin rt cap ev img filename st =
     push_event cap (ev\<lparr>event_id := scast (curr_event st), event_rc := 0,
       event_stream := c_hipStreamDefault rt, event_type := EVENT_CODE,
       event_data := Data_code \<lparr>code_filename = filename, code_code = img\<rparr>\<rparr>) st"

definition code_name :: "string \<Rightarrow> u32 \<Rightarrow> nat \<Rightarrow> string" where
  "code_name triple n i = ''./code/'' @ triple @ ''-'' @
     ((if sint n < 0 then ''-'' else []) @ to_string (nat \<bar>sint n\<bar>)) @ ''-'' @ to_string i @ ''.code''"

definition elf_result :: "elf_error + 'a \<Rightarrow> launch_error + 'a" where
  "elf_result m = (case m of Inl e \<Rightarrow> Inl (Bad_metadata e) | Inr x \<Rightarrow> Inr x)"

definition setup_result :: "binint_error + 'a \<Rightarrow> launch_error + 'a" where
  "setup_result m = (case m of Inl e \<Rightarrow> Inl (Setup_failed e) | Inr x \<Rightarrow> Inr x)"

text \<open>One bundle: a descriptor of three 64-bit words, the triple, and the image elsewhere.
  \<open>stack\<close> is what the instrumentation finds in its uninitialised variables.\<close>

definition register_bundle :: "'w hip_runtime \<Rightarrow> 'w module_runtime \<Rightarrow> nat \<Rightarrow> gputrace_event \<Rightarrow> ArgInfo \<Rightarrow> bytes \<times> u32
    \<Rightarrow> bytes \<Rightarrow> nat \<Rightarrow> nat \<times> launch_state \<times> 'w \<Rightarrow> launch_error + nat \<times> launch_state \<times> 'w" where
  "register_bundle rt mr cap ev fresh stack binary i = (\<lambda>(next, ls, w).
     rbind (u64_at binary next) (\<lambda>offset.
     rbind (u64_at binary (next + 8)) (\<lambda>sz.
     rbind (u64_at binary (next + 16)) (\<lambda>tripleSize.
     let chunk_size = unat (24 + tripleSize)
     in rbind (slice binary (next + 24) (unat tripleSize)) (\<lambda>triple_bytes.
        let triple = string_of triple_bytes
        in if contains triple ''host'' then Inr (next + chunk_size, ls, w)
           else if \<not> contains triple ''gfx908'' then Inr (next + chunk_size, ls, w)
           else
             let filename = code_name triple (curr_event (tracer ls)) i
             in rbind (slice binary (unat offset) (unat sz)) (\<lambda>img.
                rbind (elf_result (getArgInfo fresh (elf_sections mr img) (kernel_arg_sizes ls))) (\<lambda>sizes.
                let ls = ls\<lparr>kernel_arg_sizes := sizes\<rparr>
                in case tool (tracer ls) of
                     TOOL_CAPTURE \<Rightarrow> rbind (captureFatBin rt cap ev img filename (tracer ls))
                       (\<lambda>st. Inr (next + chunk_size, ls\<lparr>tracer := st\<rparr>, w))
                   | TOOL_BININT \<Rightarrow>
                       rbind (setup_result (binintSetupForFatBin HIPT_CURRENT_APP (fst stack) (snd stack) (fr_binint mr) img filename w))
                         (\<lambda>(atomics, buffer, w). Inr (next + chunk_size,
                            ls\<lparr>atomic_addr := atomics, buffer_addr := buffer, filenames := filenames ls @ [filename]\<rparr>, w)))))))))"

definition hipRegisterFatBinary :: "'w hip_runtime \<Rightarrow> 'w module_runtime \<Rightarrow> nat \<Rightarrow> gputrace_event \<Rightarrow> ArgInfo
    \<Rightarrow> bytes \<times> u32 \<Rightarrow> u64 \<Rightarrow> launch_state \<times> 'w \<Rightarrow> launch_error + u64 \<times> launch_state \<times> 'w" where
  "hipRegisterFatBinary rt mr cap ev fresh stack data = (\<lambda>(ls, w).
     if handled_fatbins ls data = Some True then
       (let (handle, w) = fr_register mr data w in Inr (handle, ls, w))
     else
       let (register_event_id, st) = next_event_id (tracer ls);
           ls = ls\<lparr>tracer := st\<rparr>;
           binary = fr_binary mr w data
       in rbind (u64_at binary 24) (\<lambda>numBundles.
          rbind (for_loop 0 (unat numBundles) (register_bundle rt mr cap ev fresh stack binary) (32, ls, w))
            (\<lambda>(next, ls, w).
               let ls = ls\<lparr>handled_fatbins := (case handled_fatbins ls data of
                     None \<Rightarrow> (handled_fatbins ls)(data \<mapsto> True) | Some _ \<Rightarrow> handled_fatbins ls)\<rparr>;
                   (handle, w) = fr_register mr data w
               in Inr (handle, ls, w))))"

section \<open>Packing the arguments of a launch\<close>

definition arg_layout :: "argument_sizes \<Rightarrow> string \<Rightarrow> nat \<Rightarrow> launch_error + SizeOffset" where
  "arg_layout t kernel_name i =
     (case t (key_hash (arg_key kernel_name i)) of None \<Rightarrow> Inl Missing_key | Some so \<Rightarrow> Inr so)"

definition num_args_of :: "argument_sizes \<Rightarrow> string \<Rightarrow> u64" where
  "num_args_of t kernel_name = (case t (key_hash kernel_name) of None \<Rightarrow> 0 | Some so \<Rightarrow> so_size so)"

text \<open>The size is the end of the argument that comes last in the loop.\<close>

definition total_size :: "argument_sizes \<Rightarrow> string \<Rightarrow> nat \<Rightarrow> launch_error + u64" where
  "total_size t kernel_name n =
     for_loop 0 n (\<lambda>i total. rbind (arg_layout t kernel_name i) (\<lambda>so. Inr (so_offset so + so_size so))) 0"

definition write_at :: "bytes \<Rightarrow> nat \<Rightarrow> bytes \<Rightarrow> launch_error + bytes" where
  "write_at arg_data off src =
     (if off + length src \<le> length arg_data
      then Inr (take off arg_data @ src @ drop (off + length src) arg_data) else Inl Heap_overflow)"

definition pack_arg :: "(u64 \<Rightarrow> nat \<Rightarrow> bytes) \<Rightarrow> argument_sizes \<Rightarrow> string \<Rightarrow> u64 list \<Rightarrow> nat \<Rightarrow> bytes
    \<Rightarrow> launch_error + bytes" where
  "pack_arg read t kernel_name args i arg_data =
     rbind (arg_layout t kernel_name i) (\<lambda>so.
       if i \<ge> length args then Inl Args_out_of_range
       else if so_size so \<noteq> 0 \<and> args ! i \<noteq> 0 then
         write_at arg_data (unat (so_offset so)) (read (args ! i) (unat (so_size so)))
       else write_at arg_data (unat (so_offset so)) (le_bytes 8 (args ! i)))"

definition pack_args :: "(u64 \<Rightarrow> nat \<Rightarrow> bytes) \<Rightarrow> argument_sizes \<Rightarrow> string \<Rightarrow> u64 list \<Rightarrow> launch_error + bytes" where
  "pack_args read t kernel_name args =
     (let num_args = unat (num_args_of t kernel_name)
      in rbind (total_size t kernel_name num_args) (\<lambda>total.
         if total > 0x7FFFFFFFFFFFFFFF then Inl Bad_alloc
         else for_loop 0 num_args (pack_arg read t kernel_name args) (replicate (unat total) 0)))"

section \<open>Launching\<close>

fun load_modules :: "'w module_runtime \<Rightarrow> string list \<Rightarrow> 'w \<Rightarrow> u64 list \<times> 'w" where
  "load_modules mr [] w = ([], w)"
| "load_modules mr (f # fs) w =
     (let (m, w) = fr_module_load mr f w; (ms, w) = load_modules mr fs w in (m # ms, w))"

text \<open>Without a match the handle keeps its uninitialised value.\<close>

fun find_function :: "'w module_runtime \<Rightarrow> u64 \<Rightarrow> string \<Rightarrow> u64 list \<Rightarrow> 'w \<Rightarrow> u64 \<times> 'w" where
  "find_function mr uninit kernel_name [] w = (uninit, w)"
| "find_function mr uninit kernel_name (m # ms) w =
     (case fr_get_function mr m kernel_name w of
        (Some fn, w) \<Rightarrow> (fn, w)
      | (None, w) \<Rightarrow> find_function mr uninit kernel_name ms w)"

text \<open>\<open>hipModuleLaunchKernel\<close> only passes the call on.\<close>

definition hipModuleLaunchKernel :: "'w module_runtime \<Rightarrow> u64 \<Rightarrow> dim3 \<Rightarrow> dim3 \<Rightarrow> u32 \<Rightarrow> u64 \<Rightarrow> u64 list
    \<Rightarrow> launch_state \<times> 'w \<Rightarrow> u32 \<times> launch_state \<times> 'w" where
  "hipModuleLaunchKernel mr f gridDim blockDim sharedMemBytes stream kernelParams = (\<lambda>(ls, w).
     let (result, w) = fr_module_launch mr f gridDim blockDim sharedMemBytes stream kernelParams w
     in (result, ls, w))"

text \<open>
  \<open>ev\<close> and \<open>le\<close> are the uninitialised event records of the capture branch; \<open>uninit\<close> stands for the
  function handle and \<open>uninit_rc\<close> for the result, which are not initialised when instrumenting.
\<close>

definition hipLaunchKernel :: "'w hip_runtime \<Rightarrow> 'w module_runtime \<Rightarrow> nat \<Rightarrow> gputrace_event \<Rightarrow> gputrace_event_launch \<Rightarrow> u64 \<Rightarrow> u32
    \<Rightarrow> u64 \<Rightarrow> dim3 \<Rightarrow> dim3 \<Rightarrow> u64 list \<Rightarrow> u64 \<Rightarrow> u64 \<Rightarrow> launch_state \<times> 'w
    \<Rightarrow> launch_error + u32 \<times> launch_state \<times> 'w" where
  "hipLaunchKernel rt mr cap ev le uninit uninit_rc function_address numBlocks dimBlocks args sharedMemBytes stream = (\<lambda>(ls, w).
     let kernel_name = c_str (rt_hipKernelNameRefByPtr rt function_address stream)
     in rbind (pack_args (host_read rt w) (kernel_arg_sizes ls) kernel_name args) (\<lambda>arg_data.
        case tool (tracer ls) of
          TOOL_CAPTURE \<Rightarrow>
            let (result, w) = rt_hipLaunchKernel rt function_address numBlocks dimBlocks args sharedMemBytes stream w;
                (n, st) = next_event_id (tracer ls);
                event = ev\<lparr>event_id := n, event_name := ''hipLaunchKernel'', event_rc := result,
                  event_stream := stream, event_type := EVENT_LAUNCH,
                  event_data := Data_launch (le\<lparr>launch_kernel_name := kernel_name, launch_num_blocks := numBlocks,
                    launch_dim_blocks := dimBlocks, launch_shared_mem_bytes := ucast sharedMemBytes, launch_argdata := arg_data\<rparr>)\<rparr>
            in rbind (push_event cap event st) (\<lambda>st. Inr (result, ls\<lparr>tracer := st\<rparr>, w))
        | TOOL_BININT \<Rightarrow>
            let (modules, w) = load_modules mr (filenames ls) w;
                (fn, w) = find_function mr uninit kernel_name modules w;
                (ignored, ls, w) = hipModuleLaunchKernel mr fn numBlocks dimBlocks (ucast sharedMemBytes) stream args (ls, w)
            in Inr (uninit_rc, ls, w)))"

section \<open>The packed arguments\<close>

text \<open>The bytes that the packing loop stores for one argument.\<close>

definition arg_bytes :: "(u64 \<Rightarrow> nat \<Rightarrow> bytes) \<Rightarrow> SizeOffset \<Rightarrow> u64 \<Rightarrow> bytes" where
  "arg_bytes read so arg = (if so_size so \<noteq> 0 \<and> arg \<noteq> 0 then read arg (unat (so_size so)) else le_bytes 8 arg)"

definition kernel_layout :: "argument_sizes \<Rightarrow> string \<Rightarrow> SizeOffset list \<Rightarrow> bool" where
  "kernel_layout t k ls \<longleftrightarrow> unat (num_args_of t k) = length ls
     \<and> (\<forall>i<length ls. t (key_hash (arg_key k i)) = Some (ls ! i))"

text \<open>Where the loop writes, given the bytes of each argument.\<close>

definition disjoint_pieces :: "SizeOffset list \<Rightarrow> bytes list \<Rightarrow> bool" where
  "disjoint_pieces ls bs \<longleftrightarrow> (\<forall>i<length ls. \<forall>j<length ls. i \<noteq> j \<longrightarrow>
     unat (so_offset (ls ! i)) + length (bs ! i) \<le> unat (so_offset (ls ! j))
     \<or> unat (so_offset (ls ! j)) + length (bs ! j) \<le> unat (so_offset (ls ! i)))"

lemma disjoint_piecesD:
  "disjoint_pieces ls bs \<Longrightarrow> i < length ls \<Longrightarrow> j < length ls \<Longrightarrow> i \<noteq> j \<Longrightarrow>
     unat (so_offset (ls ! i)) + length (bs ! i) \<le> unat (so_offset (ls ! j))
     \<or> unat (so_offset (ls ! j)) + length (bs ! j) \<le> unat (so_offset (ls ! i))"
  by (simp add: disjoint_pieces_def)

definition packed_size :: "SizeOffset list \<Rightarrow> u64" where
  "packed_size ls = (if ls = [] then 0 else so_offset (last ls) + so_size (last ls))"

lemma arg_layout_at: "kernel_layout t k ls \<Longrightarrow> i < length ls \<Longrightarrow> arg_layout t k i = Inr (ls ! i)"
  by (simp add: kernel_layout_def arg_layout_def)

lemma total_size_from:
  assumes "kernel_layout t k ls" "i + n \<le> length ls"
  shows "for_loop i n (\<lambda>i total. rbind (arg_layout t k i) (\<lambda>so. Inr (so_offset so + so_size so))) a
    = Inr (if n = 0 then a else so_offset (ls ! (i + n - 1)) + so_size (ls ! (i + n - 1)))"
  using assms by (induction n arbitrary: i a) (auto simp: arg_layout_at)

lemma total_size_layout: "kernel_layout t k ls \<Longrightarrow> total_size t k (length ls) = Inr (packed_size ls)"
  using total_size_from [of t k ls 0 "length ls" 0]
  by (auto simp: total_size_def packed_size_def last_conv_nth)

lemma pack_arg_at:
  assumes "kernel_layout t k ls" "i < length ls" "i < length args"
  shows "pack_arg read t k args i b = write_at b (unat (so_offset (ls ! i))) (arg_bytes read (ls ! i) (args ! i))"
  using assms by (simp add: pack_arg_def arg_layout_at arg_bytes_def)

lemma write_at_nth:
  assumes "off + length src \<le> length b"
  shows "\<exists>b'. write_at b off src = Inr b' \<and> length b' = length b
    \<and> (\<forall>k<length b. b' ! k = (if off \<le> k \<and> k < off + length src then src ! (k - off) else b ! k))"
  using assms by (auto simp: write_at_def nth_append min_def)

lemma pack_loop:
  assumes "kernel_layout t k ls" "length ls \<le> length args" "i + n \<le> length ls"
    and "\<forall>j<length ls. unat (so_offset (ls ! j)) + length (arg_bytes read (ls ! j) (args ! j)) \<le> length b"
  shows "\<exists>out. for_loop i n (pack_arg read t k args) b = Inr out \<and> length out = length b
    \<and> (\<forall>x<length b. (\<forall>j. i \<le> j \<and> j < i + n \<longrightarrow> \<not> (unat (so_offset (ls ! j)) \<le> x
          \<and> x < unat (so_offset (ls ! j)) + length (arg_bytes read (ls ! j) (args ! j)))) \<longrightarrow> out ! x = b ! x)
    \<and> (disjoint_pieces ls (map (\<lambda>j. arg_bytes read (ls ! j) (args ! j)) [0..<length ls]) \<longrightarrow>
        (\<forall>j. i \<le> j \<and> j < i + n \<longrightarrow> (\<forall>x<length (arg_bytes read (ls ! j) (args ! j)).
           out ! (unat (so_offset (ls ! j)) + x) = arg_bytes read (ls ! j) (args ! j) ! x)))"
  using assms(3,4)
proof (induction n arbitrary: i b)
  case (Suc n)
  let ?bs = "\<lambda>j. arg_bytes read (ls ! j) (args ! j)" and ?off = "\<lambda>j. unat (so_offset (ls ! j))"
  from Suc.prems have i: "i < length ls" "?off i + length (?bs i) \<le> length b" by auto
  from write_at_nth [OF i(2)] obtain b' where
    b': "write_at b (?off i) (?bs i) = Inr b'" "length b' = length b"
      "\<forall>x<length b. b' ! x = (if ?off i \<le> x \<and> x < ?off i + length (?bs i) then ?bs i ! (x - ?off i) else b ! x)" by blast
  have "Suc i + n \<le> length ls" "\<forall>j<length ls. ?off j + length (?bs j) \<le> length b'"
    using Suc.prems b'(2) by auto
  from Suc.IH [OF this] obtain out where
    out: "for_loop (Suc i) n (pack_arg read t k args) b' = Inr out" "length out = length b'"
    and keep: "\<forall>x<length b'. (\<forall>j. Suc i \<le> j \<and> j < Suc i + n \<longrightarrow> \<not> (?off j \<le> x \<and> x < ?off j + length (?bs j)))
      \<longrightarrow> out ! x = b' ! x"
    and got: "disjoint_pieces ls (map ?bs [0..<length ls]) \<longrightarrow>
      (\<forall>j. Suc i \<le> j \<and> j < Suc i + n \<longrightarrow> (\<forall>x<length (?bs j). out ! (?off j + x) = ?bs j ! x))" by blast
  have run: "for_loop i (Suc n) (pack_arg read t k args) b = Inr out"
    using i assms(1,2) b'(1) out(1) by (simp add: pack_arg_at)
  have kept: "out ! x = b ! x" if "x < length b"
    "\<forall>j. i \<le> j \<and> j < i + Suc n \<longrightarrow> \<not> (?off j \<le> x \<and> x < ?off j + length (?bs j))" for x
    using that keep b'(2,3) by auto
  have here: "out ! (?off i + x) = ?bs i ! x"
    if apart: "disjoint_pieces ls (map ?bs [0..<length ls])" "x < length (?bs i)" for x
  proof -
    have "\<not> (?off j \<le> ?off i + x \<and> ?off i + x < ?off j + length (?bs j))" if "Suc i \<le> j" "j < Suc i + n" for j
      using disjoint_piecesD [OF apart(1), of i j] apart(2) i(1) Suc.prems(1) that by auto
    then have "out ! (?off i + x) = b' ! (?off i + x)"
      using keep b'(2) i(2) apart(2) by auto
    then show ?thesis using b'(3) i(2) apart(2) by auto
  qed
  have "out ! (?off j + x) = ?bs j ! x"
    if "disjoint_pieces ls (map ?bs [0..<length ls])" "i \<le> j" "j < i + Suc n" "x < length (?bs j)" for j x
    using that here got by (cases "j = i") auto
  with run kept out(2) b'(2) show ?case by auto
qed auto

lemma pack_loop_outcome:
  assumes "kernel_layout t k ls" "length ls \<le> length args" "i + n \<le> length ls"
  shows "for_loop i n (pack_arg read t k args) b = Inl Heap_overflow
    \<or> (\<exists>out. for_loop i n (pack_arg read t k args) b = Inr out \<and> length out = length b
        \<and> (\<forall>j. i \<le> j \<and> j < i + n \<longrightarrow>
             unat (so_offset (ls ! j)) + length (arg_bytes read (ls ! j) (args ! j)) \<le> length b))"
  using assms(3)
proof (induction n arbitrary: i b)
  case (Suc n)
  then have i: "i < length ls" "i < length args" "Suc i + n \<le> length ls" using assms(2) by auto
  show ?case
  proof (cases "unat (so_offset (ls ! i)) + length (arg_bytes read (ls ! i) (args ! i)) \<le> length b")
    case True
    from write_at_nth [OF this] obtain b'
      where b': "pack_arg read t k args i b = Inr b'" "length b' = length b"
      using pack_arg_at [OF assms(1) i(1,2)] by auto
    have "j = i \<or> Suc i \<le> j" if "i \<le> j" for j using that by auto
    with Suc.IH [OF i(3), of b'] b' True show ?thesis by auto
  next
    case False
    then show ?thesis using pack_arg_at [OF assms(1) i(1,2)] by (simp add: write_at_def)
  qed
qed simp

lemma pack_args_ok:
  assumes "kernel_layout t k ls" "length ls \<le> length args"
    and "packed_size ls \<le> 0x7FFFFFFFFFFFFFFF"
    and "\<forall>i<length ls. unat (so_offset (ls ! i)) + length (arg_bytes read (ls ! i) (args ! i)) \<le> unat (packed_size ls)"
    and "disjoint_pieces ls (map (\<lambda>i. arg_bytes read (ls ! i) (args ! i)) [0..<length ls])"
  shows "\<exists>out. pack_args read t k args = Inr out \<and> length out = unat (packed_size ls)
    \<and> (\<forall>i<length ls. piece out (unat (so_offset (ls ! i))) (length (arg_bytes read (ls ! i) (args ! i)))
          = arg_bytes read (ls ! i) (args ! i))
    \<and> (\<forall>x<length out. (\<forall>i<length ls. \<not> (unat (so_offset (ls ! i)) \<le> x
          \<and> x < unat (so_offset (ls ! i)) + length (arg_bytes read (ls ! i) (args ! i)))) \<longrightarrow> out ! x = 0)"
proof -
  let ?b = "replicate (unat (packed_size ls)) (0 :: u8)"
  have n: "unat (num_args_of t k) = length ls" using assms(1) by (simp add: kernel_layout_def)
  from pack_loop [OF assms(1,2), of 0 "length ls" read ?b] assms(4,5) obtain out
    where out: "for_loop 0 (length ls) (pack_arg read t k args) ?b = Inr out" "length out = unat (packed_size ls)"
      "\<forall>x<length ?b. (\<forall>j. 0 \<le> j \<and> j < 0 + length ls \<longrightarrow> \<not> (unat (so_offset (ls ! j)) \<le> x
          \<and> x < unat (so_offset (ls ! j)) + length (arg_bytes read (ls ! j) (args ! j)))) \<longrightarrow> out ! x = ?b ! x"
      "\<forall>j. 0 \<le> j \<and> j < 0 + length ls \<longrightarrow> (\<forall>x<length (arg_bytes read (ls ! j) (args ! j)).
           out ! (unat (so_offset (ls ! j)) + x) = arg_bytes read (ls ! j) (args ! j) ! x)" by auto
  have "piece out (unat (so_offset (ls ! i))) (length (arg_bytes read (ls ! i) (args ! i)))
          = arg_bytes read (ls ! i) (args ! i)" if "i < length ls" for i
    using that out(2,4) assms(4) by (intro piece_eqI) auto
  with out show ?thesis
    using assms(3) by (auto simp: pack_args_def n total_size_layout [OF assms(1)] not_less)
qed

text \<open>
  C4: packing a launch: when the metadata give each argument a place of its own inside the
  buffer, the packed buffer ends with the last argument and holds at the place of each argument
  the bytes it points to, the pointer itself for a hidden or null argument, and zeros elsewhere.
\<close>

theorem pack_args_layout:
  assumes "kernel_layout t k ls" "length ls \<le> length args"
    and "packed_size ls \<le> 0x7FFFFFFFFFFFFFFF"
    and "\<forall>i<length ls. unat (so_offset (ls ! i)) + length (arg_bytes read (ls ! i) (args ! i)) \<le> unat (packed_size ls)"
    and "disjoint_pieces ls (map (\<lambda>i. arg_bytes read (ls ! i) (args ! i)) [0..<length ls])"
  shows "\<exists>out. pack_args read t k args = Inr out \<and> length out = unat (packed_size ls)
    \<and> (\<forall>i<length ls. piece out (unat (so_offset (ls ! i))) (length (arg_bytes read (ls ! i) (args ! i)))
          = arg_bytes read (ls ! i) (args ! i))
    \<and> (\<forall>x<length out. (\<forall>i<length ls. \<not> (unat (so_offset (ls ! i)) \<le> x
          \<and> x < unat (so_offset (ls ! i)) + length (arg_bytes read (ls ! i) (args ! i)))) \<longrightarrow> out ! x = 0)"
  using pack_args_ok [OF assms] .

definition sample_args :: "ArgInfo list" where
  "sample_args =
    [\<lparr>info_index = 0, address_space = ''global'', info_size = 8, info_offset = 0, value_kind = ''global_buffer'', access = []\<rparr>,
     \<lparr>info_index = 1, address_space = [], info_size = 4, info_offset = 8, value_kind = ''by_value'', access = []\<rparr>]"

lemma sample_keys:
  "key_hash (arg_key ''k'' 0) \<noteq> key_hash ''k''" "key_hash (arg_key ''k'' (Suc 0)) \<noteq> key_hash ''k''"
  "key_hash (arg_key ''k'' 0) \<noteq> key_hash (arg_key ''k'' (Suc 0))"
  by code_simp+

lemma sample_kernel_layout:
  "kernel_layout (store_kernel ''k'' sample_args Map.empty) ''k'' (map size_offset_of sample_args)"
  using sample_keys
  by (auto simp: kernel_layout_def num_args_of_def store_kernel_def sample_args_def less_Suc_eq)

lemma sample_size_offset:
  "map size_offset_of sample_args = [\<lparr>so_size = 8, so_offset = 0\<rparr>, \<lparr>so_size = 4, so_offset = 8\<rparr>]"
  by (simp add: sample_args_def size_offset_of_def contains_def)

definition sample_memory :: "u64 \<Rightarrow> nat \<Rightarrow> bytes" where
  "sample_memory a n = take n (if a = 4096 then [0, 32, 0, 0, 0, 0, 0, 0] else [7, 0, 0, 0, 0, 0, 0, 0])"

theorem pack_args_layout_witness:
  "\<exists>out. pack_args sample_memory (store_kernel ''k'' sample_args Map.empty) ''k'' [4096, 5000] = Inr out
    \<and> length out = 12 \<and> piece out 0 8 = [0, 32, 0, 0, 0, 0, 0, 0] \<and> piece out 8 4 = [7, 0, 0, 0]"
proof -
  let ?ls = "map size_offset_of sample_args"
  have "length ?ls \<le> length [4096, 5000 :: u64]" "packed_size ?ls \<le> 0x7FFFFFFFFFFFFFFF"
    "\<forall>i<length ?ls. unat (so_offset (?ls ! i)) + length (arg_bytes sample_memory (?ls ! i) ([4096, 5000] ! i))
      \<le> unat (packed_size ?ls)"
    "disjoint_pieces ?ls (map (\<lambda>i. arg_bytes sample_memory (?ls ! i) ([4096, 5000] ! i)) [0..<length ?ls])"
    unfolding sample_size_offset
    by (simp_all add: packed_size_def arg_bytes_def sample_memory_def disjoint_pieces_def less_Suc_eq)
  from pack_args_layout [OF sample_kernel_layout this] obtain out
    where out: "pack_args sample_memory (store_kernel ''k'' sample_args Map.empty) ''k'' [4096, 5000] = Inr out"
      "length out = unat (packed_size ?ls)"
      "\<forall>i<length ?ls. piece out (unat (so_offset (?ls ! i)))
          (length (arg_bytes sample_memory (?ls ! i) ([4096, 5000] ! i)))
        = arg_bytes sample_memory (?ls ! i) ([4096, 5000] ! i)" by blast
  have bytes: "arg_bytes sample_memory (?ls ! 0) ([4096, 5000] ! 0) = [0, 32, 0, 0, 0, 0, 0, 0]"
    "arg_bytes sample_memory (?ls ! 1) ([4096, 5000] ! 1) = [7, 0, 0, 0]"
    "length out = 12" "so_offset (?ls ! 0) = 0" "so_offset (?ls ! 1) = 8"
    using out(2) unfolding sample_size_offset
    by (simp_all add: packed_size_def arg_bytes_def sample_memory_def)
  have "0 < length ?ls" "1 < length ?ls" by (simp_all add: sample_args_def)
  then have p: "piece out (unat (so_offset (?ls ! 0))) (length (arg_bytes sample_memory (?ls ! 0) ([4096, 5000] ! 0)))
        = arg_bytes sample_memory (?ls ! 0) ([4096, 5000] ! 0)"
    "piece out (unat (so_offset (?ls ! 1))) (length (arg_bytes sample_memory (?ls ! 1) ([4096, 5000] ! 1)))
        = arg_bytes sample_memory (?ls ! 1) ([4096, 5000] ! 1)" using out(3) by blast+
  have n: "length [0, 32, 0, 0, 0, 0, 0, 0 :: u8] = 8" "length [7, 0, 0, 0 :: u8] = 4"
    "unat (0 :: u64) = 0" "unat (8 :: u64) = 8" by simp_all
  from p have "piece out 0 8 = [0, 32, 0, 0, 0, 0, 0, 0]" "piece out 8 4 = [7, 0, 0, 0]"
    unfolding bytes n .
  with out(1) bytes(3) show ?thesis by blast
qed

text \<open>
  C38: a kernel whose last argument is hidden cannot be launched: its size counts as 0, so the
  buffer ends where the loop then stores a pointer of 8 bytes.
\<close>

theorem hidden_last_argument_overflows:
  assumes "kernel_layout t k ls" "length ls \<le> length args" "ls \<noteq> []"
    and "so_size (last ls) = 0" "so_offset (last ls) \<le> 0x7FFFFFFFFFFFFFFF"
  shows "pack_args read t k args = Inl Heap_overflow"
proof -
  have n: "unat (num_args_of t k) = length ls" using assms(1) by (simp add: kernel_layout_def)
  let ?b = "replicate (unat (so_offset (last ls))) (0 :: u8)" and ?i = "length ls - 1"
  have size: "packed_size ls = so_offset (last ls)" using assms(3,4) by (simp add: packed_size_def)
  have "\<not> unat (so_offset (ls ! ?i)) + length (arg_bytes read (ls ! ?i) (args ! ?i)) \<le> length ?b"
    using assms(3,4) by (simp add: arg_bytes_def last_conv_nth)
  moreover have "0 \<le> ?i" "?i < 0 + length ls" using assms(3) by simp_all
  ultimately have "for_loop 0 (length ls) (pack_arg read t k args) ?b = Inl Heap_overflow"
    using pack_loop_outcome [OF assms(1,2), of 0 "length ls" read ?b] by auto
  then show ?thesis
    using assms(5) by (simp add: pack_args_def n total_size_layout [OF assms(1)] size not_less)
qed

definition hidden_args :: "ArgInfo list" where
  "hidden_args =
    [\<lparr>info_index = 0, address_space = [], info_size = 8, info_offset = 0, value_kind = ''hidden_none'', access = []\<rparr>]"

theorem hidden_last_argument_overflows_witness:
  "pack_args sample_memory (store_kernel ''k'' hidden_args Map.empty) ''k'' [0] = Inl Heap_overflow"
proof -
  have so: "map size_offset_of hidden_args = [\<lparr>so_size = 0, so_offset = 0\<rparr>]"
    by (simp add: hidden_args_def size_offset_of_def contains_def)
  have "kernel_layout (store_kernel ''k'' hidden_args Map.empty) ''k'' (map size_offset_of hidden_args)"
    using sample_keys by (auto simp: kernel_layout_def num_args_of_def store_kernel_def hidden_args_def)
  from hidden_last_argument_overflows [OF this, of "[0]"] show ?thesis by (simp add: so)
qed

section \<open>Registering a fat binary\<close>

text \<open>
  The contents of a fat binary: the triple and the image of each bundle, with the place of the
  image. \<open>fat_binary\<close> says that a memory holds them in the format of the offload bundler.
\<close>

type_synonym code_bundle = "bytes \<times> u64 \<times> bytes"

definition descriptor_bytes :: "code_bundle \<Rightarrow> bytes" where
  "descriptor_bytes = (\<lambda>(triple, offset, img).
     le_bytes 8 offset @ le_bytes 8 (word_of_nat (length img) :: u64)
       @ le_bytes 8 (word_of_nat (length triple) :: u64) @ triple)"

definition image_at :: "bytes \<Rightarrow> code_bundle \<Rightarrow> bool" where
  "image_at binary = (\<lambda>(triple, offset, img). length triple < 2 ^ 63 \<and> length img < 2 ^ 63
     \<and> unat offset + length img \<le> length binary \<and> piece binary (unat offset) (length img) = img)"

definition fat_binary :: "bytes \<Rightarrow> code_bundle list \<Rightarrow> bool" where
  "fat_binary binary bs \<longleftrightarrow> (\<exists>magic rest. length magic = 24 \<and> length bs < 2 ^ 63
     \<and> binary = magic @ le_bytes 8 (word_of_nat (length bs) :: u64) @ concat (map descriptor_bytes bs) @ rest)
     \<and> (\<forall>b\<in>set bs. image_at binary b)"

definition device_code :: "bytes \<Rightarrow> bool" where
  "device_code triple \<longleftrightarrow> \<not> contains (string_of triple) ''host'' \<and> contains (string_of triple) ''gfx908''"

text \<open>The specification: the tables and the events that the bundles from number \<open>i\<close> on give.\<close>

fun bundle_tables :: "ArgInfo \<Rightarrow> (bytes \<Rightarrow> section_data list) \<Rightarrow> code_bundle list \<Rightarrow> argument_sizes
    \<Rightarrow> elf_error + argument_sizes" where
  "bundle_tables fresh secs [] t = Inr t"
| "bundle_tables fresh secs ((triple, offset, img) # bs) t =
     rbind (if device_code triple then getArgInfo fresh (secs img) t else Inr t) (bundle_tables fresh secs bs)"

fun bundle_events :: "'w hip_runtime \<Rightarrow> gputrace_event \<Rightarrow> u32 \<Rightarrow> nat \<Rightarrow> code_bundle list \<Rightarrow> gputrace_event list" where
  "bundle_events rt ev n i [] = []"
| "bundle_events rt ev n i ((triple, offset, img) # bs) =
     (if device_code triple
      then [ev\<lparr>event_id := scast n, event_rc := 0, event_stream := c_hipStreamDefault rt, event_type := EVENT_CODE,
              event_data := Data_code \<lparr>code_filename = code_name (string_of triple) n i, code_code = img\<rparr>\<rparr>] else [])
     @ bundle_events rt ev n (Suc i) bs"

lemma length_descriptor [simp]: "length (descriptor_bytes (triple, offset, img)) = 24 + length triple"
  by (simp add: descriptor_bytes_def)

lemma read_u64 [simp]: "u64_at (a @ le_bytes 8 (x :: u64) @ c) (length a) = Inr x"
  by (simp add: u64_at_def le_word_le_bytes)

lemma read_slice [simp]: "slice (a @ b @ c) (length a) (length b) = Inr b"
  by (simp add: slice_def)

lemma unat_length: "n < 2 ^ 63 \<Longrightarrow> unat (word_of_nat n :: u64) = n"
  by (simp add: unsigned_of_nat take_bit_nat_eq_self)

lemma read_descriptor:
  assumes "length triple < 2 ^ 63"
  shows "u64_at (a @ descriptor_bytes (triple, offset, img) @ c) (length a) = Inr offset"
    "u64_at (a @ descriptor_bytes (triple, offset, img) @ c) (length a + 8) = Inr (word_of_nat (length img))"
    "u64_at (a @ descriptor_bytes (triple, offset, img) @ c) (length a + 16) = Inr (word_of_nat (length triple))"
    "slice (a @ descriptor_bytes (triple, offset, img) @ c) (length a + 24) (length triple) = Inr triple"
  using read_u64 [of a offset] read_u64 [of "a @ le_bytes 8 offset"]
    read_u64 [of "a @ le_bytes 8 offset @ le_bytes 8 (word_of_nat (length img) :: u64)"]
    read_slice [of "a @ le_bytes 8 offset @ le_bytes 8 (word_of_nat (length img) :: u64)
      @ le_bytes 8 (word_of_nat (length triple) :: u64)" triple c]
  by (simp_all add: descriptor_bytes_def)

lemma chunk_size: "length triple < 2 ^ 63 \<Longrightarrow> unat (24 + word_of_nat (length triple) :: u64) = 24 + length triple"
  by (simp add: unat_word_ariths unat_length)

lemma captureFatBin_pushes:
  assumes "tool st = TOOL_CAPTURE" "length (events_queue st) < cap"
  shows "\<exists>st'. captureFatBin rt cap ev img filename st = Inr st' \<and> tool st' = TOOL_CAPTURE
    \<and> curr_event st' = curr_event st
    \<and> events_queue st' = events_queue st @ [ev\<lparr>event_id := scast (curr_event st), event_rc := 0,
         event_stream := c_hipStreamDefault rt, event_type := EVENT_CODE,
         event_data := Data_code \<lparr>code_filename = filename, code_code = img\<rparr>\<rparr>]"
  using assms by (auto simp: captureFatBin_def push_event_def pushback_event_def Let_def)

lemma register_bundle_step:
  assumes "binary = a @ descriptor_bytes (triple, offset, img) @ c" "image_at binary (triple, offset, img)"
    and "tool (tracer ls) = TOOL_CAPTURE"
    and "device_code triple \<Longrightarrow> length (events_queue (tracer ls)) < cap"
    and "(if device_code triple then getArgInfo fresh (elf_sections mr img) (kernel_arg_sizes ls)
           else Inr (kernel_arg_sizes ls)) = Inr t"
  shows "\<exists>ls'. register_bundle rt mr cap ev fresh stack binary i (length a, ls, w)
      = Inr (length a + length (descriptor_bytes (triple, offset, img)), ls', w)
    \<and> tool (tracer ls') = TOOL_CAPTURE \<and> curr_event (tracer ls') = curr_event (tracer ls)
    \<and> kernel_arg_sizes ls' = t \<and> handled_fatbins ls' = handled_fatbins ls \<and> filenames ls' = filenames ls
    \<and> events_queue (tracer ls') = events_queue (tracer ls)
        @ bundle_events rt ev (curr_event (tracer ls)) i [(triple, offset, img)]"
proof -
  from assms(2) have len: "length triple < 2 ^ 63" "length img < 2 ^ 63"
    and img: "slice binary (unat offset) (length img) = Inr img"
    by (auto simp: image_at_def slice_def piece_def)
  note reads = read_descriptor [OF len(1), of a offset img c, folded assms(1)]
  show ?thesis
  proof (cases "device_code triple")
    case False
    then show ?thesis using assms(3,5) len
      by (auto simp: register_bundle_def reads unat_length chunk_size device_code_def Let_def)
  next
    case True
    with captureFatBin_pushes [OF assms(3), of cap rt ev img "code_name (string_of triple) (curr_event (tracer ls)) i"]
      assms(4) obtain st' where st': "captureFatBin rt cap ev img (code_name (string_of triple) (curr_event (tracer ls)) i) (tracer ls) = Inr st'"
        "tool st' = TOOL_CAPTURE" "curr_event st' = curr_event (tracer ls)"
        "events_queue st' = events_queue (tracer ls) @ bundle_events rt ev (curr_event (tracer ls)) i [(triple, offset, img)]"
      by auto
    with True show ?thesis using assms(3,5) len
      by (auto simp: register_bundle_def reads unat_length chunk_size img elf_result_def device_code_def Let_def)
  qed
qed

lemma bundle_events_Cons:
  "bundle_events rt ev n i (b # bs) = bundle_events rt ev n i [b] @ bundle_events rt ev n (Suc i) bs"
  by (cases b) simp

lemma bundle_tables_Cons:
  "bundle_tables fresh secs (b # bs) t = Inr t' \<longleftrightarrow>
     (\<exists>t1. bundle_tables fresh secs [b] t = Inr t1 \<and> bundle_tables fresh secs bs t1 = Inr t')"
  by (cases b) (auto simp: outcome_simps)

lemma register_bundles:
  assumes "binary = a @ concat (map descriptor_bytes bs) @ rest" "\<forall>b\<in>set bs. image_at binary b"
    and "tool (tracer ls) = TOOL_CAPTURE"
    and "length (events_queue (tracer ls)) + length bs \<le> cap"
    and "bundle_tables fresh (elf_sections mr) bs (kernel_arg_sizes ls) = Inr t"
  shows "\<exists>next ls'. for_loop i (length bs) (register_bundle rt mr cap ev fresh stack binary) (length a, ls, w) = Inr (next, ls', w)
    \<and> tool (tracer ls') = TOOL_CAPTURE \<and> curr_event (tracer ls') = curr_event (tracer ls)
    \<and> kernel_arg_sizes ls' = t \<and> handled_fatbins ls' = handled_fatbins ls \<and> filenames ls' = filenames ls
    \<and> events_queue (tracer ls') = events_queue (tracer ls) @ bundle_events rt ev (curr_event (tracer ls)) i bs"
  using assms
proof (induction bs arbitrary: a ls i)
  case (Cons b bs)
  obtain triple offset img where b: "b = (triple, offset, img)" by (cases b)
  from Cons.prems(5) obtain t1 where t1: "bundle_tables fresh (elf_sections mr) [b] (kernel_arg_sizes ls) = Inr t1"
    and t: "bundle_tables fresh (elf_sections mr) bs t1 = Inr t" using bundle_tables_Cons by blast
  have mem: "binary = a @ descriptor_bytes b @ concat (map descriptor_bytes bs) @ rest"
    using Cons.prems(1) by simp
  from t1 have one: "(if device_code triple then getArgInfo fresh (elf_sections mr img) (kernel_arg_sizes ls)
      else Inr (kernel_arg_sizes ls)) = Inr t1" by (auto simp: b outcome_simps split: if_splits)
  have "image_at binary (triple, offset, img)" "length (events_queue (tracer ls)) < cap"
    using Cons.prems(2,4) by (simp_all add: b)
  from register_bundle_step [OF mem [unfolded b] this(1) Cons.prems(3) this(2) one] obtain ls1 where
    ls1: "register_bundle rt mr cap ev fresh stack binary i (length a, ls, w) = Inr (length a + length (descriptor_bytes b), ls1, w)"
      "tool (tracer ls1) = TOOL_CAPTURE" "curr_event (tracer ls1) = curr_event (tracer ls)"
      "kernel_arg_sizes ls1 = t1" "handled_fatbins ls1 = handled_fatbins ls" "filenames ls1 = filenames ls"
      "events_queue (tracer ls1) = events_queue (tracer ls) @ bundle_events rt ev (curr_event (tracer ls)) i [b]"
    unfolding b by blast
  have "length (bundle_events rt ev (curr_event (tracer ls)) i [b]) \<le> 1" by (simp add: b)
  then have room: "length (events_queue (tracer ls1)) + length bs \<le> cap" using ls1(7) Cons.prems(4) by simp
  have "\<forall>b\<in>set bs. image_at binary b" using Cons.prems(2) by simp
  moreover have "binary = (a @ descriptor_bytes b) @ concat (map descriptor_bytes bs) @ rest" using mem by simp
  moreover have "bundle_tables fresh (elf_sections mr) bs (kernel_arg_sizes ls1) = Inr t" using t ls1(4) by simp
  ultimately obtain nxt ls' where
    "for_loop (Suc i) (length bs) (register_bundle rt mr cap ev fresh stack binary)
       (length (a @ descriptor_bytes b), ls1, w) = Inr (nxt, ls', w)"
    "tool (tracer ls') = TOOL_CAPTURE" "curr_event (tracer ls') = curr_event (tracer ls1)"
    "kernel_arg_sizes ls' = t" "handled_fatbins ls' = handled_fatbins ls1" "filenames ls' = filenames ls1"
    "events_queue (tracer ls') = events_queue (tracer ls1) @ bundle_events rt ev (curr_event (tracer ls1)) (Suc i) bs"
    using Cons.IH [OF _ _ ls1(2) room, of "a @ descriptor_bytes b" "Suc i"] by blast
  with ls1 show ?case by (auto simp: bundle_events_Cons [of rt ev "curr_event (tracer ls)" i b bs])
qed auto

text \<open>
  C5: registering a fat binary while capturing: every bundle is visited, the argument tables of
  exactly the device images for the supported processor are added in order, one code event per
  such image is queued, in order, all with the same number, which stays free for the next event;
  the call returns what the real registration returns, and registering the same binary again only
  passes the call on.
\<close>

theorem registered_fat_binary:
  assumes "fat_binary (fr_binary mr w data) bs"
    and "tool (tracer ls) = TOOL_CAPTURE" "handled_fatbins ls data = None"
    and "length (events_queue (tracer ls)) + length bs \<le> cap"
    and "bundle_tables fresh (elf_sections mr) bs (kernel_arg_sizes ls) = Inr t"
  shows "\<exists>ls'. hipRegisterFatBinary rt mr cap ev fresh stack data (ls, w) = Inr (fst (fr_register mr data w), ls', snd (fr_register mr data w))
    \<and> kernel_arg_sizes ls' = t \<and> curr_event (tracer ls') = curr_event (tracer ls) + 1
    \<and> events_queue (tracer ls') = events_queue (tracer ls) @ bundle_events rt ev (curr_event (tracer ls) + 1) 0 bs
    \<and> (\<forall>w2. hipRegisterFatBinary rt mr cap ev fresh stack data (ls', w2)
          = Inr (fst (fr_register mr data w2), ls', snd (fr_register mr data w2)))"
proof -
  let ?binary = "fr_binary mr w data"
  from assms(1) obtain magic rest where bin: "length magic = 24" "length bs < 2 ^ 63"
    "?binary = (magic @ le_bytes 8 (word_of_nat (length bs) :: u64)) @ concat (map descriptor_bytes bs) @ rest"
    and images: "\<forall>b\<in>set bs. image_at ?binary b" by (auto simp: fat_binary_def)
  have count: "u64_at ?binary 24 = Inr (word_of_nat (length bs))"
    using read_u64 [of magic "word_of_nat (length bs)"] bin(1,3) by simp
  let ?ls = "ls\<lparr>tracer := (tracer ls)\<lparr>curr_event := curr_event (tracer ls) + 1\<rparr>\<rparr>"
  have "tool (tracer ?ls) = TOOL_CAPTURE" "length (events_queue (tracer ?ls)) + length bs \<le> cap"
    "bundle_tables fresh (elf_sections mr) bs (kernel_arg_sizes ?ls) = Inr t"
    using assms(2,4,5) by simp_all
  from register_bundles [OF bin(3) images this, of 0 rt ev stack w] bin(1) obtain nxt ls' where
    ls': "for_loop 0 (length bs) (register_bundle rt mr cap ev fresh stack ?binary) (32, ?ls, w) = Inr (nxt, ls', w)"
      "curr_event (tracer ls') = curr_event (tracer ls) + 1" "kernel_arg_sizes ls' = t"
      "handled_fatbins ls' = handled_fatbins ls"
      "events_queue (tracer ls') = events_queue (tracer ls) @ bundle_events rt ev (curr_event (tracer ls) + 1) 0 bs"
    by auto
  have "hipRegisterFatBinary rt mr cap ev fresh stack data (ls, w) = Inr (fst (fr_register mr data w),
      ls'\<lparr>handled_fatbins := (handled_fatbins ls)(data \<mapsto> True)\<rparr>, snd (fr_register mr data w))"
    using assms(3) ls'(1,4) bin(2)
    by (simp add: hipRegisterFatBinary_def next_event_id_def Let_def count unat_length split: prod.splits)
  with ls' show ?thesis by (auto simp: hipRegisterFatBinary_def split: prod.splits)
qed

definition sample_modules :: "nat module_runtime" where
  "sample_modules = \<lparr>fr_register = (\<lambda>data w. (77, w)),
     fr_binary = (\<lambda>w data. replicate 24 0 @ le_bytes 8 (1 :: u64)
        @ descriptor_bytes (bytes_of ''hip-gfx908'', 0, replicate 3 0)),
     fr_binint = \<lparr>br_load = (\<lambda>img. []), br_symbols = (\<lambda>s i. []), br_decode = (\<lambda>b. []), br_malloc = (\<lambda>n w. (4096, w)),
       br_copy_to = (\<lambda>d b w. (0, w)), br_save = (\<lambda>f s w. w)\<rparr>, fr_module_load = (\<lambda>f w. (0, w)),
     fr_get_function = (\<lambda>m k w. (None, w)), fr_module_launch = (\<lambda>f g b sh st ps w. (0, w))\<rparr>"

definition sample_event_record :: gputrace_event where
  "sample_event_record = \<lparr>event_id = 0, event_rc = 0, event_stream = 0, event_name = [], event_type = EVENT_FREE,
     event_data = Data_free \<lparr>free_p = 0\<rparr>\<rparr>"

definition sample_launch_state :: launch_state where
  "sample_launch_state = \<lparr>tracer = \<lparr>tool = TOOL_CAPTURE, curr_event = 4, events_queue = [], writer_started = False,
     notified = False\<rparr>, kernel_arg_sizes = Map.empty, handled_fatbins = Map.empty, filenames = [],
     atomic_addr = 0, buffer_addr = 0\<rparr>"

theorem registered_fat_binary_witness:
  "\<exists>ls'. hipRegisterFatBinary sample_runtime sample_modules 8 sample_event_record (hd sample_args) ([], 0) 640 (sample_launch_state, 3)
      = Inr (77, ls', 3)
    \<and> map event_id (events_queue (tracer ls')) = [5] \<and> curr_event (tracer ls') = 5"
proof -
  let ?b = "(bytes_of ''hip-gfx908'', 0 :: u64, replicate 3 0 :: bytes)"
  have "fat_binary (fr_binary sample_modules 3 640) [?b]"
    unfolding fat_binary_def
    by (intro conjI exI [of _ "replicate 24 0"] exI [of _ "[]"])
      (simp_all add: sample_modules_def image_at_def piece_def bytes_of_def)
  moreover have dev: "device_code (bytes_of ''hip-gfx908'')" by code_simp
  ultimately show ?thesis
    using registered_fat_binary [of sample_modules 3 640 "[?b]" sample_launch_state 8 "hd sample_args" Map.empty
        sample_runtime sample_event_record "([], 0)"]
    by (auto simp: sample_launch_state_def sample_modules_def elf_sections_def getArgInfo_def)
qed

end
