(* ===== verification/Elf_File.thy ===== *)
theory Elf_File
  imports HT_Prelude
begin

text \<open>
  ELF files as the tracer reads them (\<^verbatim>\<open>include/elfio\<close>): header, section and segment tables, section
  names, string and symbol tables, for both classes and both byte orders. Headers are kept as the
  bytes of their structures and read through the getters. An input stream is its bytes and its
  fail bit: after a short read nothing more is read from it. The memory of a fresh array is the
  argument \<open>uninit\<close>; allocations of at most the size of the file succeed.
\<close>

section \<open>Byte order and fields\<close>

definition ELFCLASS32 :: u8 where "ELFCLASS32 = 1"
definition ELFCLASS64 :: u8 where "ELFCLASS64 = 2"
definition ELFDATA2LSB :: u8 where "ELFDATA2LSB = 1"
definition ELFDATA2MSB :: u8 where "ELFDATA2MSB = 2"

definition SHT_NULL :: u32 where "SHT_NULL = 0"
definition SHT_NOBITS :: u32 where "SHT_NOBITS = 8"
definition SHF_ALLOC :: u64 where "SHF_ALLOC = 2"
definition SHF_TLS :: u64 where "SHF_TLS = 0x400"
definition SHN_UNDEF :: u16 where "SHN_UNDEF = 0"
definition PT_NULL :: u32 where "PT_NULL = 0"
definition PT_PHDR :: u32 where "PT_PHDR = 6"
definition PT_TLS :: u32 where "PT_TLS = 7"

text \<open>The class of a file and whether its byte order differs from the host's, little endian.\<close>

record elf_kind =
  is64 :: bool
  need_conversion :: bool

definition setup_kind :: "u8 \<Rightarrow> u8 \<Rightarrow> elf_kind" where
  "setup_kind file_class encoding =
     \<lparr>is64 = (file_class = ELFCLASS64), need_conversion = (encoding \<noteq> ELFDATA2LSB)\<rparr>"

definition convert64 :: "bool \<Rightarrow> u64 \<Rightarrow> u64" where
  "convert64 need x =
     (if \<not> need then x
      else push_bit 56 (x AND 0x00000000000000FF) OR push_bit 40 (x AND 0x000000000000FF00)
        OR push_bit 24 (x AND 0x0000000000FF0000) OR push_bit 8 (x AND 0x00000000FF000000)
        OR drop_bit 8 (x AND 0x000000FF00000000) OR drop_bit 24 (x AND 0x0000FF0000000000)
        OR drop_bit 40 (x AND 0x00FF000000000000) OR drop_bit 56 (x AND 0xFF00000000000000))"

definition convert32 :: "bool \<Rightarrow> u32 \<Rightarrow> u32" where
  "convert32 need x =
     (if \<not> need then x
      else push_bit 24 (x AND 0x000000FF) OR push_bit 8 (x AND 0x0000FF00)
        OR drop_bit 8 (x AND 0x00FF0000) OR drop_bit 24 (x AND 0xFF000000))"

definition convert16 :: "bool \<Rightarrow> u16 \<Rightarrow> u16" where
  "convert16 need x =
     (if \<not> need then x else push_bit 8 (x AND 0x00FF) OR drop_bit 8 (x AND 0xFF00))"

text \<open>
  A field is the pair of its offsets in the structures of the two classes. A wide field has 8
  bytes in the 64-bit structure and 4 in the other one; the setters truncate to the field.
\<close>

type_synonym elf_field = "nat \<times> nat"

definition field_pos :: "elf_kind \<Rightarrow> elf_field \<Rightarrow> nat" where
  "field_pos k f = (if is64 k then fst f else snd f)"

definition put :: "bytes \<Rightarrow> nat \<Rightarrow> bytes \<Rightarrow> bytes" where
  "put h off b = take off h @ b @ drop (off + length b) h"

definition get_half :: "elf_kind \<Rightarrow> bytes \<Rightarrow> elf_field \<Rightarrow> u16" where
  "get_half k h f = convert16 (need_conversion k) (le_word (piece h (field_pos k f) 2))"

definition get_word :: "elf_kind \<Rightarrow> bytes \<Rightarrow> elf_field \<Rightarrow> u32" where
  "get_word k h f = convert32 (need_conversion k) (le_word (piece h (field_pos k f) 4))"

definition get_wide :: "elf_kind \<Rightarrow> bytes \<Rightarrow> elf_field \<Rightarrow> u64" where
  "get_wide k h f =
     (if is64 k then convert64 (need_conversion k) (le_word (piece h (field_pos k f) 8))
      else ucast (get_word k h f))"

definition set_half :: "elf_kind \<Rightarrow> elf_field \<Rightarrow> u16 \<Rightarrow> bytes \<Rightarrow> bytes" where
  "set_half k f x h = put h (field_pos k f) (le_bytes 2 (convert16 (need_conversion k) x))"

definition set_word :: "elf_kind \<Rightarrow> elf_field \<Rightarrow> u32 \<Rightarrow> bytes \<Rightarrow> bytes" where
  "set_word k f x h = put h (field_pos k f) (le_bytes 4 (convert32 (need_conversion k) x))"

definition set_wide :: "elf_kind \<Rightarrow> elf_field \<Rightarrow> u64 \<Rightarrow> bytes \<Rightarrow> bytes" where
  "set_wide k f x h =
     (if is64 k then put h (field_pos k f) (le_bytes 8 (convert64 (need_conversion k) x))
      else set_word k f (ucast x) h)"

text \<open>The file header \<^verbatim>\<open>Elf64_Ehdr\<close>, \<^verbatim>\<open>Elf32_Ehdr\<close>.\<close>

definition ehdr_size :: "elf_kind \<Rightarrow> nat" where "ehdr_size k = (if is64 k then 64 else 52)"
definition e_phoff :: elf_field where "e_phoff = (32, 28)"
definition e_shoff :: elf_field where "e_shoff = (40, 32)"
definition e_ehsize :: elf_field where "e_ehsize = (52, 40)"
definition e_phentsize :: elf_field where "e_phentsize = (54, 42)"
definition e_phnum :: elf_field where "e_phnum = (56, 44)"
definition e_shentsize :: elf_field where "e_shentsize = (58, 46)"
definition e_shnum :: elf_field where "e_shnum = (60, 48)"
definition e_shstrndx :: elf_field where "e_shstrndx = (62, 50)"

lemmas ehdr_fields = e_phoff_def e_shoff_def e_ehsize_def e_phentsize_def e_phnum_def e_shentsize_def
  e_shnum_def e_shstrndx_def

text \<open>A section header \<^verbatim>\<open>Elf64_Shdr\<close>, \<^verbatim>\<open>Elf32_Shdr\<close>.\<close>

definition shdr_size :: "elf_kind \<Rightarrow> nat" where "shdr_size k = (if is64 k then 64 else 40)"
definition sh_name :: elf_field where "sh_name = (0, 0)"
definition sh_type :: elf_field where "sh_type = (4, 4)"
definition sh_flags :: elf_field where "sh_flags = (8, 8)"
definition sh_addr :: elf_field where "sh_addr = (16, 12)"
definition sh_offset :: elf_field where "sh_offset = (24, 16)"
definition sh_size :: elf_field where "sh_size = (32, 20)"
definition sh_link :: elf_field where "sh_link = (40, 24)"
definition sh_info :: elf_field where "sh_info = (44, 28)"
definition sh_addralign :: elf_field where "sh_addralign = (48, 32)"
definition sh_entsize :: elf_field where "sh_entsize = (56, 36)"

lemmas shdr_fields = sh_name_def sh_type_def sh_flags_def sh_addr_def sh_offset_def sh_size_def sh_link_def
  sh_info_def sh_addralign_def sh_entsize_def

text \<open>A segment header \<^verbatim>\<open>Elf64_Phdr\<close>, \<^verbatim>\<open>Elf32_Phdr\<close>.\<close>

definition phdr_size :: "elf_kind \<Rightarrow> nat" where "phdr_size k = (if is64 k then 56 else 32)"
definition p_type :: elf_field where "p_type = (0, 0)"
definition p_offset :: elf_field where "p_offset = (8, 4)"
definition p_vaddr :: elf_field where "p_vaddr = (16, 8)"
definition p_filesz :: elf_field where "p_filesz = (32, 16)"
definition p_memsz :: elf_field where "p_memsz = (40, 20)"
definition p_align :: elf_field where "p_align = (48, 28)"

lemmas phdr_fields = p_type_def p_offset_def p_vaddr_def p_filesz_def p_memsz_def p_align_def

text \<open>A symbol \<^verbatim>\<open>Elf64_Sym\<close>, \<^verbatim>\<open>Elf32_Sym\<close>.\<close>

definition sym_size :: "elf_kind \<Rightarrow> nat" where "sym_size k = (if is64 k then 24 else 16)"
definition st_name :: elf_field where "st_name = (0, 0)"
definition st_value :: elf_field where "st_value = (8, 4)"
definition st_size :: elf_field where "st_size = (16, 8)"
definition st_info :: elf_field where "st_info = (4, 12)"
definition st_other :: elf_field where "st_other = (5, 13)"
definition st_shndx :: elf_field where "st_shndx = (6, 14)"

section \<open>Sections, segments and files\<close>

text \<open>\<open>sh_data\<close> is the array \<^verbatim>\<open>data\<close>, \<open>None\<close> the null pointer; \<open>data_size\<close> its capacity.\<close>

record elf_sec =
  sh_header :: bytes
  sh_index :: u16
  sh_title :: string
  sh_data :: "bytes option"
  data_size :: u32
  is_address_set :: bool
  sh_stream_size :: u64

record elf_seg =
  ph_header :: bytes
  ph_index :: u16
  ph_data :: "bytes option"
  ph_sections :: "u16 list"
  ph_stream_size :: u64
  is_offset_set :: bool

record elfio =
  el_kind :: elf_kind
  el_header :: bytes
  el_sections :: "elf_sec list"
  el_segments :: "elf_seg list"

definition sec_type_of :: "elf_kind \<Rightarrow> elf_sec \<Rightarrow> u32" where "sec_type_of k s = get_word k (sh_header s) sh_type"
definition sec_flags_of :: "elf_kind \<Rightarrow> elf_sec \<Rightarrow> u64" where "sec_flags_of k s = get_wide k (sh_header s) sh_flags"
definition sec_address_of :: "elf_kind \<Rightarrow> elf_sec \<Rightarrow> u64" where "sec_address_of k s = get_wide k (sh_header s) sh_addr"
definition sec_offset_of :: "elf_kind \<Rightarrow> elf_sec \<Rightarrow> u64" where "sec_offset_of k s = get_wide k (sh_header s) sh_offset"
definition sec_size_of :: "elf_kind \<Rightarrow> elf_sec \<Rightarrow> u64" where "sec_size_of k s = get_wide k (sh_header s) sh_size"
definition sec_align_of :: "elf_kind \<Rightarrow> elf_sec \<Rightarrow> u64" where "sec_align_of k s = get_wide k (sh_header s) sh_addralign"

lemmas sec_getters = sec_type_of_def sec_flags_of_def sec_address_of_def sec_offset_of_def sec_size_of_def
  sec_align_of_def

definition seg_type_of :: "elf_kind \<Rightarrow> elf_seg \<Rightarrow> u32" where "seg_type_of k s = get_word k (ph_header s) p_type"
definition seg_offset_of :: "elf_kind \<Rightarrow> elf_seg \<Rightarrow> u64" where "seg_offset_of k s = get_wide k (ph_header s) p_offset"
definition seg_address_of :: "elf_kind \<Rightarrow> elf_seg \<Rightarrow> u64" where "seg_address_of k s = get_wide k (ph_header s) p_vaddr"
definition seg_file_size_of :: "elf_kind \<Rightarrow> elf_seg \<Rightarrow> u64" where "seg_file_size_of k s = get_wide k (ph_header s) p_filesz"
definition seg_memory_size_of :: "elf_kind \<Rightarrow> elf_seg \<Rightarrow> u64" where "seg_memory_size_of k s = get_wide k (ph_header s) p_memsz"
definition seg_align_of :: "elf_kind \<Rightarrow> elf_seg \<Rightarrow> u64" where "seg_align_of k s = get_wide k (ph_header s) p_align"

lemmas seg_getters = seg_type_of_def seg_offset_of_def seg_address_of_def seg_file_size_of_def seg_memory_size_of_def
  seg_align_of_def

definition set_sec_address :: "elf_kind \<Rightarrow> u64 \<Rightarrow> elf_sec \<Rightarrow> elf_sec" where
  "set_sec_address k a s = s\<lparr>sh_header := set_wide k sh_addr a (sh_header s), is_address_set := True\<rparr>"

definition set_sec_offset :: "elf_kind \<Rightarrow> u64 \<Rightarrow> elf_sec \<Rightarrow> elf_sec" where
  "set_sec_offset k a s = s\<lparr>sh_header := set_wide k sh_offset a (sh_header s)\<rparr>"

definition set_sec_size :: "elf_kind \<Rightarrow> u64 \<Rightarrow> elf_sec \<Rightarrow> elf_sec" where
  "set_sec_size k n s = s\<lparr>sh_header := set_wide k sh_size n (sh_header s)\<rparr>"

text \<open>\<open>set_data\<close> and \<open>append_data\<close> of a section, for a string shorter than 4 GiB and no null pointer.\<close>

definition set_data :: "elf_kind \<Rightarrow> bytes \<Rightarrow> elf_sec \<Rightarrow> elf_sec" where
  "set_data k raw s =
     (let s = (if sec_type_of k s \<noteq> SHT_NOBITS
               then s\<lparr>sh_data := Some raw, data_size := word_of_nat (length raw)\<rparr> else s)
      in (set_sec_size k (ucast (data_size s)) s)\<lparr>sh_stream_size := ucast (data_size s)\<rparr>)"

definition append_data :: "elf_kind \<Rightarrow> (nat \<Rightarrow> u8) \<Rightarrow> bytes \<Rightarrow> elf_sec \<Rightarrow> elf_sec" where
  "append_data k uninit raw s =
     (if sec_type_of k s = SHT_NOBITS then s
      else
        let n = word_of_nat (length raw) :: u32; have = sec_size_of k s; held = (case sh_data s of None \<Rightarrow> [] | Some d \<Rightarrow> d);
            s = (if have + ucast n < ucast (data_size s) then s\<lparr>sh_data := Some (put held (unat have) raw)\<rparr>
                 else
                   let size = 2 * (data_size s + n)
                   in s\<lparr>data_size := size, sh_data := Some (take (unat have) held @ raw
                          @ map uninit [unat have + length raw..<unat size])\<rparr>)
        in (set_sec_size k (have + ucast n) s)\<lparr>sh_stream_size := sh_stream_size s + ucast n\<rparr>)"

section \<open>Reading\<close>

text \<open>A file, or a string in memory, in which a position behind the end cannot be reached.\<close>

record istream =
  is_bytes :: bytes
  is_memory :: bool
  is_pos :: nat
  is_fail :: bool

definition open_stream :: "bool \<Rightarrow> bytes \<Rightarrow> istream" where
  "open_stream memory file = \<lparr>is_bytes = file, is_memory = memory, is_pos = 0, is_fail = False\<rparr>"

definition seekg :: "int \<Rightarrow> istream \<Rightarrow> istream" where
  "seekg pos s =
     (if is_fail s then s
      else if pos < 0 \<or> is_memory s \<and> pos > int (length (is_bytes s)) then s\<lparr>is_fail := True\<rparr>
      else s\<lparr>is_pos := nat pos\<rparr>)"

text \<open>\<^verbatim>\<open>seekg\<close> to the end and \<^verbatim>\<open>tellg\<close>, which is -1 for a failed stream.\<close>

definition stream_end :: "istream \<Rightarrow> u64" where
  "stream_end s = (if is_fail s then -1 else word_of_nat (length (is_bytes s)))"

text \<open>\<^verbatim>\<open>read\<close> of at least one byte: what was read.\<close>

definition sread :: "nat \<Rightarrow> istream \<Rightarrow> bytes \<times> istream" where
  "sread n s =
     (if is_fail s then ([], s)
      else let got = take n (drop (is_pos s) (is_bytes s))
           in (got, s\<lparr>is_pos := is_pos s + length got, is_fail := length got < n\<rparr>))"

definition read_at :: "istream \<Rightarrow> int \<Rightarrow> nat \<Rightarrow> bytes \<times> istream" where
  "read_at s pos n = sread n (seekg pos s)"

definition fill_from :: "bytes \<Rightarrow> bytes \<Rightarrow> bytes" where
  "fill_from got buffer = got @ drop (length got) buffer"

definition create_section :: "elf_kind \<Rightarrow> u16 \<Rightarrow> elf_sec" where
  "create_section k i = \<lparr>sh_header = replicate (shdr_size k) 0, sh_index = i, sh_title = [], sh_data = None,
     data_size = 0, is_address_set = False, sh_stream_size = 0\<rparr>"

definition load_section :: "elf_kind \<Rightarrow> (nat \<Rightarrow> u8) \<Rightarrow> istream \<Rightarrow> int \<Rightarrow> elf_sec \<Rightarrow> elf_sec \<times> istream" where
  "load_section k uninit s header_offset sec =
     (let sec = sec\<lparr>sh_stream_size := stream_end s\<rparr>;
          (got, s) = read_at s header_offset (shdr_size k);
          sec = sec\<lparr>sh_header := fill_from got (replicate (shdr_size k) 0)\<rparr>;
          size = sec_size_of k sec
      in if sh_data sec = None \<and> sec_type_of k sec \<noteq> SHT_NULL \<and> sec_type_of k sec \<noteq> SHT_NOBITS
            \<and> size < sh_stream_size sec
         then if size \<noteq> 0
              then let (got, s) = read_at s (sint (sec_offset_of k sec)) (unat size)
                   in (sec\<lparr>sh_data := Some (fill_from got (map uninit [0..<unat size]) @ [0]), data_size := ucast size\<rparr>, s)
              else (sec\<lparr>sh_data := Some [uninit 0], data_size := 0\<rparr>, s)
         else (sec, s))"

fun load_section_list :: "elf_kind \<Rightarrow> (nat \<Rightarrow> nat \<Rightarrow> u8) \<Rightarrow> u64 \<Rightarrow> u16 \<Rightarrow> nat \<Rightarrow> nat \<Rightarrow> istream \<Rightarrow> elf_sec list \<times> istream" where
  "load_section_list k uninit off entry_size i 0 s = ([], s)"
| "load_section_list k uninit off entry_size i (Suc n) s =
     (let (sec, s) = load_section k (uninit i) s (sint off + int i * uint entry_size) (create_section k (word_of_nat i));
          (secs, s) = load_section_list k uninit off entry_size (Suc i) n s
      in (set_sec_address k (sec_address_of k sec) (sec\<lparr>sh_index := word_of_nat i\<rparr>) # secs, s))"

text \<open>\<open>get_string\<close>: the characters up to the next zero byte, \<open>None\<close> for the null pointer.\<close>

definition chars_to_zero :: "bytes \<Rightarrow> string" where
  "chars_to_zero b = map (\<lambda>c. char_of (unat c)) (takeWhile (\<lambda>c. c \<noteq> 0) b)"

definition get_string :: "elf_kind \<Rightarrow> elf_sec option \<Rightarrow> u32 \<Rightarrow> string option" where
  "get_string k sec i = (case sec of
      None \<Rightarrow> None
    | Some sec \<Rightarrow>
        if ucast i < sec_size_of k sec then map_option (\<lambda>d. chars_to_zero (drop (unat i) d)) (sh_data sec)
        else None)"

definition section_at :: "elf_sec list \<Rightarrow> nat \<Rightarrow> elf_sec option" where
  "section_at secs i = (if i < length secs then Some (secs ! i) else None)"

definition name_section :: "elf_kind \<Rightarrow> elf_sec option \<Rightarrow> elf_sec \<Rightarrow> elf_sec" where
  "name_section k strings sec = (case get_string k strings (get_word k (sh_header sec) sh_name) of
      None \<Rightarrow> sec | Some p \<Rightarrow> sec\<lparr>sh_title := p\<rparr>)"

definition load_sections :: "elf_kind \<Rightarrow> (nat \<Rightarrow> nat \<Rightarrow> u8) \<Rightarrow> bytes \<Rightarrow> istream \<Rightarrow> elf_sec list \<times> istream" where
  "load_sections k uninit header s =
     (let (secs, s) = load_section_list k uninit (get_wide k header e_shoff) (get_half k header e_shentsize) 0
            (unat (get_half k header e_shnum)) s;
          shstrndx = get_half k header e_shstrndx
      in (if shstrndx \<noteq> SHN_UNDEF then map (name_section k (section_at secs (unat shstrndx))) secs else secs, s))"

section \<open>Segments\<close>

definition is_sect_in_seg :: "u64 \<Rightarrow> u64 \<Rightarrow> u64 \<Rightarrow> u64 \<Rightarrow> bool" where
  "is_sect_in_seg sect_begin sect_size seg_begin seg_end \<longleftrightarrow>
     seg_begin \<le> sect_begin \<and> sect_begin + sect_size \<le> seg_end \<and> sect_begin < seg_end"

definition load_segment :: "elf_kind \<Rightarrow> (nat \<Rightarrow> u8) \<Rightarrow> istream \<Rightarrow> int \<Rightarrow> u16 \<Rightarrow> elf_seg \<times> istream" where
  "load_segment k uninit s header_offset i =
     (let size = stream_end s;
          (got, s) = read_at s header_offset (phdr_size k);
          seg = \<lparr>ph_header = fill_from got (replicate (phdr_size k) 0), ph_index = i, ph_data = None,
            ph_sections = [], ph_stream_size = size, is_offset_set = True\<rparr>
      in if seg_type_of k seg \<noteq> PT_NULL \<and> seg_file_size_of k seg \<noteq> 0 then
           if seg_file_size_of k seg > size
           then (seg, seekg (sint (seg_offset_of k seg)) s)
           else let (got, s) = read_at s (sint (seg_offset_of k seg)) (unat (seg_file_size_of k seg))
                in (seg\<lparr>ph_data := Some (fill_from got (map uninit [0..<unat (seg_file_size_of k seg)]) @ [0])\<rparr>, s)
         else (seg, s))"

definition in_segment :: "elf_kind \<Rightarrow> elf_seg \<Rightarrow> elf_sec \<Rightarrow> bool" where
  "in_segment k seg sec =
     (if sec_flags_of k sec AND SHF_ALLOC = SHF_ALLOC
      then is_sect_in_seg (sec_address_of k sec) (sec_size_of k sec) (seg_address_of k seg)
             (seg_address_of k seg + seg_memory_size_of k seg)
      else is_sect_in_seg (sec_offset_of k sec) (sec_size_of k sec) (seg_offset_of k seg)
             (seg_offset_of k seg + seg_file_size_of k seg))"

fun load_segment_list :: "elf_kind \<Rightarrow> (nat \<Rightarrow> nat \<Rightarrow> u8) \<Rightarrow> elf_sec list \<Rightarrow> u64 \<Rightarrow> u16 \<Rightarrow> nat \<Rightarrow> nat \<Rightarrow> istream
    \<Rightarrow> elf_seg list \<times> istream" where
  "load_segment_list k uninit secs off entry_size i 0 s = ([], s)"
| "load_segment_list k uninit secs off entry_size i (Suc n) s =
     (let (seg, s) = load_segment k (uninit i) s (sint off + int i * uint entry_size) (word_of_nat i);
          (segs, s) = load_segment_list k uninit secs off entry_size (Suc i) n s
      in (seg\<lparr>ph_sections := map sh_index (filter (in_segment k seg) secs)\<rparr> # segs, s))"

section \<open>Loading a file\<close>

definition no_file :: "elf_kind \<Rightarrow> elfio" where
  "no_file k = \<lparr>el_kind = k, el_header = [], el_sections = [], el_segments = []\<rparr>"

definition load :: "(nat \<Rightarrow> nat \<Rightarrow> u8) \<Rightarrow> (nat \<Rightarrow> nat \<Rightarrow> u8) \<Rightarrow> istream \<Rightarrow> bool \<times> elfio" where
  "load uninit_secs uninit_segs s =
     (let (e_ident, s) = read_at s 0 16;
          none = no_file (setup_kind 0 ELFDATA2LSB)
      in if length e_ident \<noteq> 16 \<or> take 4 e_ident \<noteq> [0x7F, 0x45, 0x4C, 0x46] then (False, none)
         else if e_ident ! 4 \<noteq> ELFCLASS64 \<and> e_ident ! 4 \<noteq> ELFCLASS32 then (False, none)
         else if e_ident ! 5 \<noteq> ELFDATA2LSB \<and> e_ident ! 5 \<noteq> ELFDATA2MSB then (False, none)
         else
           let k = setup_kind (e_ident ! 4) (e_ident ! 5);
               (header, s) = read_at s 0 (ehdr_size k)
           in if length header \<noteq> ehdr_size k then (False, no_file k)
              else
                let (secs, s) = load_sections k uninit_secs header s;
                    (segs, s) = load_segment_list k uninit_segs secs (get_wide k header e_phoff)
                      (get_half k header e_phentsize) 0 (unat (get_half k header e_phnum)) s
                in (True, \<lparr>el_kind = k, el_header = header, el_sections = secs, el_segments = segs\<rparr>))"

section \<open>Symbols\<close>

definition get_symbols_num :: "elf_kind \<Rightarrow> elf_sec \<Rightarrow> u64" where
  "get_symbols_num k sec =
     (let entry_size = get_wide k (sh_header sec) sh_entsize
      in if entry_size \<noteq> 0 \<and> sec_size_of k sec \<le> sh_stream_size sec then sec_size_of k sec div entry_size else 0)"

record elf_symbol =
  sym_name :: string
  sym_value :: u64
  sym_length :: u64
  sym_bind :: u8
  sym_type :: u8
  sym_section :: u16
  sym_other :: u8

text \<open>
  \<open>get_symbol\<close> with an index: \<open>None\<close> when it returns false. The name stays empty when the string
  table has none; a symbol that is not inside the array of the section is an error.
\<close>

datatype symbol_error = Symbol_outside

definition get_symbol :: "elfio \<Rightarrow> elf_sec \<Rightarrow> u64 \<Rightarrow> symbol_error + elf_symbol option" where
  "get_symbol r sec i =
     (let k = el_kind r
      in case sh_data sec of
           None \<Rightarrow> Inr None
         | Some d \<Rightarrow>
             if \<not> i < get_symbols_num k sec then Inr None
             else
               let pos = unat (i * get_wide k (sh_header sec) sh_entsize); p = piece d pos (sym_size k)
               in if length p < sym_size k then Inl Symbol_outside
                  else
                    let strings = section_at (el_sections r) (unat (ucast (get_word k (sh_header sec) sh_link) :: u16));
                        info = p ! field_pos k st_info
                    in Inr (Some \<lparr>sym_name = (case get_string k strings (get_word k p st_name) of None \<Rightarrow> [] | Some s \<Rightarrow> s),
                         sym_value = get_wide k p st_value, sym_length = get_wide k p st_size,
                         sym_bind = drop_bit 4 info, sym_type = info AND 0xF,
                         sym_section = get_half k p st_shndx, sym_other = p ! field_pos k st_other\<rparr>))"

section \<open>Fields\<close>

lemma length_put [simp]: "off + length b \<le> length h \<Longrightarrow> length (put h off b) = length h"
  by (simp add: put_def)

lemma piece_put_same: "off + length b \<le> length h \<Longrightarrow> n = length b \<Longrightarrow> piece (put h off b) off n = b"
  by (simp add: piece_def put_def)

lemma nth_put:
  "off + length b \<le> length h \<Longrightarrow> i < length h \<Longrightarrow>
    put h off b ! i = (if off \<le> i \<and> i < off + length b then b ! (i - off) else h ! i)"
  by (auto simp: put_def nth_append min_def)

lemma piece_put_other:
  assumes "off + length b \<le> length h" "o' + n \<le> off \<or> off + length b \<le> o'"
  shows "piece (put h off b) o' n = piece h o' n"
proof (rule nth_equalityI)
  show "length (piece (put h off b) o' n) = length (piece h o' n)" using assms(1) by (simp add: piece_def)
  fix i assume "i < length (piece (put h off b) o' n)"
  then have "i < n" "o' + i < length h" using assms(1) by (auto simp: piece_def)
  then show "piece (put h off b) o' n ! i = piece h o' n ! i" using assms by (auto simp: piece_def nth_put)
qed

lemma put_put: "off + length b \<le> length h \<Longrightarrow> length c = length b \<Longrightarrow> put (put h off b) off c = put h off c"
  by (simp add: put_def)

lemma put_piece: "off + n \<le> length h \<Longrightarrow> put h off (piece h off n) = h"
  by (auto simp: put_def piece_def min_def nth_append intro!: nth_equalityI)

lemma convert_bits:
  "list_all (\<lambda>n. bit (convert16 True x) n \<longleftrightarrow> bit x (8 * (2 - 1 - n div 8) + n mod 8)) [0..<8 * 2]"
  "list_all (\<lambda>n. bit (convert32 True y) n \<longleftrightarrow> bit y (8 * (4 - 1 - n div 8) + n mod 8)) [0..<8 * 4]"
  "list_all (\<lambda>n. bit (convert64 True z) n \<longleftrightarrow> bit z (8 * (8 - 1 - n div 8) + n mod 8)) [0..<8 * 8]"
  by (simp_all add: convert16_def convert32_def convert64_def bit_simps upt_from_01 [of 16] upt_from_01 [of 32]
      upt_from_01 [of 64] upt_rec_numeral numeral_2_eq_2 [symmetric])

text \<open>Converting reverses the bytes, so that converting twice is the identity.\<close>

lemma le_bytes_convert:
  "le_bytes 2 (convert16 need x) = (if need then rev (le_bytes 2 x) else le_bytes 2 x)"
  "le_bytes 4 (convert32 need y) = (if need then rev (le_bytes 4 y) else le_bytes 4 y)"
  "le_bytes 8 (convert64 need z) = (if need then rev (le_bytes 8 z) else le_bytes 8 z)"
  using le_bytes_reversed [OF _ convert_bits(1)] le_bytes_reversed [OF _ convert_bits(2)]
    le_bytes_reversed [OF _ convert_bits(3)]
  by (simp_all add: convert16_def convert32_def convert64_def)

lemma le_bytes_eqD: "LENGTH('a) = 8 * n \<Longrightarrow> le_bytes n x = le_bytes n y \<Longrightarrow> x = (y :: 'a::len word)"
  by (metis le_word_le_bytes)

lemma convert_convert [simp]:
  "convert16 need (convert16 need x) = x" "convert32 need (convert32 need y) = y"
  "convert64 need (convert64 need z) = z"
  by (rule le_bytes_eqD [of 2] le_bytes_eqD [of 4] le_bytes_eqD [of 8]; simp add: le_bytes_convert)+

definition wide_size :: "elf_kind \<Rightarrow> nat" where "wide_size k = (if is64 k then 8 else 4)"

lemma length_set [simp]:
  "field_pos k f + 2 \<le> length h \<Longrightarrow> length (set_half k f x h) = length h"
  "field_pos k f + 4 \<le> length h \<Longrightarrow> length (set_word k f y h) = length h"
  "field_pos k f + wide_size k \<le> length h \<Longrightarrow> length (set_wide k f z h) = length h"
  by (auto simp: set_half_def set_word_def set_wide_def wide_size_def split: if_splits)

lemma get_set_same [simp]:
  "field_pos k f + 2 \<le> length h \<Longrightarrow> get_half k (set_half k f x h) f = x"
  "field_pos k f + 4 \<le> length h \<Longrightarrow> get_word k (set_word k f y h) f = y"
  "field_pos k f + wide_size k \<le> length h \<Longrightarrow> get_wide k (set_wide k f z h) f = (if is64 k then z else ucast (ucast z :: u32))"
  by (auto simp: get_half_def get_word_def get_wide_def set_half_def set_word_def set_wide_def wide_size_def
      piece_put_same le_word_le_bytes split: if_splits)

text \<open>Setting a field leaves every piece outside it as it was.\<close>

lemma piece_set_other:
  "field_pos k f + 2 \<le> length h \<Longrightarrow> o' + n \<le> field_pos k f \<or> field_pos k f + 2 \<le> o' \<Longrightarrow>
    piece (set_half k f x h) o' n = piece h o' n"
  "field_pos k f + 4 \<le> length h \<Longrightarrow> o' + n \<le> field_pos k f \<or> field_pos k f + 4 \<le> o' \<Longrightarrow>
    piece (set_word k f y h) o' n = piece h o' n"
  "field_pos k f + wide_size k \<le> length h \<Longrightarrow> o' + n \<le> field_pos k f \<or> field_pos k f + wide_size k \<le> o' \<Longrightarrow>
    piece (set_wide k f z h) o' n = piece h o' n"
  by (simp_all add: set_half_def set_word_def set_wide_def wide_size_def piece_put_other split: if_splits)

lemma set_get: "field_pos k f + wide_size k \<le> length h \<Longrightarrow> is64 k \<Longrightarrow> set_wide k f (get_wide k h f) h = h"
proof -
  assume *: "field_pos k f + wide_size k \<le> length h" "is64 k"
  then have "length (piece h (field_pos k f) 8) = 8" by (simp add: piece_def wide_size_def)
  then have "le_bytes 8 (le_word (piece h (field_pos k f) 8) :: u64) = piece h (field_pos k f) 8"
    by (intro le_bytes_le_word) simp_all
  with * show ?thesis by (simp add: set_wide_def get_wide_def wide_size_def put_piece)
qed

lemma set_set: "field_pos k f + wide_size k \<le> length h \<Longrightarrow> set_wide k f x (set_wide k f y h) = set_wide k f x h"
  by (auto simp: set_wide_def set_word_def wide_size_def put_put split: if_splits)

lemma get_cong:
  "piece h (field_pos k f) 2 = piece h' (field_pos k f) 2 \<Longrightarrow> get_half k h f = get_half k h' f"
  "piece h (field_pos k f) 4 = piece h' (field_pos k f) 4 \<Longrightarrow> get_word k h f = get_word k h' f"
  "piece h (field_pos k f) (wide_size k) = piece h' (field_pos k f) (wide_size k) \<Longrightarrow> get_wide k h f = get_wide k h' f"
  by (simp_all add: get_half_def get_word_def get_wide_def wide_size_def split: if_splits)

text \<open>The fields of a section header and of a file header do not overlap.\<close>

lemmas elf_fields = shdr_fields ehdr_fields phdr_fields shdr_size_def ehdr_size_def phdr_size_def field_pos_def wide_size_def

lemma set_offset_piece:
  assumes "length h = shdr_size k" "if is64 k then o' + n \<le> 24 \<or> 32 \<le> o' else o' + n \<le> 16 \<or> 20 \<le> o'"
  shows "piece (set_wide k sh_offset a h) o' n = piece h o' n"
  using assms by (intro piece_set_other) (auto simp: elf_fields split: if_splits)

lemma set_offset_getters [simp]:
  assumes "length (sh_header s) = shdr_size k"
  shows "length (sh_header (set_sec_offset k a s)) = shdr_size k"
    "sec_type_of k (set_sec_offset k a s) = sec_type_of k s" "sec_flags_of k (set_sec_offset k a s) = sec_flags_of k s"
    "sec_address_of k (set_sec_offset k a s) = sec_address_of k s" "sec_size_of k (set_sec_offset k a s) = sec_size_of k s"
    "sec_align_of k (set_sec_offset k a s) = sec_align_of k s"
    "get_word k (sh_header (set_sec_offset k a s)) sh_name = get_word k (sh_header s) sh_name"
    "is64 k \<Longrightarrow> sec_offset_of k (set_sec_offset k a s) = a"
proof -
  show "length (sh_header (set_sec_offset k a s)) = shdr_size k"
    using assms by (simp add: set_sec_offset_def elf_fields)
  show "is64 k \<Longrightarrow> sec_offset_of k (set_sec_offset k a s) = a"
    using assms by (simp add: set_sec_offset_def sec_offset_of_def elf_fields)
qed (simp_all add: set_sec_offset_def sec_getters get_word_def get_wide_def set_offset_piece [OF assms] field_pos_def
      sh_type_def sh_flags_def sh_addr_def sh_size_def sh_addralign_def sh_name_def)

lemma set_offset_fields [simp]:
  "sh_index (set_sec_offset k a s) = sh_index s" "sh_title (set_sec_offset k a s) = sh_title s"
  "sh_data (set_sec_offset k a s) = sh_data s" "is_address_set (set_sec_offset k a s) = is_address_set s"
  by (simp_all add: set_sec_offset_def)

lemma set_offset_again [simp]:
  assumes "length (sh_header s) = shdr_size k"
  shows "set_sec_offset k a (set_sec_offset k b s) = set_sec_offset k a s"
    "is64 k \<Longrightarrow> set_sec_offset k (sec_offset_of k s) s = s"
  using assms by (simp_all add: set_sec_offset_def sec_getters set_set set_get elf_fields)

end
