(* ===== verification/Elf_Save.thy ===== *)
theory Elf_Save
  imports Elf_File
begin

text \<open>
  Writing an ELF file (\<^verbatim>\<open>save\<close> of \<^verbatim>\<open>include/elfio/elfio.hpp\<close>), as the binary instrumentation does with
  a code object it has edited: the layout of segments and sections, the section table behind them,
  and the writing of headers and data. A refused layout and an index outside the section table are
  errors; the stream itself does not fail.
\<close>

section \<open>Alignment of the segments\<close>

datatype save_error =
    Layout_failed      \<comment> \<open>\<^verbatim>\<open>save\<close> returns false before it writes\<close>
  | Section_missing    \<comment> \<open>an index outside the table of sections\<close>
  | Data_outside       \<comment> \<open>a size larger than the array\<close>

definition set_seg_align :: "elf_kind \<Rightarrow> u64 \<Rightarrow> elf_seg \<Rightarrow> elf_seg" where
  "set_seg_align k a s = s\<lparr>ph_header := set_wide k p_align a (ph_header s)\<rparr>"

definition set_seg_file_size :: "elf_kind \<Rightarrow> u64 \<Rightarrow> elf_seg \<Rightarrow> elf_seg" where
  "set_seg_file_size k a s = s\<lparr>ph_header := set_wide k p_filesz a (ph_header s)\<rparr>"

definition set_seg_memory_size :: "elf_kind \<Rightarrow> u64 \<Rightarrow> elf_seg \<Rightarrow> elf_seg" where
  "set_seg_memory_size k a s = s\<lparr>ph_header := set_wide k p_memsz a (ph_header s)\<rparr>"

definition set_seg_offset :: "elf_kind \<Rightarrow> u64 \<Rightarrow> elf_seg \<Rightarrow> elf_seg" where
  "set_seg_offset k a s = s\<lparr>ph_header := set_wide k p_offset a (ph_header s), is_offset_set := True\<rparr>"

fun align_segment :: "elf_kind \<Rightarrow> elf_sec list \<Rightarrow> u16 list \<Rightarrow> elf_seg \<Rightarrow> save_error + elf_seg" where
  "align_segment k secs [] seg = Inr seg"
| "align_segment k secs (i # is) seg =
     (if unat i \<ge> length secs then Inl Section_missing
      else let a = sec_align_of k (secs ! unat i)
           in align_segment k secs is (if a > seg_align_of k seg then set_seg_align k a seg else seg))"

fun calc_segment_alignment :: "elf_kind \<Rightarrow> elf_sec list \<Rightarrow> elf_seg list \<Rightarrow> save_error + elf_seg list" where
  "calc_segment_alignment k secs [] = Inr []"
| "calc_segment_alignment k secs (seg # segs) =
     rbind (align_segment k secs (ph_sections seg) seg) (\<lambda>seg.
     rbind (calc_segment_alignment k secs segs) (\<lambda>segs. Inr (seg # segs)))"

section \<open>The order of the segments\<close>

text \<open>\<^verbatim>\<open>std::includes\<close>.\<close>

fun std_includes :: "u16 list \<Rightarrow> u16 list \<Rightarrow> bool" where
  "std_includes xs [] = True"
| "std_includes [] (y # ys) = False"
| "std_includes (x # xs) (y # ys) =
     (if y < x then False else if x < y then std_includes xs (y # ys) else std_includes xs ys)"

definition is_subsequence_of :: "elf_seg \<Rightarrow> elf_seg \<Rightarrow> bool" where
  "is_subsequence_of seg1 seg2 \<longleftrightarrow>
     length (ph_sections seg1) < length (ph_sections seg2) \<and> std_includes (ph_sections seg2) (ph_sections seg1)"

text \<open>A segment is its index in the table. First the segments at offset 0 are brought to the front.\<close>

definition swap_at :: "nat \<Rightarrow> nat \<Rightarrow> 'a list \<Rightarrow> 'a list" where
  "swap_at i j xs = xs[i := xs ! j, j := xs ! i]"

definition front_step :: "elf_kind \<Rightarrow> elf_seg list \<Rightarrow> nat \<Rightarrow> nat list \<times> nat \<Rightarrow> nat list \<times> nat" where
  "front_step k segs i = (\<lambda>(wl, slot).
     if i \<noteq> slot \<and> is_offset_set (segs ! (wl ! i)) \<and> seg_offset_of k (segs ! (wl ! i)) = 0 then
       let slot = (if seg_offset_of k (segs ! (wl ! slot)) = 0 then slot + 1 else slot)
       in (swap_at i slot wl, slot + 1)
     else (wl, slot))"

definition front_segments :: "elf_kind \<Rightarrow> elf_seg list \<Rightarrow> nat list" where
  "front_segments k segs = fst (fold (front_step k segs) [0..<length segs] ([0..<length segs], 0))"

text \<open>
  The list of segments rotates until a largest segment is in front: the segments before the first
  one that no other exceeds get fewer.
\<close>

definition exceeded :: "elf_seg list \<Rightarrow> nat set \<Rightarrow> nat \<Rightarrow> bool" where
  "exceeded segs js i \<longleftrightarrow> (\<exists>j\<in>js. length (ph_sections (segs ! i)) < length (ph_sections (segs ! j)))"

lemma not_all_exceeded:
  assumes "finite js" "js \<noteq> {}"
  shows "\<exists>i\<in>js. \<not> exceeded segs js i"
proof -
  have "Max ((\<lambda>j. length (ph_sections (segs ! j))) ` js) \<in> (\<lambda>j. length (ph_sections (segs ! j))) ` js"
    using assms by (intro Max_in) auto
  then obtain i where "i \<in> js" "length (ph_sections (segs ! i)) = Max ((\<lambda>j. length (ph_sections (segs ! j))) ` js)"
    by auto
  with assms(1) show ?thesis by (auto simp: exceeded_def not_less intro!: bexI [of _ i])
qed

lemma rotation_decreases:
  assumes "exceeded segs (set (i # wl)) i"
  shows "length (takeWhile (exceeded segs (set (wl @ [i]))) (wl @ [i]))
    < length (takeWhile (exceeded segs (set (i # wl))) (i # wl))"
proof -
  have same: "set (wl @ [i]) = set (i # wl)" by auto
  from not_all_exceeded [of "set (i # wl)" segs] assms
  have "\<exists>j\<in>set wl. \<not> exceeded segs (set (i # wl)) j" by auto
  then have "takeWhile (exceeded segs (set (i # wl))) (wl @ [i]) = takeWhile (exceeded segs (set (i # wl))) wl"
    by (metis takeWhile_append1)
  then show ?thesis using assms unfolding same by simp
qed

text \<open>Then a segment that is part of one still in the list goes behind it.\<close>

function order_segments :: "elf_seg list \<Rightarrow> nat list \<Rightarrow> nat list" where
  "order_segments segs [] = []"
| "order_segments segs (i # wl) =
     (if \<exists>j\<in>set wl. is_subsequence_of (segs ! i) (segs ! j) then order_segments segs (wl @ [i])
      else i # order_segments segs wl)"
  by pat_completeness auto

termination
  by (relation "measures [\<lambda>(segs, wl). length wl, \<lambda>(segs, wl). length (takeWhile (exceeded segs (set wl)) wl)]")
    (use rotation_decreases in \<open>force simp: is_subsequence_of_def exceeded_def\<close>)+

declare order_segments.simps(2) [simp del]

definition get_ordered_segments :: "elf_kind \<Rightarrow> elf_seg list \<Rightarrow> nat list" where
  "get_ordered_segments k segs = order_segments segs (front_segments k segs)"

section \<open>The layout\<close>

record layout =
  ly_pos :: u64
  ly_secs :: "elf_sec list"
  ly_segs :: "elf_seg list"
  ly_generated :: "bool list"

text \<open>The gap before a section of a segment that starts at \<open>start\<close>.\<close>

definition section_gap :: "elf_kind \<Rightarrow> elf_seg \<Rightarrow> u64 \<Rightarrow> bool \<Rightarrow> elf_sec \<Rightarrow> u64 \<Rightarrow> u64 \<Rightarrow> save_error + u64" where
  "section_gap k seg start generated sec pos filesize =
     (if \<not> generated \<and> is_address_set sec \<and> sec_type_of k sec \<noteq> SHT_NOBITS \<and> sec_type_of k sec \<noteq> SHT_NULL
         \<and> sec_size_of k sec \<noteq> 0 then
        let req_offset = sec_address_of k sec - seg_address_of k seg; cur_offset = pos - start
        in if req_offset < cur_offset then Inl Layout_failed else Inr (req_offset - cur_offset)
      else if \<not> generated \<and> \<not> is_address_set sec then
        let align = (if sec_align_of k sec = 0 then 1 else sec_align_of k sec)
        in Inr ((align - pos mod align) mod align)
      else if generated then Inr (sec_offset_of k sec - start - filesize)
      else Inr 0)"

definition layout_section :: "elf_kind \<Rightarrow> elf_seg \<Rightarrow> u64 \<Rightarrow> u16 \<Rightarrow> layout \<times> u64 \<times> u64 \<Rightarrow> save_error + layout \<times> u64 \<times> u64" where
  "layout_section k seg start i = (\<lambda>(ly, memory, filesize).
     if unat i \<ge> length (ly_secs ly) then Inl Section_missing
     else
       let sec = ly_secs ly ! unat i; generated = ly_generated ly ! unat i; size = sec_size_of k sec;
           nobits = (sec_type_of k sec = SHT_NOBITS)
       in if sec_type_of k sec = SHT_NULL
          then Inr (ly\<lparr>ly_generated := (ly_generated ly)[unat i := True]\<rparr>, memory, filesize)
          else
            rbind (section_gap k seg start generated sec (ly_pos ly) filesize) (\<lambda>gap.
            let memory = (if sec_flags_of k sec AND SHF_ALLOC = SHF_ALLOC
                  \<and> \<not> (sec_flags_of k sec AND SHF_TLS = SHF_TLS \<and> seg_type_of k seg \<noteq> PT_TLS \<and> nobits)
                  then memory + size + gap else memory);
                filesize = (if nobits then filesize else filesize + size + gap)
            in if generated then Inr (ly, memory, filesize)
               else
                 let pos = ly_pos ly + gap;
                     sec = (if is_address_set sec then sec
                            else set_sec_address k (seg_address_of k seg + pos - start) sec);
                     sec = (if sh_index sec \<noteq> 0 then set_sec_offset k pos sec else sec)
                 in Inr (ly\<lparr>ly_pos := (if nobits then pos else pos + size), ly_secs := (ly_secs ly)[unat i := sec],
                      ly_generated := (ly_generated ly)[unat i := True]\<rparr>, memory, filesize)))"

fun layout_sections_of :: "elf_kind \<Rightarrow> elf_seg \<Rightarrow> u64 \<Rightarrow> u16 list \<Rightarrow> layout \<times> u64 \<times> u64 \<Rightarrow> save_error + layout \<times> u64 \<times> u64" where
  "layout_sections_of k seg start [] s = Inr s"
| "layout_sections_of k seg start (i # is) s =
     rbind (layout_section k seg start i s) (layout_sections_of k seg start is)"

text \<open>Where a segment starts, with the sizes it starts from, and the position afterwards.\<close>

definition segment_start :: "elf_kind \<Rightarrow> bytes \<Rightarrow> elf_seg \<Rightarrow> layout \<Rightarrow> save_error + u64 \<times> u64 \<times> u64" where
  "segment_start k header seg ly =
     (if seg_type_of k seg = PT_PHDR \<and> ph_sections seg = [] then
        Inr (get_wide k header e_phoff,
             ucast (get_half k header e_phentsize) * ucast (get_half k header e_phnum), ly_pos ly)
      else if is_offset_set seg \<and> seg_offset_of k seg = 0 then
        Inr (0, (if ph_sections seg \<noteq> [] then ly_pos ly else 0), ly_pos ly)
      else if ph_sections seg = [] then Inr (ly_pos ly, 0, ly_pos ly)
      else
        let i = unat (hd (ph_sections seg))
        in if i \<ge> length (ly_secs ly) then Inl Section_missing
           else if \<not> ly_generated ly ! i then
             let align = (if seg_align_of k seg > 0 then seg_align_of k seg else 1);
                 error = seg_address_of k seg mod align - ly_pos ly mod align;
                 pos = ly_pos ly + (seg_align_of k seg + error) mod align
             in Inr (pos, 0, pos)
           else Inr (sec_offset_of k (ly_secs ly ! i), 0, ly_pos ly))"

definition layout_segment :: "elf_kind \<Rightarrow> bytes \<Rightarrow> nat \<Rightarrow> layout \<Rightarrow> save_error + layout" where
  "layout_segment k header n ly =
     (let seg = ly_segs ly ! n
      in rbind (segment_start k header seg ly) (\<lambda>(start, size, pos).
         rbind (layout_sections_of k seg start (ph_sections seg) (ly\<lparr>ly_pos := pos\<rparr>, size, size)) (\<lambda>(ly, memory, filesize).
         let seg = set_seg_file_size k filesize seg;
             seg = (if seg_memory_size_of k seg < memory then set_seg_memory_size k memory seg else seg);
             seg = set_seg_offset k start seg
         in Inr (ly\<lparr>ly_segs := (ly_segs ly)[n := seg]\<rparr>))))"

fun layout_segments :: "elf_kind \<Rightarrow> bytes \<Rightarrow> nat list \<Rightarrow> layout \<Rightarrow> save_error + layout" where
  "layout_segments k header [] ly = Inr ly"
| "layout_segments k header (n # wl) ly = rbind (layout_segment k header n ly) (layout_segments k header wl)"

definition is_section_without_segment :: "elf_seg list \<Rightarrow> nat \<Rightarrow> bool" where
  "is_section_without_segment segs i \<longleftrightarrow> \<not> (\<exists>seg\<in>set segs. \<exists>j\<in>set (ph_sections seg). unat j = i)"

definition layout_section_alone :: "elf_kind \<Rightarrow> nat \<Rightarrow> layout \<Rightarrow> layout" where
  "layout_section_alone k i ly =
     (if is_section_without_segment (ly_segs ly) i then
        let sec = ly_secs ly ! i; align = sec_align_of k sec;
            pos = (if align > 1 \<and> ly_pos ly mod align \<noteq> 0 then ly_pos ly + (align - ly_pos ly mod align) else ly_pos ly);
            sec = (if sh_index sec \<noteq> 0 then set_sec_offset k pos sec else sec)
        in ly\<lparr>ly_pos := (if sec_type_of k sec \<noteq> SHT_NOBITS \<and> sec_type_of k sec \<noteq> SHT_NULL then pos + sec_size_of k sec else pos),
              ly_secs := (ly_secs ly)[i := sec]\<rparr>
      else ly)"

definition layout_sections_without_segments :: "elf_kind \<Rightarrow> layout \<Rightarrow> layout" where
  "layout_sections_without_segments k ly = fold (layout_section_alone k) [0..<length (ly_secs ly)] ly"

definition section_table_pos :: "u64 \<Rightarrow> u64" where
  "section_table_pos pos = pos + (4 - pos mod 4) mod 4"

section \<open>Writing\<close>

text \<open>\<^verbatim>\<open>adjust_stream_size\<close> and \<^verbatim>\<open>write\<close> at a position.\<close>

definition write_file :: "u64 \<Rightarrow> bytes \<Rightarrow> bytes \<Rightarrow> bytes" where
  "write_file off b file = put (file @ replicate (unat off - length file) 0) (unat off) b"

definition save_section :: "elf_kind \<Rightarrow> bytes \<Rightarrow> elf_sec \<Rightarrow> bytes \<Rightarrow> save_error + elf_sec \<times> bytes" where
  "save_section k header sec file =
     (let data_offset = sec_offset_of k sec;
          sec = (if sh_index sec \<noteq> 0 then set_sec_offset k data_offset sec else sec);
          file = write_file (get_wide k header e_shoff + ucast (get_half k header e_shentsize) * ucast (sh_index sec))
            (sh_header sec) file
      in if sec_type_of k sec \<noteq> SHT_NOBITS \<and> sec_type_of k sec \<noteq> SHT_NULL \<and> sec_size_of k sec \<noteq> 0
         then (case sh_data sec of
             None \<Rightarrow> Inr (sec, file)
           | Some d \<Rightarrow> if length d < unat (sec_size_of k sec) then Inl Data_outside
               else Inr (sec, write_file data_offset (take (unat (sec_size_of k sec)) d) file))
         else Inr (sec, file))"

fun save_sections :: "elf_kind \<Rightarrow> bytes \<Rightarrow> elf_sec list \<Rightarrow> bytes \<Rightarrow> save_error + elf_sec list \<times> bytes" where
  "save_sections k header [] file = Inr ([], file)"
| "save_sections k header (sec # secs) file =
     rbind (save_section k header sec file) (\<lambda>(sec, file).
     rbind (save_sections k header secs file) (\<lambda>(secs, file). Inr (sec # secs, file)))"

definition save_segment :: "elf_kind \<Rightarrow> bytes \<Rightarrow> elf_seg \<Rightarrow> bytes \<Rightarrow> bytes" where
  "save_segment k header seg file =
     write_file (get_wide k header e_phoff + ucast (get_half k header e_phentsize) * ucast (ph_index seg))
       (set_wide k p_offset (seg_offset_of k seg) (ph_header seg)) file"

definition save :: "elfio \<Rightarrow> save_error + elfio \<times> bytes" where
  "save r =
     (let k = el_kind r; segs = el_segments r; secs = el_sections r;
          header = set_half k e_phnum (word_of_nat (length segs)) (el_header r);
          header = set_wide k e_phoff (if segs \<noteq> [] then ucast (get_half k header e_ehsize) else 0) header;
          header = set_half k e_shnum (word_of_nat (length secs)) header;
          header = set_wide k e_shoff 0 header;
          pos = ucast (get_half k header e_ehsize) + ucast (get_half k header e_phentsize) * ucast (get_half k header e_phnum)
      in rbind (calc_segment_alignment k secs segs) (\<lambda>segs.
         rbind (layout_segments k header (get_ordered_segments k segs)
             \<lparr>ly_pos = pos, ly_secs = secs, ly_segs = segs, ly_generated = replicate (length secs) False\<rparr>) (\<lambda>ly.
         let ly = layout_sections_without_segments k ly;
             header = set_wide k e_shoff (section_table_pos (ly_pos ly)) header
         in rbind (save_sections k header (ly_secs ly) (write_file 0 header [])) (\<lambda>(secs, file).
            let file = fold (save_segment k header) (ly_segs ly) file
            in Inr (\<lparr>el_kind = k, el_header = header, el_sections = secs, el_segments = ly_segs ly\<rparr>, file)))))"

end
