(* ===== verification/Elf_Pieces.thy ===== *)
theory Elf_Pieces
  imports Elf_Save
begin

text \<open>
  The pieces of an ELF file: what \<open>load\<close> makes of a file that has given bytes at given places, and
  at which places \<open>save\<close> writes which bytes.
\<close>

section \<open>What a section holds\<close>

text \<open>The sections that have bytes in the file, and their bytes.\<close>

definition occupies :: "elf_kind \<Rightarrow> elf_sec \<Rightarrow> bool" where
  "occupies k s \<longleftrightarrow> sec_type_of k s \<noteq> SHT_NULL \<and> sec_type_of k s \<noteq> SHT_NOBITS \<and> sec_size_of k s \<noteq> 0"

definition sec_contents :: "elf_kind \<Rightarrow> elf_sec \<Rightarrow> bytes" where
  "sec_contents k s = (if occupies k s then (case sh_data s of None \<Rightarrow> [] | Some d \<Rightarrow> take (unat (sec_size_of k s)) d) else [])"

lemma unat_pos: "x \<noteq> 0 \<longleftrightarrow> 0 < unat (x :: 'a::len word)"
  by (metis neq0_conv unat_0 word_unat_eq_iff)

section \<open>Reading inside a file\<close>

lemma read_inside:
  assumes "\<not> is_fail s" "0 \<le> pos" "nat pos + n \<le> length (is_bytes s)"
  obtains s' where "read_at s pos n = (piece (is_bytes s) (nat pos) n, s')" "is_bytes s' = is_bytes s" "\<not> is_fail s'"
proof -
  have "\<not> int (length (is_bytes s)) < pos" using assms by linarith
  with assms that show ?thesis
    by (auto simp: read_at_def seekg_def sread_def piece_def Let_def)
qed

lemma length_piece: "o' + n \<le> length b \<Longrightarrow> length (piece b o' n) = n"
  by (simp add: piece_def)

text \<open>A section with the given header, and whether it and its data are inside the file.\<close>

definition header_sec :: "elf_kind \<Rightarrow> bytes \<Rightarrow> elf_sec" where
  "header_sec k h = (create_section k 0)\<lparr>sh_header := h\<rparr>"

definition section_in :: "elf_kind \<Rightarrow> bytes \<Rightarrow> nat \<Rightarrow> bytes \<Rightarrow> bool" where
  "section_in k file pos h \<longleftrightarrow> length h = shdr_size k \<and> piece file pos (shdr_size k) = h \<and> pos + shdr_size k \<le> length file
     \<and> (occupies k (header_sec k h) \<longrightarrow>
          unat (sec_offset_of k (header_sec k h)) < 2 ^ 63 \<and> unat (sec_size_of k (header_sec k h)) < length file
          \<and> unat (sec_offset_of k (header_sec k h)) + unat (sec_size_of k (header_sec k h)) \<le> length file)"

definition data_in :: "elf_kind \<Rightarrow> bytes \<Rightarrow> bytes \<Rightarrow> bytes" where
  "data_in k file h =
     (if occupies k (header_sec k h)
      then piece file (unat (sec_offset_of k (header_sec k h))) (unat (sec_size_of k (header_sec k h))) else [])"

lemma getters_cong:
  assumes "sh_header s = sh_header t"
  shows "sec_type_of k s = sec_type_of k t" "sec_size_of k s = sec_size_of k t" "sec_offset_of k s = sec_offset_of k t"
    "occupies k s = occupies k t" "sec_address_of k s = sec_address_of k t"
  using assms by (simp_all add: occupies_def sec_getters)

lemma sint_offset: "unat (x :: u64) < 2 ^ 63 \<Longrightarrow> sint x = int (unat x)"
proof -
  assume *: "unat x < 2 ^ 63"
  then have "int (unat x) < int (2 ^ 63)" by (simp only: of_nat_less_iff)
  then have "uint x < 2 ^ 63" by simp
  moreover have "- (2 ^ 63) \<le> uint x" by (rule order_trans [of _ 0]) simp_all
  ultimately have "signed_take_bit (LENGTH(64) - 1) (uint x) = uint x"
    by (intro signed_take_bit_int_eq_self) simp_all
  then show ?thesis unfolding sint_uint by simp
qed

lemma load_section_in:
  assumes "\<not> is_fail s" "0 \<le> pos" "section_in k (is_bytes s) (nat pos) h" "length (is_bytes s) < 2 ^ 64"
    and "sh_data sec = None"
  obtains sec' s' where "load_section k u s pos sec = (sec', s')" "is_bytes s' = is_bytes s" "\<not> is_fail s'"
    "sh_header sec' = h" "sh_title sec' = sh_title sec" "occupies k sec' \<Longrightarrow> sh_data sec' = Some (data_in k (is_bytes s) h @ [0])"
    "\<not> occupies k sec' \<Longrightarrow> sec_size_of k sec' \<noteq> 0 \<Longrightarrow> sh_data sec' = None"
proof -
  let ?sz = "shdr_size k" and ?s1 = "sec\<lparr>sh_stream_size := stream_end s, sh_header := h\<rparr>" and ?c = "header_sec k h"
  have eqs: "sec_type_of k t = sec_type_of k ?c" "sec_size_of k t = sec_size_of k ?c" "sec_offset_of k t = sec_offset_of k ?c"
    "occupies k t = occupies k ?c" if "sh_header t = h" for t
    using that by (intro getters_cong; simp add: header_sec_def)+
  from assms(3) have h: "piece (is_bytes s) (nat pos) ?sz = h" "nat pos + ?sz \<le> length (is_bytes s)" "length h = ?sz"
    by (simp_all add: section_in_def)
  obtain s1 where s1: "read_at s pos ?sz = (h, s1)" "is_bytes s1 = is_bytes s" "\<not> is_fail s1"
    by (rule read_inside [OF assms(1,2) h(2)]) (use h(1) in auto)
  have fill: "fill_from h (replicate ?sz 0) = h" using h(3) by (simp add: fill_from_def)
  note ls = load_section_def s1 fill Let_def
  show ?thesis
  proof (cases "occupies k ?c")
    case True
    with assms(3) have r: "unat (sec_offset_of k ?c) < 2 ^ 63" "unat (sec_size_of k ?c) < length (is_bytes s)"
      "unat (sec_offset_of k ?c) + unat (sec_size_of k ?c) \<le> length (is_bytes s)"
      by (simp_all add: section_in_def)
    have less: "sec_size_of k ?c < stream_end s"
      using r(2) assms(1,4) by (simp add: stream_end_def word_less_nat_alt unat_of_nat_u64)
    let ?d = "piece (is_bytes s) (unat (sec_offset_of k ?c)) (unat (sec_size_of k ?c))"
    obtain s2 where s2: "read_at s1 (int (unat (sec_offset_of k ?c))) (unat (sec_size_of k ?c)) = (?d, s2)"
        "is_bytes s2 = is_bytes s" "\<not> is_fail s2"
      by (rule read_inside [of s1 "int (unat (sec_offset_of k ?c))" "unat (sec_size_of k ?c)"])
        (use s1 r(3) in auto)
    have d: "fill_from ?d (map u [0..<unat (sec_size_of k ?c)]) = ?d" "data_in k (is_bytes s) h = ?d"
      using r(3) True by (simp_all add: fill_from_def length_piece data_in_def)
    let ?r = "?s1\<lparr>sh_data := Some (?d @ [0]), data_size := ucast (sec_size_of k ?c)\<rparr>"
    have "load_section k u s pos sec = (?r, s2)"
      using True assms(5) s2(1) d(1) less r(1) by (simp add: ls eqs occupies_def sint_offset)
    then show ?thesis using s2(2,3) d(2) True eqs(4) [of ?r] by (intro that [of ?r s2]) auto
  next
    case False
    then have "\<exists>t. load_section k u s pos sec = (t, s1) \<and> sh_header t = h \<and> sh_title t = sh_title sec
        \<and> (sec_size_of k t \<noteq> 0 \<longrightarrow> sh_data t = None)"
      using assms(5) by (auto simp: ls eqs occupies_def)
    then show ?thesis using s1(2,3) False eqs that by blast
  qed
qed


text \<open>A section as \<open>load\<close> leaves it, before it is named.\<close>

definition loaded_section :: "elf_kind \<Rightarrow> bytes \<Rightarrow> bytes \<Rightarrow> elf_sec \<Rightarrow> bool" where
  "loaded_section k file h t \<longleftrightarrow> sh_header t = h \<and> sh_title t = []
     \<and> (occupies k t \<longrightarrow> sh_data t = Some (data_in k file h @ [0]))
     \<and> (\<not> occupies k t \<longrightarrow> sec_size_of k t \<noteq> 0 \<longrightarrow> sh_data t = None)"

lemma set_address_same: "is64 k \<Longrightarrow> length (sh_header t) = shdr_size k \<Longrightarrow>
  sh_header (set_sec_address k (sec_address_of k t) (t\<lparr>sh_index := i\<rparr>)) = sh_header t"
  by (simp add: set_sec_address_def sec_address_of_def set_get elf_fields)

lemma load_section_list_in:
  assumes "is64 k" "\<not> is_fail s" "is_bytes s = file" "length file < 2 ^ 64" "sint off = int start" "uint ent = int e"
    and "\<forall>j<n. section_in k file (start + (i + j) * e) (hs (i + j))"
  shows "\<exists>secs s'. load_section_list k u off ent i n s = (secs, s') \<and> is_bytes s' = file \<and> \<not> is_fail s'
    \<and> length secs = n \<and> (\<forall>j<n. loaded_section k file (hs (i + j)) (secs ! j))"
  using assms(2,3,7)
proof (induction n arbitrary: i s)
  case (Suc n)
  let ?pos = "sint off + int i * uint ent"
  have pos: "?pos = int (start + i * e)" using assms(5,6) by simp
  then have "nat ?pos = start + i * e" by (metis nat_int)
  moreover have "section_in k file (start + i * e) (hs i)" using Suc.prems(3) by fastforce
  ultimately have here: "section_in k (is_bytes s) (nat ?pos) (hs i)" using Suc.prems(2) by simp
  have "0 \<le> ?pos" "length (is_bytes s) < 2 ^ 64" "sh_data (create_section k (word_of_nat i)) = None"
    using pos assms(4) Suc.prems(2) by (simp_all add: create_section_def)
  from load_section_in [OF Suc.prems(1) this(1) here this(2,3), of "u i"] obtain t s1 where
    t: "load_section k (u i) s ?pos (create_section k (word_of_nat i)) = (t, s1)" "is_bytes s1 = file" "\<not> is_fail s1"
      "sh_header t = hs i" "sh_title t = []" "occupies k t \<Longrightarrow> sh_data t = Some (data_in k file (hs i) @ [0])"
      "\<not> occupies k t \<Longrightarrow> sec_size_of k t \<noteq> 0 \<Longrightarrow> sh_data t = None"
    using Suc.prems(2) by (auto simp: create_section_def)
  let ?t = "set_sec_address k (sec_address_of k t) (t\<lparr>sh_index := word_of_nat i\<rparr>)"
  have head: "sh_header ?t = hs i"
    using set_address_same [OF assms(1), of t] t(4) here by (simp add: section_in_def)
  then have "loaded_section k file (hs i) ?t"
    using t(5-7) getters_cong [of ?t t k] t(4) by (auto simp: loaded_section_def set_sec_address_def)
  moreover have "\<forall>j<n. section_in k file (start + (Suc i + j) * e) (hs (Suc i + j))"
    using Suc.prems(3) by (metis Suc_less_eq add_Suc_shift)
  from Suc.IH [OF t(3,2) this] obtain secs s' where
    "load_section_list k u off ent (Suc i) n s1 = (secs, s')" "is_bytes s' = file" "\<not> is_fail s'" "length secs = n"
    "\<forall>j<n. loaded_section k file (hs (Suc i + j)) (secs ! j)" by blast
  ultimately show ?case using t(1) by (auto simp: nth_Cons split: nat.splits)
qed simp

text \<open>The name of a section in the sec_contents of the string table.\<close>

definition section_name :: "elf_kind \<Rightarrow> elf_sec option \<Rightarrow> elf_sec \<Rightarrow> string" where
  "section_name k strings s = (case strings of
      None \<Rightarrow> []
    | Some t \<Rightarrow>
        if unat (get_word k (sh_header s) sh_name) < length (sec_contents k t)
        then chars_to_zero (drop (unat (get_word k (sh_header s) sh_name)) (sec_contents k t)) else [])"

lemma unat_ucast_u64 [simp]: "unat (ucast (x :: u32) :: u64) = unat x"
  using unat_u32_less [of x] by (simp add: unsigned_ucast_eq take_bit_nat_eq_self)

lemma chars_to_zero_end: "i \<le> length b \<Longrightarrow> chars_to_zero (drop i (b @ [0])) = chars_to_zero (drop i b)"
  by (simp add: chars_to_zero_def takeWhile_tail)

lemma sec_contents_loaded:
  assumes "loaded_section k file h t" "section_in k file pos h"
  shows "sec_contents k t = data_in k file h"
proof (cases "occupies k t")
  case True
  have "occupies k t = occupies k (header_sec k h)" "sec_size_of k t = sec_size_of k (header_sec k h)"
    using assms(1) by (auto simp: loaded_section_def header_sec_def intro!: getters_cong)
  then have "length (data_in k file h) = unat (sec_size_of k t)"
    using True assms(2) by (simp add: data_in_def section_in_def length_piece)
  then show ?thesis using True assms(1) by (simp add: sec_contents_def loaded_section_def)
next
  case False
  moreover have "occupies k t = occupies k (header_sec k h)"
    using assms(1) by (auto simp: loaded_section_def header_sec_def intro!: getters_cong)
  ultimately show ?thesis by (simp add: sec_contents_def data_in_def)
qed

lemma name_loaded:
  assumes "loaded_section k file h t" "section_in k file pos h" "sh_title s = []"
  shows "name_section k (Some t) s = s\<lparr>sh_title := section_name k (Some t) s\<rparr>"
proof -
  let ?i = "get_word k (sh_header s) sh_name"
  have eq: "occupies k t = occupies k (header_sec k h)" "sec_size_of k t = sec_size_of k (header_sec k h)"
    using assms(1) by (auto simp: loaded_section_def header_sec_def intro!: getters_cong)
  show ?thesis
  proof (cases "occupies k t")
    case True
    then have d: "sh_data t = Some (sec_contents k t @ [0])" "length (sec_contents k t) = unat (sec_size_of k t)"
      using assms eq by (simp_all add: sec_contents_loaded [OF assms(1,2)] loaded_section_def data_in_def section_in_def length_piece)
    show ?thesis
    proof (cases "unat ?i < length (sec_contents k t)")
      case True
      with d show ?thesis
        using chars_to_zero_end [of "unat ?i" "sec_contents k t"]
        by (simp add: name_section_def get_string_def section_name_def word_less_nat_alt)
    next
      case False
      with d assms(3) show ?thesis
        by (simp add: name_section_def get_string_def section_name_def word_less_nat_alt)
    qed
  next
    case False
    then show ?thesis using assms(1,3)
      by (auto simp: name_section_def get_string_def section_name_def sec_contents_def loaded_section_def word_less_nat_alt unat_pos)
  qed
qed


text \<open>The names that the string table of the file gives the sections.\<close>

definition file_names :: "elf_kind \<Rightarrow> bytes \<Rightarrow> elf_sec list \<Rightarrow> elf_sec \<Rightarrow> string" where
  "file_names k header secs s =
     (let i = get_half k header e_shstrndx
      in if i \<noteq> SHN_UNDEF then section_name k (section_at secs (unat i)) s else [])"

lemma section_name_cong:
  "sh_header s = sh_header t \<Longrightarrow> map_option (sec_contents k) x = map_option (sec_contents k) y \<Longrightarrow>
    section_name k x s = section_name k y t"
  by (auto simp: section_name_def split: option.splits)

lemma sec_contents_title [simp]: "sec_contents k (s\<lparr>sh_title := n\<rparr>) = sec_contents k s"
proof -
  have "sec_size_of k (s\<lparr>sh_title := n\<rparr>) = sec_size_of k s" "occupies k (s\<lparr>sh_title := n\<rparr>) = occupies k s"
    by (rule getters_cong; simp)+
  then show ?thesis by (simp add: sec_contents_def split: option.split)
qed

lemma load_sections_in:
  assumes "is64 k" "\<not> is_fail s" "is_bytes s = file" "length file < 2 ^ 64"
    and "unat (get_wide k header e_shoff) = start" "start < 2 ^ 63" "unat (get_half k header e_shentsize) = e"
    and "unat (get_half k header e_shnum) = n" "\<forall>j<n. section_in k file (start + j * e) (hs j)"
  shows "\<exists>secs s'. load_sections k u header s = (secs, s') \<and> length secs = n
    \<and> (\<forall>j<n. sh_header (secs ! j) = hs j \<and> sec_contents k (secs ! j) = data_in k file (hs j)
         \<and> sh_title (secs ! j) = file_names k header secs (secs ! j))"
proof -
  let ?i = "get_half k header e_shstrndx"
  have "sint (get_wide k header e_shoff) = int start" using assms(5,6) by (simp add: sint_offset)
  moreover have "uint (get_half k header e_shentsize) = int e" using assms(7) by (metis of_nat_unat)
  ultimately obtain secs s' where l: "load_section_list k u (get_wide k header e_shoff) (get_half k header e_shentsize) 0 n s = (secs, s')"
      "length secs = n" "\<forall>j<n. loaded_section k file (hs j) (secs ! j)"
    using load_section_list_in [OF assms(1-4), of "get_wide k header e_shoff" start "get_half k header e_shentsize" e n 0 hs u]
      assms(9) by auto
  have props: "sh_header (secs ! j) = hs j" "sh_title (secs ! j) = []" "sec_contents k (secs ! j) = data_in k file (hs j)"
    if "j < n" for j using l(3) assms(9) that sec_contents_loaded [of k "file" "hs j" "secs ! j"] by (auto simp: loaded_section_def)
  define out where "out = (if ?i \<noteq> SHN_UNDEF then map (name_section k (section_at secs (unat ?i))) secs else secs)"
  have run: "load_sections k u header s = (out, s')" using l(1) assms(8) by (simp add: load_sections_def out_def)
  have out: "out ! j = (secs ! j)\<lparr>sh_title := file_names k header secs (secs ! j)\<rparr>" if "j < n" for j
  proof (cases "?i \<noteq> SHN_UNDEF \<and> unat ?i < n")
    case True
    then have "loaded_section k file (hs (unat ?i)) (secs ! unat ?i)" "section_in k file (start + unat ?i * e) (hs (unat ?i))"
      using l(3) assms(9) by simp_all
    from name_loaded [OF this props(2) [OF that]] True that l(2) show ?thesis
      by (simp add: out_def file_names_def section_at_def)
  next
    case False
    then show ?thesis using that l(2) props(2) [OF that]
      by (auto simp: out_def file_names_def section_at_def name_section_def get_string_def section_name_def)
  qed
  have len: "length out = n" using l(2) by (simp add: out_def)
  have same: "map_option (sec_contents k) (section_at out i) = map_option (sec_contents k) (section_at secs i)" for i
    using len l(2) out by (simp add: section_at_def)
  have "file_names k header out (out ! j) = file_names k header secs (secs ! j)" if "j < n" for j
    unfolding file_names_def Let_def
    using section_name_cong [OF _ same [of "unat ?i"], of "out ! j" "secs ! j"] out [OF that] by simp
  with run len out props show ?thesis by auto
qed

lemma load_in:
  assumes "is64 k" "length file < 2 ^ 64" "piece file 0 64 = header" "64 \<le> length file"
    and "take 4 header = [0x7F, 0x45, 0x4C, 0x46]" "header ! 4 = ELFCLASS64" "header ! 5 = ELFDATA2LSB \<or> header ! 5 = ELFDATA2MSB"
    and "k = setup_kind (header ! 4) (header ! 5)"
    and "unat (get_wide k header e_shoff) = start" "start < 2 ^ 63" "unat (get_half k header e_shentsize) = e"
    and "unat (get_half k header e_shnum) = n" "\<forall>j<n. section_in k file (start + j * e) (hs j)"
  shows "\<exists>r. load u v (open_stream m file) = (True, r) \<and> el_kind r = k \<and> el_header r = header \<and> length (el_sections r) = n
    \<and> (\<forall>j<n. sh_header (el_sections r ! j) = hs j \<and> sec_contents k (el_sections r ! j) = data_in k file (hs j)
         \<and> sh_title (el_sections r ! j) = file_names k header (el_sections r) (el_sections r ! j))"
proof -
  let ?s = "open_stream m file"
  have s: "is_bytes ?s = file" "\<not> is_fail ?s" by (simp_all add: open_stream_def)
  obtain s1 where s1: "read_at ?s 0 16 = (piece file 0 16, s1)" "is_bytes s1 = file" "\<not> is_fail s1"
    by (rule read_inside [OF s(2), of 0 16]) (use s assms(4) in auto)
  obtain s2 where s2: "read_at s1 0 64 = (header, s2)" "is_bytes s2 = file" "\<not> is_fail s2"
    by (rule read_inside [OF s1(3), of 0 64]) (use s1 assms(3,4) in auto)
  have len: "length header = 64" "ehdr_size k = 64" using assms(1,3,4) by (auto simp: piece_def ehdr_size_def)
  have ident: "piece file 0 16 = take 16 header" using assms(3) by (auto simp: piece_def)
  then have id: "length (piece file 0 16) = 16" "take 4 (piece file 0 16) = [0x7F, 0x45, 0x4C, 0x46]"
    "piece file 0 16 ! 4 = header ! 4" "piece file 0 16 ! 5 = header ! 5"
    using assms(5) len(1) by simp_all
  obtain secs s3 where secs: "load_sections k u header s2 = (secs, s3)" "length secs = n"
    "\<forall>j<n. sh_header (secs ! j) = hs j \<and> sec_contents k (secs ! j) = data_in k file (hs j)
         \<and> sh_title (secs ! j) = file_names k header secs (secs ! j)"
    using load_sections_in [OF assms(1) s2(3,2) assms(2,9-13)] by blast
  obtain segs s4 where segs: "load_segment_list k v secs (get_wide k header e_phoff)
      (get_half k header e_phentsize) 0 (unat (get_half k header e_phnum)) s3 = (segs, s4)" by fastforce
  have "load u v ?s = (True, \<lparr>el_kind = k, el_header = header, el_sections = secs, el_segments = segs\<rparr>)"
    unfolding load_def Let_def s1(1) prod.case id assms(8) [symmetric] len(2) s2(1) secs(1) segs
    using assms(6,7) len(1) by auto
  with secs(2,3) show ?thesis by simp
qed


section \<open>Writing pieces\<close>

text \<open>A list of pieces, written in order, each at its place.\<close>

definition fill :: "(nat \<times> bytes) list \<Rightarrow> bytes \<Rightarrow> bytes" where
  "fill ws file = fold (\<lambda>(pos, b) file. put (file @ replicate (pos - length file) 0) pos b) ws file"

lemma fill_simps [simp]:
  "fill [] f = f" "fill ((pos, b) # ws) f = fill ws (put (f @ replicate (pos - length f) 0) pos b)"
  "fill (xs @ ys) f = fill ys (fill xs f)"
  by (simp_all add: fill_def)

lemma write_file_fill: "write_file off b f = fill [(unat off, b)] f"
  by (simp add: write_file_def)

definition clear_of :: "nat \<times> bytes \<Rightarrow> nat \<times> bytes \<Rightarrow> bool" where
  "clear_of x y \<longleftrightarrow> fst x + length (snd x) \<le> fst y \<or> fst y + length (snd y) \<le> fst x"

lemma length_fill_1: "length (put (f @ replicate (pos - length f) 0) pos b) = max (length f) (pos + length b)"
  by (auto simp: put_def max_def)

lemma piece_fill_1: "piece (put (f @ replicate (pos - length f) 0) pos b) pos (length b) = b"
  by (simp add: piece_def put_def)

lemma piece_fill_other:
  assumes "o' + n \<le> length f" "o' + n \<le> pos \<or> pos + length b \<le> o'"
  shows "piece (put (f @ replicate (pos - length f) 0) pos b) o' n = piece f o' n"
proof (rule nth_equalityI)
  show len: "length (piece (put (f @ replicate (pos - length f) 0) pos b) o' n) = length (piece f o' n)"
    using assms(1) length_fill_1 [of f pos b] by (simp add: piece_def)
  fix i assume "i < length (piece (put (f @ replicate (pos - length f) 0) pos b) o' n)"
  then have i: "i < n" using len assms(1) by (simp add: length_piece)
  let ?F = "f @ replicate (pos - length f) 0"
  have j: "o' + i < length f" "o' + i < pos \<or> pos + length b \<le> o' + i" "pos \<le> length ?F" using assms i by auto
  have "put ?F pos b ! (o' + i) = ?F ! (o' + i)"
  proof (cases "o' + i < pos")
    case True
    then have "put ?F pos b ! (o' + i) = take pos ?F ! (o' + i)"
      unfolding put_def using j(3) by (subst nth_append_left) (simp_all del: take_append)
    then show ?thesis using True by (simp del: take_append)
  next
    case False
    then have ge: "pos + length b \<le> o' + i" using j(2) by simp
    have "put ?F pos b ! (o' + i) = drop (pos + length b) ?F ! (o' + i - (pos + length b))"
      unfolding put_def using ge j(3) by (subst append_assoc [symmetric], subst nth_append_right) (simp_all del: take_append drop_append)
    also have "\<dots> = ?F ! (o' + i)" using ge j(1) by (subst nth_drop) simp_all
    finally show ?thesis .
  qed
  also have "\<dots> = f ! (o' + i)" using j(1) by (simp add: nth_append_left)
  finally show "piece (put ?F pos b) o' n ! i = piece f o' n ! i"
    using i j(1) length_fill_1 [of f pos b] by (simp add: piece_def)
qed

lemma fill_keeps:
  assumes "o' + n \<le> length f" "\<forall>(pos, b)\<in>set ws. o' + n \<le> pos \<or> pos + length b \<le> o'"
  shows "o' + n \<le> length (fill ws f) \<and> piece (fill ws f) o' n = piece f o' n"
  using assms
proof (induction ws arbitrary: f)
  case (Cons w ws)
  obtain pos b where w: "w = (pos, b)" by (cases w)
  let ?f = "put (f @ replicate (pos - length f) 0) pos b"
  have "o' + n \<le> length ?f" using Cons.prems(1) length_fill_1 [of f pos b] by simp
  with Cons.IH [of ?f] Cons.prems(2) have "o' + n \<le> length (fill ws ?f) \<and> piece (fill ws ?f) o' n = piece ?f o' n" by simp
  moreover have "piece ?f o' n = piece f o' n" using Cons.prems by (intro piece_fill_other) (auto simp: w)
  ultimately show ?case by (simp add: w)
qed simp

lemma fill_pieces:
  assumes "sorted_wrt clear_of ws" "(pos, b) \<in> set ws"
  shows "pos + length b \<le> length (fill ws f) \<and> piece (fill ws f) pos (length b) = b"
  using assms
proof (induction ws arbitrary: f)
  case (Cons w ws)
  obtain q c where w: "w = (q, c)" by (cases w)
  let ?f = "put (f @ replicate (q - length f) 0) q c"
  show ?case
  proof (cases "(pos, b) \<in> set ws")
    case True
    with Cons.IH [of ?f] Cons.prems(1) show ?thesis by (simp add: w)
  next
    case False
    with Cons.prems(2) w have eq: "q = pos" "c = b" by auto
    have "pos + length b \<le> length ?f" using length_fill_1 [of f q c] eq by simp
    moreover have "\<forall>(p, d)\<in>set ws. pos + length b \<le> p \<or> p + length d \<le> pos"
      using Cons.prems(1) w eq by (auto simp: clear_of_def)
    ultimately show ?thesis using fill_keeps [of pos "length b" ?f ws] piece_fill_1 [of f pos b] eq w by simp
  qed
qed simp

lemma length_fill:
  assumes "\<forall>(pos, b)\<in>set ws. pos + length b \<le> n" "length f \<le> n"
  shows "length (fill ws f) \<le> n"
  using assms
proof (induction ws arbitrary: f)
  case (Cons w ws)
  then show ?case using length_fill_1 [of f "fst w" "snd w"] by (cases w) simp
qed simp

lemma sorted_wrt_concat:
  "(\<And>x. x \<in> set xs \<Longrightarrow> sorted_wrt P (f x)) \<Longrightarrow> sorted_wrt (\<lambda>x y. \<forall>a\<in>set (f x). \<forall>b\<in>set (f y). P a b) xs \<Longrightarrow>
    sorted_wrt P (concat (map f xs))"
  by (induction xs) (auto simp: sorted_wrt_append)

section \<open>Writing the sections and segments\<close>

definition section_pos :: "elf_kind \<Rightarrow> bytes \<Rightarrow> elf_sec \<Rightarrow> u64" where
  "section_pos k header s = get_wide k header e_shoff + ucast (get_half k header e_shentsize) * ucast (sh_index s)"

definition section_writes :: "elf_kind \<Rightarrow> bytes \<Rightarrow> elf_sec \<Rightarrow> (nat \<times> bytes) list" where
  "section_writes k header s =
     (unat (section_pos k header s), sh_header s)
       # (if occupies k s then [(unat (sec_offset_of k s), sec_contents k s)] else [])"

definition segment_writes :: "elf_kind \<Rightarrow> bytes \<Rightarrow> elf_seg \<Rightarrow> (nat \<times> bytes) list" where
  "segment_writes k header g =
     [(unat (get_wide k header e_phoff + ucast (get_half k header e_phentsize) * ucast (ph_index g)),
       set_wide k p_offset (seg_offset_of k g) (ph_header g))]"

text \<open>A section that holds as many bytes as its header says.\<close>

definition has_data :: "elf_kind \<Rightarrow> elf_sec \<Rightarrow> bool" where
  "has_data k s \<longleftrightarrow> (occupies k s \<longrightarrow> (\<exists>d. sh_data s = Some d \<and> unat (sec_size_of k s) \<le> length d))"

lemma length_sec_contents: "has_data k s \<Longrightarrow> occupies k s \<Longrightarrow> length (sec_contents k s) = unat (sec_size_of k s)"
  by (auto simp: has_data_def sec_contents_def)

lemma save_section_writes:
  assumes "is64 k" "length (sh_header s) = shdr_size k" "has_data k s"
  shows "save_section k header s file = Inr (s, fill (section_writes k header s) file)"
proof -
  have same: "(if sh_index s \<noteq> 0 then set_sec_offset k (sec_offset_of k s) s else s) = s"
    using assms(1,2) by simp
  show ?thesis
  proof (cases "occupies k s")
    case True
    with assms(3) obtain d where d: "sh_data s = Some d" "unat (sec_size_of k s) \<le> length d" by (auto simp: has_data_def)
    with True have "sec_contents k s = take (unat (sec_size_of k s)) d" by (simp add: sec_contents_def)
    with True d show ?thesis
      unfolding save_section_def Let_def same
      by (simp add: occupies_def section_writes_def section_pos_def write_file_fill)
  next
    case False
    then show ?thesis
      unfolding save_section_def Let_def same
      by (auto simp: occupies_def section_writes_def section_pos_def write_file_fill)
  qed
qed

lemma save_sections_writes:
  assumes "is64 k" "\<forall>s\<in>set secs. length (sh_header s) = shdr_size k \<and> has_data k s"
  shows "save_sections k header secs file = Inr (secs, fill (concat (map (section_writes k header) secs)) file)"
  using assms(2) by (induction secs arbitrary: "file") (simp_all add: save_section_writes [OF assms(1)])

lemma save_segments_writes:
  "fold (save_segment k header) segs file = fill (concat (map (segment_writes k header) segs)) file"
  by (induction segs arbitrary: "file") (simp_all add: save_segment_def segment_writes_def write_file_fill)

end
