(* ===== verification/Elf_Layout.thy ===== *)
theory Elf_Layout
  imports Elf_Pieces
begin

text \<open>
  The layout of an ELF file gives the sections that have bytes in the file places that do not
  overlap, and changes no more of a section than its offset.
\<close>

section \<open>Sections up to their place\<close>

text \<open>The layout changes no more than the offset of a section.\<close>

definition same_section :: "elf_kind \<Rightarrow> elf_sec \<Rightarrow> elf_sec \<Rightarrow> bool" where
  "same_section k s t \<longleftrightarrow> length (sh_header s) = shdr_size k \<and> length (sh_header t) = shdr_size k
     \<and> set_sec_offset k 0 s = set_sec_offset k 0 t"

lemma same_section_getters:
  assumes "same_section k s t"
  shows "sec_type_of k t = sec_type_of k s" "sec_flags_of k t = sec_flags_of k s" "sec_address_of k t = sec_address_of k s"
    "sec_size_of k t = sec_size_of k s" "sec_align_of k t = sec_align_of k s" "sh_index t = sh_index s"
    "sh_title t = sh_title s" "sh_data t = sh_data s" "is_address_set t = is_address_set s"
    "get_word k (sh_header t) sh_name = get_word k (sh_header s) sh_name"
    "length (sh_header s) = shdr_size k" "length (sh_header t) = shdr_size k"
proof -
  from assms have l: "length (sh_header s) = shdr_size k" "length (sh_header t) = shdr_size k"
    and eq: "set_sec_offset k 0 s = set_sec_offset k 0 t" by (simp_all add: same_section_def)
  show "length (sh_header s) = shdr_size k" "length (sh_header t) = shdr_size k" by fact+
  note s = set_offset_getters [OF l(1), of 0] set_offset_fields [of k 0 s]
  note t = set_offset_getters [OF l(2), of 0] set_offset_fields [of k 0 t]
  show "sec_type_of k t = sec_type_of k s" using s(2) t(2) eq by simp
  show "sec_flags_of k t = sec_flags_of k s" using s(3) t(3) eq by simp
  show "sec_address_of k t = sec_address_of k s" using s(4) t(4) eq by simp
  show "sec_size_of k t = sec_size_of k s" using s(5) t(5) eq by simp
  show "sec_align_of k t = sec_align_of k s" using s(6) t(6) eq by simp
  show "get_word k (sh_header t) sh_name = get_word k (sh_header s) sh_name" using s(7) t(7) eq by simp
  show "sh_index t = sh_index s" using s(9) t(9) eq by simp
  show "sh_title t = sh_title s" using s(10) t(10) eq by simp
  show "sh_data t = sh_data s" using s(11) t(11) eq by simp
  show "is_address_set t = is_address_set s" using s(12) t(12) eq by simp
qed

lemma same_section_contents:
  assumes "same_section k s t"
  shows "occupies k t = occupies k s" "has_data k t = has_data k s" "sec_contents k t = sec_contents k s"
  using same_section_getters [OF assms] by (auto simp: occupies_def has_data_def sec_contents_def split: option.split)

lemma same_section_refl: "length (sh_header s) = shdr_size k \<Longrightarrow> same_section k s s"
  by (simp add: same_section_def)

lemma same_section_set: "same_section k s t \<Longrightarrow> same_section k s (set_sec_offset k a t)"
  by (simp add: same_section_def)

definition kept :: "elf_kind \<Rightarrow> elf_sec list \<Rightarrow> elf_sec list \<Rightarrow> bool" where
  "kept k xs ys \<longleftrightarrow> length ys = length xs \<and> (\<forall>i<length xs. same_section k (xs ! i) (ys ! i))"

lemma kept_set: "kept k xs ys \<Longrightarrow> kept k xs (ys[i := set_sec_offset k a (ys ! i)])"
  by (cases "i < length ys") (auto simp: kept_def nth_list_update same_section_set)

section \<open>Places that do not overlap\<close>

definition sections_placed :: "elf_kind \<Rightarrow> nat \<Rightarrow> nat \<Rightarrow> elf_sec list \<Rightarrow> nat set \<Rightarrow> bool" where
  "sections_placed k lo hi secs S \<longleftrightarrow>
     (\<forall>i\<in>S. occupies k (secs ! i) \<longrightarrow> lo \<le> unat (sec_offset_of k (secs ! i))
        \<and> unat (sec_offset_of k (secs ! i)) + unat (sec_size_of k (secs ! i)) \<le> hi)
     \<and> (\<forall>i\<in>S. \<forall>j\<in>S. i \<noteq> j \<longrightarrow> occupies k (secs ! i) \<longrightarrow> occupies k (secs ! j) \<longrightarrow>
          unat (sec_offset_of k (secs ! i)) + unat (sec_size_of k (secs ! i)) \<le> unat (sec_offset_of k (secs ! j))
          \<or> unat (sec_offset_of k (secs ! j)) + unat (sec_size_of k (secs ! j)) \<le> unat (sec_offset_of k (secs ! i)))"

lemma sections_placed_mono: "sections_placed k lo hi secs S \<Longrightarrow> hi \<le> hi' \<Longrightarrow> T \<subseteq> S \<Longrightarrow> sections_placed k lo hi' secs T"
  unfolding sections_placed_def by (meson order_trans subsetD)

lemma sections_placed_insert:
  assumes "sections_placed k lo hi secs S" "i < length secs" "lo \<le> hi" "hi \<le> hi'"
    and "occupies k t \<Longrightarrow> hi \<le> unat (sec_offset_of k t) \<and> unat (sec_offset_of k t) + unat (sec_size_of k t) \<le> hi'"
  shows "sections_placed k lo hi' (secs[i := t]) (insert i S)"
proof -
  have old: "lo \<le> unat (sec_offset_of k (secs ! j))"
    "unat (sec_offset_of k (secs ! j)) + unat (sec_size_of k (secs ! j)) \<le> hi" if "j \<in> S" "occupies k (secs ! j)" for j
    using assms(1) that by (auto simp: sections_placed_def)
  have apart: "unat (sec_offset_of k (secs ! j)) + unat (sec_size_of k (secs ! j)) \<le> unat (sec_offset_of k (secs ! l))
     \<or> unat (sec_offset_of k (secs ! l)) + unat (sec_size_of k (secs ! l)) \<le> unat (sec_offset_of k (secs ! j))"
    if "j \<in> S" "l \<in> S" "j \<noteq> l" "occupies k (secs ! j)" "occupies k (secs ! l)" for j l
    using assms(1) that unfolding sections_placed_def by blast
  show ?thesis
    unfolding sections_placed_def
  proof (intro conjI ballI impI)
    fix j assume "j \<in> insert i S" "occupies k (secs[i := t] ! j)"
    then show "lo \<le> unat (sec_offset_of k (secs[i := t] ! j))"
      "unat (sec_offset_of k (secs[i := t] ! j)) + unat (sec_size_of k (secs[i := t] ! j)) \<le> hi'"
      using old [of j] assms(2-5) by (cases "j = i"; force)+
  next
    fix j l assume *: "j \<in> insert i S" "l \<in> insert i S" "j \<noteq> l" "occupies k (secs[i := t] ! j)" "occupies k (secs[i := t] ! l)"
    then consider "j = i" "l \<in> S" "l \<noteq> i" | "l = i" "j \<in> S" "j \<noteq> i" | "j \<in> S" "l \<in> S" "j \<noteq> i" "l \<noteq> i" by blast
    then show "unat (sec_offset_of k (secs[i := t] ! j)) + unat (sec_size_of k (secs[i := t] ! j)) \<le> unat (sec_offset_of k (secs[i := t] ! l))
       \<or> unat (sec_offset_of k (secs[i := t] ! l)) + unat (sec_size_of k (secs[i := t] ! l)) \<le> unat (sec_offset_of k (secs[i := t] ! j))"
    proof cases
      case 1
      with * assms(2) have "occupies k t" "occupies k (secs ! l)" by simp_all
      with assms(5) old(2) [of l] 1 assms(2) show ?thesis by force
    next
      case 2
      with * assms(2) have "occupies k t" "occupies k (secs ! j)" by simp_all
      with assms(5) old(2) [of j] 2 assms(2) show ?thesis by force
    next
      case 3
      with * apart show ?thesis by simp
    qed
  qed
qed

section \<open>The invariant of the layout\<close>

text \<open>
  Files whose numbers leave room for the layout: every size, alignment and distance between a
  section and its segment is below \<open>elf_bound\<close>.
\<close>

definition elf_bound :: nat where "elf_bound = 2 ^ 40"

definition sane_section :: "elf_kind \<Rightarrow> nat \<Rightarrow> elf_sec \<Rightarrow> bool" where
  "sane_section k i s \<longleftrightarrow> length (sh_header s) = shdr_size k \<and> sh_index s = word_of_nat i \<and> is_address_set s
     \<and> unat (sec_size_of k s) < elf_bound \<and> unat (sec_align_of k s) < elf_bound \<and> has_data k s"

definition sane_sections :: "elf_kind \<Rightarrow> elf_sec list \<Rightarrow> bool" where
  "sane_sections k secs \<longleftrightarrow> length secs < 2 ^ 16 \<and> (\<forall>i<length secs. sane_section k i (secs ! i))
     \<and> (secs \<noteq> [] \<longrightarrow> \<not> occupies k (secs ! 0))"

definition sane_segment :: "elf_kind \<Rightarrow> elf_sec list \<Rightarrow> elf_seg \<Rightarrow> bool" where
  "sane_segment k secs g \<longleftrightarrow> length (ph_header g) = phdr_size k \<and> unat (seg_align_of k g) < elf_bound
     \<and> (\<forall>i\<in>set (ph_sections g). unat i < length secs
          \<and> (occupies k (secs ! unat i) \<longrightarrow> unat (sec_address_of k (secs ! unat i) - seg_address_of k g) < elf_bound))"

definition generated :: "layout \<Rightarrow> nat set" where
  "generated ly = {i. i < length (ly_generated ly) \<and> ly_generated ly ! i}"

text \<open>
  The sections laid out so far have places of their own up to the position; \<open>m\<close> segments are left,
  and the position stays below \<open>T\<close> with what the rest can add to it.
\<close>

definition layout_inv :: "elf_kind \<Rightarrow> elf_sec list \<Rightarrow> nat \<Rightarrow> nat \<Rightarrow> nat \<Rightarrow> layout \<Rightarrow> bool" where
  "layout_inv k secs lo T m ly \<longleftrightarrow> kept k secs (ly_secs ly) \<and> length (ly_generated ly) = length secs
     \<and> sections_placed k lo (unat (ly_pos ly)) (ly_secs ly) (generated ly) \<and> lo \<le> unat (ly_pos ly)
     \<and> unat (ly_pos ly) + 2 * elf_bound * card ({..<length secs} - generated ly) + elf_bound * m \<le> T"

lemma unat_add_u64: "unat (a :: u64) + unat b < 2 ^ 64 \<Longrightarrow> unat (a + b) = unat a + unat b"
  by (simp add: unat_add_lem [THEN iffD1])

lemma generated_update:
  "i < length (ly_generated ly) \<Longrightarrow> generated (ly\<lparr>ly_pos := p, ly_secs := x, ly_generated := (ly_generated ly)[i := True]\<rparr>) = insert i (generated ly)"
  "i < length (ly_generated ly) \<Longrightarrow> generated (ly\<lparr>ly_generated := (ly_generated ly)[i := True]\<rparr>) = insert i (generated ly)"
  by (auto simp: generated_def nth_list_update)

lemma section_gap_bound:
  assumes "is_address_set s" "occupies k s \<Longrightarrow> unat (sec_address_of k s - seg_address_of k g) < elf_bound"
  shows "section_gap k g start False s pos filesize = Inl Layout_failed
    \<or> (\<exists>gap. section_gap k g start False s pos filesize = Inr gap \<and> unat gap < elf_bound)"
proof (cases "occupies k s")
  case True
  let ?req = "sec_address_of k s - seg_address_of k g" and ?cur = "pos - start"
  have "unat (?req - ?cur) \<le> unat ?req" if "\<not> ?req < ?cur"
    using that by (simp add: not_less unat_sub word_le_nat_alt)
  with assms(2) [OF True] True assms(1) show ?thesis
    by (auto simp: section_gap_def occupies_def Let_def)
next
  case False
  then show ?thesis using assms(1) by (auto simp: section_gap_def occupies_def elf_bound_def)
qed

lemma card_remove:
  assumes "i < n" "i \<notin> S"
  shows "card ({..<n :: nat} - S) = Suc (card ({..<n} - insert i S))"
proof -
  have "{..<n} - S = insert i ({..<n} - insert i S)" using assms by auto
  then show ?thesis by (metis Diff_iff card_insert_disjoint finite_Diff finite_lessThan insertI1)
qed

text \<open>One section gets the next place.\<close>

lemma layout_inv_place:
  assumes "layout_inv k secs lo T m ly" "T < 2 ^ 63" "i < length secs" "i \<notin> generated ly"
    and "unat gap < elf_bound" "sz = (if nobits then 0 else sec_size_of k (secs ! i))" "unat (sec_size_of k (secs ! i)) < elf_bound"
    and "same_section k (secs ! i) t" "occupies k t \<Longrightarrow> sec_offset_of k t = ly_pos ly + gap \<and> \<not> nobits"
  shows "layout_inv k secs lo T m (ly\<lparr>ly_pos := (ly_pos ly + gap) + sz, ly_secs := (ly_secs ly)[i := t],
      ly_generated := (ly_generated ly)[i := True]\<rparr>)"
proof -
  from assms(1) have inv: "kept k secs (ly_secs ly)" "length (ly_generated ly) = length secs" "lo \<le> unat (ly_pos ly)"
    "sections_placed k lo (unat (ly_pos ly)) (ly_secs ly) (generated ly)"
    "unat (ly_pos ly) + 2 * elf_bound * card ({..<length secs} - generated ly) + elf_bound * m \<le> T"
    by (simp_all add: layout_inv_def)
  let ?S = "insert i (generated ly)"
  have "unat sz \<le> unat (sec_size_of k (secs ! i))" using assms(6) by simp
  then have sz: "unat sz < elf_bound" using assms(7) by simp
  have card: "2 * elf_bound * card ({..<length secs} - generated ly) = 2 * elf_bound + 2 * elf_bound * card ({..<length secs} - ?S)"
    using card_remove [OF assms(3,4)] by simp
  have big: "(2 :: nat) ^ 63 < 2 ^ 64" by simp
  have p1: "unat (ly_pos ly + gap) = unat (ly_pos ly) + unat gap"
    using inv(5) card assms(2,5) big by (intro unat_add_u64) linarith
  have p2: "unat (ly_pos ly + gap + sz) = unat (ly_pos ly) + unat gap + unat sz"
    using inv(5) card assms(2,5) big sz p1 by (subst unat_add_u64) linarith+
  have "sec_size_of k t = sec_size_of k (secs ! i)" using same_section_getters [OF assms(8)] by simp
  then have "sections_placed k lo (unat (ly_pos ly + gap + sz)) ((ly_secs ly)[i := t]) ?S"
    using inv(1,3) assms(3,6,9) p1 p2 by (intro sections_placed_insert [OF inv(4)]) (auto simp: kept_def)
  moreover have "kept k secs ((ly_secs ly)[i := t])" using inv(1) assms(3,8) by (auto simp: kept_def nth_list_update)
  ultimately show ?thesis
    using inv(2,3,5) assms(3,5) card sz p2 by (simp add: layout_inv_def generated_update)
qed

lemma sane_at:
  assumes "sane_sections k secs" "kept k secs ys" "i < length secs"
  shows "same_section k (secs ! i) (ys ! i)" "sane_section k i (ys ! i)" "occupies k (ys ! i) \<Longrightarrow> sh_index (ys ! i) \<noteq> 0"
proof -
  show same: "same_section k (secs ! i) (ys ! i)" using assms(2,3) by (simp add: kept_def)
  have sane: "sane_section k i (secs ! i)" using assms(1,3) by (simp add: sane_sections_def)
  then show ys: "sane_section k i (ys ! i)"
    using same_section_getters [OF same] same_section_contents [OF same] by (simp add: sane_section_def)
  assume "occupies k (ys ! i)"
  then have "occupies k (secs ! i)" using same_section_contents [OF same] by simp
  then have "i \<noteq> 0" using assms(1,3) unfolding sane_sections_def by (cases "i = 0") auto
  moreover have "i < 2 ^ 16" using assms(1,3) by (simp add: sane_sections_def)
  ultimately have "unat (word_of_nat i :: u16) \<noteq> 0" by (simp add: unsigned_of_nat take_bit_nat_eq_self)
  then show "sh_index (ys ! i) \<noteq> 0" using ys by (auto simp: sane_section_def)
qed

lemma layout_inv_none:
  assumes "layout_inv k secs lo T m ly" "i < length secs" "\<not> occupies k (secs ! i)"
  shows "layout_inv k secs lo T m (ly\<lparr>ly_generated := (ly_generated ly)[i := True]\<rparr>)"
proof -
  from assms(1) have inv: "kept k secs (ly_secs ly)" "length (ly_generated ly) = length secs"
    "sections_placed k lo (unat (ly_pos ly)) (ly_secs ly) (generated ly)" "lo \<le> unat (ly_pos ly)" by (simp_all add: layout_inv_def)
  have "\<not> occupies k (ly_secs ly ! i)"
    using inv(1) assms(2,3) same_section_contents(1) by (auto simp: kept_def)
  then have "sections_placed k lo (unat (ly_pos ly)) ((ly_secs ly)[i := ly_secs ly ! i]) (insert i (generated ly))"
    using inv(1,4) assms(2) by (intro sections_placed_insert [OF inv(3)]) (auto simp: kept_def)
  moreover have "card ({..<length secs} - insert i (generated ly)) \<le> card ({..<length secs} - generated ly)"
    by (intro card_mono) auto
  then have "2 * elf_bound * card ({..<length secs} - insert i (generated ly)) \<le> 2 * elf_bound * card ({..<length secs} - generated ly)"
    by (rule mult_le_mono2)
  then have "unat (ly_pos ly) + 2 * elf_bound * card ({..<length secs} - insert i (generated ly)) + elf_bound * m \<le> T"
    using assms(1) unfolding layout_inv_def by linarith
  ultimately show ?thesis using assms(2) inv unfolding layout_inv_def by (simp add: generated_update)
qed

lemma layout_section_inv:
  assumes "is64 k" "sane_sections k secs" "layout_inv k secs lo T m ly" "T < 2 ^ 63" "sane_segment k secs g" "i \<in> set (ph_sections g)"
  shows "layout_section k g start i (ly, mem, fs) = Inl Layout_failed
    \<or> (\<exists>ly' mem' fs'. layout_section k g start i (ly, mem, fs) = Inr (ly', mem', fs') \<and> layout_inv k secs lo T m ly'
         \<and> ly_segs ly' = ly_segs ly \<and> generated ly' = insert (unat i) (generated ly))"
proof -
  let ?i = "unat i" and ?s = "ly_secs ly ! unat i"
  have kept: "kept k secs (ly_secs ly)" and len: "length (ly_generated ly) = length secs"
    using assms(3) by (simp_all add: layout_inv_def)
  have i: "?i < length secs" using assms(5,6) by (simp add: sane_segment_def)
  note same = sane_at(1) [OF assms(2) kept i] and sane = sane_at(2) [OF assms(2) kept i] and idx = sane_at(3) [OF assms(2) kept i]
  note get = same_section_getters [OF same] same_section_contents [OF same]
  have in_range: "\<not> length (ly_secs ly) \<le> ?i" using kept i by (simp add: kept_def)
  note ls = layout_section_def prod.case Let_def in_range if_False
  show ?thesis
  proof (cases "sec_type_of k ?s = SHT_NULL")
    case True
    then have "\<not> occupies k (secs ! ?i)" using get by (simp add: occupies_def)
    from layout_inv_none [OF assms(3) i this] True len i in_range show ?thesis
      unfolding ls by (auto simp: generated_update)
  next
    case nn: False
    show ?thesis
    proof (cases "ly_generated ly ! ?i")
      case True
      then have "generated ly = insert ?i (generated ly)" using i len by (auto simp: generated_def)
      then show ?thesis using True nn assms(3) in_range unfolding ls by (auto simp: section_gap_def)
    next
      case False
      have set: "is_address_set ?s" using sane by (simp add: sane_section_def)
      have occ: "occupies k ?s \<Longrightarrow> unat (sec_address_of k ?s - seg_address_of k g) < elf_bound"
        using assms(5,6) get by (simp add: sane_segment_def)
      consider "section_gap k g start False ?s (ly_pos ly) fs = Inl Layout_failed"
        | gap where "section_gap k g start False ?s (ly_pos ly) fs = Inr gap" "unat gap < elf_bound"
        using section_gap_bound [of ?s k g start "ly_pos ly" fs] set occ by blast
      then show ?thesis
      proof cases
        case 1
        then show ?thesis using False nn in_range unfolding ls by simp
      next
        case gap: (2 gap)
        define nobits where "nobits \<longleftrightarrow> sec_type_of k ?s = SHT_NOBITS"
        define sz where "sz = (if nobits then 0 else sec_size_of k (secs ! ?i))"
        define t where "t = (if sh_index ?s \<noteq> 0 then set_sec_offset k (ly_pos ly + gap) ?s else ?s)"
        define ly' where "ly' = ly\<lparr>ly_pos := (ly_pos ly + gap) + sz, ly_secs := (ly_secs ly)[?i := t],
          ly_generated := (ly_generated ly)[?i := True]\<rparr>"
        have sz: "(if nobits then ly_pos ly + gap else ly_pos ly + gap + sec_size_of k ?s) = ly_pos ly + gap + sz"
          by (simp add: sz_def get)
        have run: "\<exists>mem' fs'. layout_section k g start i (ly, mem, fs) = Inr (ly', mem', fs')"
          unfolding ls using False nn gap(1) set in_range
          by (simp add: nobits_def [symmetric] sz t_def ly'_def)
        have "layout_inv k secs lo T m ly'"
          unfolding ly'_def
        proof (rule layout_inv_place [OF assms(3,4) i _ gap(2) sz_def])
          show "?i \<notin> generated ly" using False by (simp add: generated_def)
          show "unat (sec_size_of k (secs ! ?i)) < elf_bound" using sane get by (simp add: sane_section_def)
          show "same_section k (secs ! ?i) t" using same same_section_set by (simp add: t_def)
          assume "occupies k t"
          then have "occupies k ?s" using set_offset_getters [of ?s k] get(12) by (auto simp: t_def occupies_def split: if_splits)
          with idx assms(1) get(12) show "sec_offset_of k t = ly_pos ly + gap \<and> \<not> nobits"
            by (simp add: t_def nobits_def occupies_def)
        qed
        moreover have "generated ly' = insert ?i (generated ly)" using i len by (simp add: ly'_def generated_update)
        ultimately show ?thesis using run by (auto simp: ly'_def)
      qed
    qed
  qed
qed

section \<open>Segments of the layout\<close>

lemma layout_sections_of_inv:
  assumes "is64 k" "sane_sections k secs" "T < 2 ^ 63" "sane_segment k secs g" "set is \<subseteq> set (ph_sections g)"
    and "layout_inv k secs lo T m ly"
  shows "layout_sections_of k g start is (ly, mem, fs) = Inl Layout_failed
    \<or> (\<exists>ly' mem' fs'. layout_sections_of k g start is (ly, mem, fs) = Inr (ly', mem', fs') \<and> layout_inv k secs lo T m ly'
         \<and> ly_segs ly' = ly_segs ly \<and> generated ly' = unat ` set is \<union> generated ly)"
  using assms(5,6)
proof (induction "is" arbitrary: ly mem fs)
  case (Cons i js)
  from Cons.prems(1) have i: "i \<in> set (ph_sections g)" by simp
  consider "layout_section k g start i (ly, mem, fs) = Inl Layout_failed"
    | ly' mem' fs' where "layout_section k g start i (ly, mem, fs) = Inr (ly', mem', fs')" "layout_inv k secs lo T m ly'"
      "ly_segs ly' = ly_segs ly" "generated ly' = insert (unat i) (generated ly)"
    using layout_section_inv [OF assms(1,2) Cons.prems(2) assms(3,4) i, of start mem fs] by blast
  then show ?case
  proof cases
    case (2 ly' mem' fs')
    with Cons.IH [OF _ 2(2), of mem' fs'] Cons.prems(1) show ?thesis by auto
  qed simp
qed auto

text \<open>What the layout does not change of a segment.\<close>

definition same_segment :: "elf_kind \<Rightarrow> elf_seg \<Rightarrow> elf_seg \<Rightarrow> bool" where
  "same_segment k g h \<longleftrightarrow> length (ph_header h) = phdr_size k \<and> ph_sections h = ph_sections g \<and> ph_index h = ph_index g
     \<and> seg_address_of k h = seg_address_of k g \<and> unat (seg_align_of k h) < elf_bound"

lemma same_segment_sane: "sane_segment k secs g \<Longrightarrow> same_segment k g h \<Longrightarrow> sane_segment k secs h"
  by (simp add: sane_segment_def same_segment_def)

lemma set_seg_same:
  assumes "same_segment k g h" "is64 k"
  shows "same_segment k g (set_seg_file_size k x h)" "same_segment k g (set_seg_memory_size k x h)"
    "same_segment k g (set_seg_offset k x h)" "unat x < elf_bound \<Longrightarrow> same_segment k g (set_seg_align k x h)"
proof -
  have l: "length (ph_header h) = phdr_size k" using assms(1) by (simp add: same_segment_def)
  have len: "length (set_wide k f x (ph_header h)) = phdr_size k" if "f \<in> {p_filesz, p_memsz, p_offset, p_align}" for f
    using that l assms(2) by (auto simp: elf_fields)
  have other: "get_wide k (set_wide k f x (ph_header h)) f' = get_wide k (ph_header h) f'"
    if "(f, f') \<in> {p_filesz, p_memsz, p_offset, p_align} \<times> {p_vaddr} \<union> {p_filesz, p_memsz, p_offset} \<times> {p_align}" for f f'
    using that l assms(2) by (intro get_cong piece_set_other) (auto simp: elf_fields)
  note defs = same_segment_def set_seg_file_size_def set_seg_memory_size_def set_seg_offset_def set_seg_align_def seg_getters
  show "same_segment k g (set_seg_file_size k x h)" "same_segment k g (set_seg_memory_size k x h)"
    "same_segment k g (set_seg_offset k x h)" using assms(1) len other by (simp_all add: defs)
  assume "unat x < elf_bound"
  moreover have "get_wide k (set_wide k p_align x (ph_header h)) p_align = x"
    using l assms(2) by (simp add: elf_fields)
  ultimately show "same_segment k g (set_seg_align k x h)" using assms(1) len other by (simp add: defs)
qed

lemma align_segment_same:
  assumes "is64 k" "sane_sections k secs" "\<forall>i\<in>set is. unat i < length secs" "same_segment k g h"
  shows "\<exists>h'. align_segment k secs is h = Inr h' \<and> same_segment k g h'"
  using assms(3,4)
proof (induction "is" arbitrary: h)
  case (Cons i js)
  have "unat (sec_align_of k (secs ! unat i)) < elf_bound"
    using assms(2) Cons.prems(1) by (simp add: sane_sections_def sane_section_def)
  then have "same_segment k g (set_seg_align k (sec_align_of k (secs ! unat i)) h)"
    by (rule set_seg_same(4) [OF Cons.prems(2) assms(1)])
  with Cons show ?case by (simp add: Let_def)
qed simp

lemma calc_segment_alignment_same:
  assumes "is64 k" "sane_sections k secs" "\<forall>g\<in>set segs. sane_segment k secs g"
  shows "\<exists>hs. calc_segment_alignment k secs segs = Inr hs \<and> list_all2 (same_segment k) segs hs"
  using assms(3)
proof (induction segs)
  case (Cons g segs)
  then have "same_segment k g g" "\<forall>i\<in>set (ph_sections g). unat i < length secs"
    by (simp_all add: sane_segment_def same_segment_def)
  from align_segment_same [OF assms(1,2) this(2,1)] Cons show ?case by auto
qed simp

lemma segment_start_bound:
  assumes "is64 k" "sane_segment k secs g" "layout_inv k secs lo T (Suc m) ly" "T < 2 ^ 63"
  shows "\<exists>start sz pos. segment_start k header g ly = Inr (start, sz, pos) \<and> layout_inv k secs lo T m (ly\<lparr>ly_pos := pos\<rparr>)"
proof -
  from assms(3) have inv: "kept k secs (ly_secs ly)" "length (ly_generated ly) = length secs"
    "sections_placed k lo (unat (ly_pos ly)) (ly_secs ly) (generated ly)" "lo \<le> unat (ly_pos ly)"
    "unat (ly_pos ly) + 2 * elf_bound * card ({..<length secs} - generated ly) + elf_bound * m + elf_bound \<le> T"
    by (simp_all add: layout_inv_def)
  have ok: "layout_inv k secs lo T m (ly\<lparr>ly_pos := pos\<rparr>)"
    if "unat (ly_pos ly) \<le> unat pos" "unat pos \<le> unat (ly_pos ly) + elf_bound" for pos
    using that inv sections_placed_mono [OF inv(3) that(1) order_refl] by (simp add: layout_inv_def generated_def)
  have same: "layout_inv k secs lo T m (ly\<lparr>ly_pos := ly_pos ly\<rparr>)" by (rule ok) simp_all
  show ?thesis
  proof (cases "ph_sections g = [] \<or> seg_type_of k g = PT_PHDR \<and> ph_sections g = [] \<or> is_offset_set g \<and> seg_offset_of k g = 0
      \<or> ly_generated ly ! unat (hd (ph_sections g))")
    case True
    have "ph_sections g \<noteq> [] \<Longrightarrow> unat (hd (ph_sections g)) < length (ly_secs ly)"
      using assms(2) inv(1) by (auto simp: sane_segment_def kept_def)
    with True same show ?thesis by (auto simp: segment_start_def Let_def)
  next
    case False
    let ?align = "if seg_align_of k g > 0 then seg_align_of k g else 1"
    define gap where "gap = (seg_align_of k g + (seg_address_of k g mod ?align - ly_pos ly mod ?align)) mod ?align"
    have "unat gap < unat ?align" unfolding gap_def unat_mod by (intro mod_less_divisor) (auto simp: unat_gt_0)
    moreover have "unat ?align \<le> elf_bound" using assms(2) by (simp add: sane_segment_def elf_bound_def)
    ultimately have gap: "unat gap \<le> elf_bound" by simp
    have "(2 :: nat) ^ 63 < 2 ^ 64" by simp
    then have "unat (ly_pos ly + gap) = unat (ly_pos ly) + unat gap"
      using inv(5) gap assms(4) by (intro unat_add_u64) linarith
    then have "layout_inv k secs lo T m (ly\<lparr>ly_pos := ly_pos ly + gap\<rparr>)" using gap by (intro ok) simp_all
    moreover have "unat (hd (ph_sections g)) < length (ly_secs ly)"
      using False assms(2) inv(1) by (auto simp: sane_segment_def kept_def)
    ultimately show ?thesis using False by (auto simp: segment_start_def Let_def gap_def)
  qed
qed

lemma layout_segment_inv:
  assumes "is64 k" "sane_sections k secs" "T < 2 ^ 63" "layout_inv k secs lo T (Suc m) ly" "n < length (ly_segs ly)"
    and "sane_segment k secs g" "same_segment k g (ly_segs ly ! n)"
  shows "layout_segment k header n ly = Inl Layout_failed
    \<or> (\<exists>ly' h. layout_segment k header n ly = Inr ly' \<and> layout_inv k secs lo T m ly'
         \<and> ly_segs ly' = (ly_segs ly)[n := h] \<and> same_segment k g h
         \<and> generated ly' = unat ` set (ph_sections g) \<union> generated ly)"
proof -
  let ?g = "ly_segs ly ! n"
  note sane = same_segment_sane [OF assms(6,7)]
  have secs: "ph_sections ?g = ph_sections g" using assms(7) by (simp add: same_segment_def)
  from segment_start_bound [OF assms(1) sane assms(4,3), of header] obtain start sz pos
    where start: "segment_start k header ?g ly = Inr (start, sz, pos)" "layout_inv k secs lo T m (ly\<lparr>ly_pos := pos\<rparr>)"
    by blast
  consider "layout_sections_of k ?g start (ph_sections ?g) (ly\<lparr>ly_pos := pos\<rparr>, sz, sz) = Inl Layout_failed"
    | ly' mem fs where "layout_sections_of k ?g start (ph_sections ?g) (ly\<lparr>ly_pos := pos\<rparr>, sz, sz) = Inr (ly', mem, fs)"
      "layout_inv k secs lo T m ly'" "ly_segs ly' = ly_segs ly" "generated ly' = unat ` set (ph_sections g) \<union> generated ly"
    using layout_sections_of_inv [OF assms(1,2,3) sane order_refl start(2), of start sz sz] secs
    by (auto simp: generated_def)
  then show ?thesis
  proof cases
    case (2 ly' mem fs)
    note set = set_seg_same [OF _ assms(1)]
    define h where "h = set_seg_offset k start
      (if seg_memory_size_of k (set_seg_file_size k fs ?g) < mem
       then set_seg_memory_size k mem (set_seg_file_size k fs ?g) else set_seg_file_size k fs ?g)"
    have "same_segment k g h" using assms(7) by (auto simp: h_def intro!: set)
    moreover have "layout_segment k header n ly = Inr (ly'\<lparr>ly_segs := (ly_segs ly')[n := h]\<rparr>)"
      by (simp add: layout_segment_def start(1) 2(1) Let_def h_def)
    moreover have gen: "generated (ly'\<lparr>ly_segs := (ly_segs ly')[n := h]\<rparr>) = generated ly'"
      by (simp add: generated_def)
    moreover have "layout_inv k secs lo T m (ly'\<lparr>ly_segs := (ly_segs ly')[n := h]\<rparr>)"
      using 2(2) unfolding layout_inv_def gen by simp
    ultimately show ?thesis using 2(3,4)
      by (intro disjI2 exI [of _ "ly'\<lparr>ly_segs := (ly_segs ly')[n := h]\<rparr>"] exI [of _ h]) simp
  qed (simp add: layout_segment_def start(1) Let_def)
qed

lemma layout_segments_inv:
  assumes "is64 k" "sane_sections k secs" "T < 2 ^ 63" "\<forall>g\<in>set segs. sane_segment k secs g"
    and "set wl \<subseteq> {..<length segs}" "layout_inv k secs lo T (length wl) ly" "list_all2 (same_segment k) segs (ly_segs ly)"
  shows "layout_segments k header wl ly = Inl Layout_failed
    \<or> (\<exists>ly'. layout_segments k header wl ly = Inr ly' \<and> layout_inv k secs lo T 0 ly'
         \<and> list_all2 (same_segment k) segs (ly_segs ly')
         \<and> generated ly' = (\<Union>n\<in>set wl. unat ` set (ph_sections (segs ! n))) \<union> generated ly)"
  using assms(5-7)
proof (induction wl arbitrary: ly)
  case (Cons n wl)
  then have n: "n < length segs" "n < length (ly_segs ly)" by (auto dest: list_all2_lengthD)
  have inv: "layout_inv k secs lo T (Suc (length wl)) ly" using Cons.prems(2) by simp
  have g: "sane_segment k secs (segs ! n)" "same_segment k (segs ! n) (ly_segs ly ! n)"
    using assms(4) n Cons.prems(3) by (auto dest: list_all2_nthD)
  consider "layout_segment k header n ly = Inl Layout_failed"
    | ly' h where "layout_segment k header n ly = Inr ly'" "layout_inv k secs lo T (length wl) ly'"
      "ly_segs ly' = (ly_segs ly)[n := h]" "same_segment k (segs ! n) h"
      "generated ly' = unat ` set (ph_sections (segs ! n)) \<union> generated ly"
    using layout_segment_inv [OF assms(1,2,3) inv n(2) g, of header] by blast
  then show ?case
  proof cases
    case (2 ly' h)
    have "list_all2 (same_segment k) segs (ly_segs ly')"
      using Cons.prems(3) n 2(3,4) by (auto simp: list_all2_conv_all_nth nth_list_update)
    with Cons.IH [OF _ 2(2)] Cons.prems(1) 2(1,5) show ?thesis by auto
  qed simp
qed simp

text \<open>The order in which the segments are laid out leaves none out.\<close>

lemma set_order_segments: "set (order_segments segs wl) = set wl"
proof (induction segs wl rule: order_segments.induct)
  case (2 segs i wl)
  then show ?case by (cases "\<exists>j\<in>set wl. is_subsequence_of (segs ! i) (segs ! j)") (simp_all add: order_segments.simps(2))
qed simp

lemma length_order_segments: "length (order_segments segs wl) = length wl"
proof (induction segs wl rule: order_segments.induct)
  case (2 segs i wl)
  then show ?case by (cases "\<exists>j\<in>set wl. is_subsequence_of (segs ! i) (segs ! j)") (simp_all add: order_segments.simps(2))
qed simp

lemma swap_at_mset: "i < length xs \<Longrightarrow> j < length xs \<Longrightarrow> set (swap_at i j xs) = set xs"
  by (simp add: swap_at_def set_swap)

lemma front_step_keeps:
  assumes "slot \<le> i" "i < length wl" "set wl = S" "front_step k segs i (wl, slot) = (wl', slot')"
  shows "slot' \<le> Suc i \<and> length wl' = length wl \<and> set wl' = S"
proof -
  have "set (swap_at i s wl) = S" "length (swap_at i s wl) = length wl" if "s \<le> i" for s
    using assms(2,3) that by (simp_all add: swap_at_mset) (simp add: swap_at_def)
  then show ?thesis using assms by (auto simp: front_step_def Let_def split: if_splits)
qed

lemma front_segments_set: "set (front_segments k segs) = {..<length segs} \<and> length (front_segments k segs) = length segs"
proof -
  have "\<exists>wl slot. fold (front_step k segs) [0..<n] ([0..<length segs], 0) = (wl, slot) \<and> slot \<le> n
      \<and> length wl = length segs \<and> set wl = {..<length segs}" if "n \<le> length segs" for n
    using that
  proof (induction n)
    case (Suc n)
    then obtain wl slot where wl: "fold (front_step k segs) [0..<n] ([0..<length segs], 0) = (wl, slot)" "slot \<le> n"
      "length wl = length segs" "set wl = {..<length segs}" by auto
    obtain wl' slot' where step: "front_step k segs n (wl, slot) = (wl', slot')" by fastforce
    have "n < length wl" using Suc.prems wl(3) by simp
    from front_step_keeps [OF wl(2) this wl(4) step] wl(1,3) step show ?case by simp
  qed auto
  then obtain wl slot where "fold (front_step k segs) [0..<length segs] ([0..<length segs], 0) = (wl, slot)"
    "length wl = length segs" "set wl = {..<length segs}" by blast
  then show ?thesis by (simp add: front_segments_def)
qed

lemma ordered_segments_set:
  "set (get_ordered_segments k segs) = {..<length segs}" "length (get_ordered_segments k segs) = length segs"
  using front_segments_set [of k segs] by (simp_all add: get_ordered_segments_def set_order_segments length_order_segments)

section \<open>Sections without a segment\<close>

definition alone_inv :: "elf_kind \<Rightarrow> elf_sec list \<Rightarrow> nat \<Rightarrow> nat \<Rightarrow> nat set \<Rightarrow> elf_seg list \<Rightarrow> nat \<Rightarrow> layout \<Rightarrow> bool" where
  "alone_inv k secs lo T S segs n ly \<longleftrightarrow> kept k secs (ly_secs ly) \<and> ly_segs ly = segs \<and> lo \<le> unat (ly_pos ly)
     \<and> sections_placed k lo (unat (ly_pos ly)) (ly_secs ly) (S \<union> {i. i < n \<and> is_section_without_segment segs i})
     \<and> unat (ly_pos ly) + 2 * elf_bound * (length secs - n) \<le> T"

lemma layout_alone_inv:
  assumes "is64 k" "sane_sections k secs" "T < 2 ^ 63" "n < length secs" "alone_inv k secs lo T S segs n ly"
  shows "alone_inv k secs lo T S segs (Suc n) (layout_section_alone k n ly)"
proof -
  from assms(5) have inv: "kept k secs (ly_secs ly)" "ly_segs ly = segs" "lo \<le> unat (ly_pos ly)"
    "sections_placed k lo (unat (ly_pos ly)) (ly_secs ly) (S \<union> {i. i < n \<and> is_section_without_segment segs i})"
    "unat (ly_pos ly) + 2 * elf_bound * (length secs - n) \<le> T" by (simp_all add: alone_inv_def)
  let ?S = "S \<union> {i. i < n \<and> is_section_without_segment segs i}"
  have more: "2 * elf_bound * (length secs - n) = 2 * elf_bound + 2 * elf_bound * (length secs - Suc n)"
    using assms(4) by (simp add: Suc_diff_Suc [symmetric])
  show ?thesis
  proof (cases "is_section_without_segment segs n")
    case False
    then have "{i. i < Suc n \<and> is_section_without_segment segs i} = {i. i < n \<and> is_section_without_segment segs i}"
      by (auto simp: less_Suc_eq)
    with False inv more show ?thesis by (simp add: alone_inv_def layout_section_alone_def)
  next
    case True
    let ?s = "ly_secs ly ! n" and ?pos = "ly_pos ly"
    let ?align = "sec_align_of k ?s"
    define gap where "gap = (if ?align > 1 \<and> ?pos mod ?align \<noteq> 0 then ?align - ?pos mod ?align else 0)"
    define sz where "sz = (if sec_type_of k ?s \<noteq> SHT_NOBITS \<and> sec_type_of k ?s \<noteq> SHT_NULL then sec_size_of k ?s else 0)"
    define t where "t = (if sh_index ?s \<noteq> 0 then set_sec_offset k (?pos + gap) ?s else ?s)"
    note same = sane_at(1) [OF assms(2) inv(1) assms(4)] and sane = sane_at(2) [OF assms(2) inv(1) assms(4)]
      and idx = sane_at(3) [OF assms(2) inv(1) assms(4)]
    note get = same_section_getters [OF same]
    have gap: "unat gap < elf_bound"
    proof (cases "?align > 1 \<and> ?pos mod ?align \<noteq> 0")
      case mis: True
      have "?pos mod ?align \<le> ?align" using mis by (simp add: word_le_nat_alt unat_mod word_less_nat_alt less_imp_le)
      then have "unat (?align - ?pos mod ?align) \<le> unat ?align" by (simp add: unat_sub word_le_nat_alt)
      with mis sane show ?thesis by (simp add: gap_def sane_section_def)
    next
      case False
      have "gap = 0" unfolding gap_def by (rule if_not_P [OF False])
      then show ?thesis by (simp add: elf_bound_def)
    qed
    have sz: "unat sz < elf_bound" using sane by (simp add: sz_def sane_section_def elf_bound_def)
    have big: "(2 :: nat) ^ 63 < 2 ^ 64" by simp
    have p1: "unat (?pos + gap) = unat ?pos + unat gap"
      using inv(5) more gap assms(3) big by (intro unat_add_u64) linarith
    have p2: "unat (?pos + gap + sz) = unat ?pos + unat gap + unat sz"
      using inv(5) more gap sz assms(3) big p1 by (subst unat_add_u64) linarith+
    have t: "sec_type_of k t = sec_type_of k ?s" "sec_size_of k t = sec_size_of k ?s"
      using get by (simp_all add: t_def)
    have pos: "(if ?align > 1 \<and> ?pos mod ?align \<noteq> 0 then ?pos + (?align - ?pos mod ?align) else ?pos) = ?pos + gap"
      by (simp add: gap_def)
    have sec: "(if sh_index ?s \<noteq> 0 then set_sec_offset k (?pos + gap) ?s else ?s) = t" by (simp add: t_def)
    have run: "layout_section_alone k n ly = ly\<lparr>ly_pos := ?pos + gap + sz, ly_secs := (ly_secs ly)[n := t]\<rparr>"
      by (simp only: layout_section_alone_def Let_def inv(2) True if_True pos sec t) (simp add: sz_def)
    have "sections_placed k lo (unat (?pos + gap + sz)) ((ly_secs ly)[n := t]) (insert n ?S)"
    proof (rule sections_placed_insert [OF inv(4) _ inv(3)])
      show "n < length (ly_secs ly)" using inv(1) assms(4) by (simp add: kept_def)
      show "unat ?pos \<le> unat (?pos + gap + sz)" using p2 by simp
      assume "occupies k t"
      then have occ: "occupies k ?s" using t by (simp add: occupies_def)
      then have "sec_offset_of k t = ?pos + gap" using idx assms(1) get by (simp add: t_def)
      with occ t p1 p2 show "unat ?pos \<le> unat (sec_offset_of k t)
          \<and> unat (sec_offset_of k t) + unat (sec_size_of k t) \<le> unat (?pos + gap + sz)"
        by (simp add: occupies_def sz_def)
    qed
    moreover have "insert n ?S = S \<union> {i. i < Suc n \<and> is_section_without_segment segs i}"
      using True by (auto simp: less_Suc_eq)
    moreover have "kept k secs ((ly_secs ly)[n := t])"
      using kept_set [OF inv(1)] inv(1) by (cases "sh_index ?s = 0") (simp_all add: t_def)
    ultimately show ?thesis
      using inv(2,3,5) more gap sz p2 by (simp add: alone_inv_def run)
  qed
qed

lemma layout_all_alone:
  assumes "is64 k" "sane_sections k secs" "T < 2 ^ 63" "alone_inv k secs lo T S segs 0 ly"
  shows "alone_inv k secs lo T S segs (length secs) (layout_sections_without_segments k ly)"
proof -
  have "alone_inv k secs lo T S segs n (fold (layout_section_alone k) [0..<n] ly)" if "n \<le> length secs" for n
    using that
  proof (induction n)
    case (Suc n)
    with layout_alone_inv [OF assms(1-3), of n lo S segs] show ?case by simp
  qed (use assms(4) in simp)
  moreover have "length (ly_secs ly) = length secs" using assms(4) by (simp add: alone_inv_def kept_def)
  ultimately show ?thesis by (simp add: layout_sections_without_segments_def)
qed

text \<open>At the end every section has a place.\<close>

definition laid_out :: "elf_kind \<Rightarrow> elf_sec list \<Rightarrow> elf_seg list \<Rightarrow> nat \<Rightarrow> layout \<Rightarrow> bool" where
  "laid_out k secs segs lo ly \<longleftrightarrow> kept k secs (ly_secs ly) \<and> list_all2 (same_segment k) segs (ly_segs ly)
     \<and> lo \<le> unat (ly_pos ly) \<and> unat (ly_pos ly) < 2 ^ 62
     \<and> sections_placed k lo (unat (ly_pos ly)) (ly_secs ly) {..<length secs}"

lemma layout_result:
  assumes "is64 k" "sane_sections k secs" "\<forall>g\<in>set segs. sane_segment k secs g" "length segs < 2 ^ 16"
    and "list_all2 (same_segment k) segs hs" "unat pos < 2 ^ 32"
  shows "layout_segments k header (get_ordered_segments k hs)
        \<lparr>ly_pos = pos, ly_secs = secs, ly_segs = hs, ly_generated = replicate (length secs) False\<rparr> = Inl Layout_failed \<and> segs \<noteq> []
    \<or> (\<exists>ly. layout_segments k header (get_ordered_segments k hs)
        \<lparr>ly_pos = pos, ly_secs = secs, ly_segs = hs, ly_generated = replicate (length secs) False\<rparr> = Inr ly
        \<and> laid_out k secs segs (unat pos) (layout_sections_without_segments k ly))"
proof -
  let ?ly = "\<lparr>ly_pos = pos, ly_secs = secs, ly_segs = hs, ly_generated = replicate (length secs) False\<rparr>"
  let ?T = "unat pos + 2 * elf_bound * length secs + elf_bound * length segs"
  have n: "length secs < 2 ^ 16" using assms(2) by (simp add: sane_sections_def)
  have len: "length hs = length segs" using assms(5) by (simp add: list_all2_lengthD)
  have gen: "generated ?ly = {}" by (auto simp: generated_def)
  have bound: "elf_bound * length secs < 2 ^ 56" "elf_bound * length segs < 2 ^ 56"
    using n assms(4) by (simp_all add: elf_bound_def)
  have T: "?T < 2 ^ 63" "?T + 2 * elf_bound * length secs < 2 ^ 62"
    using bound assms(6) by (simp_all add: algebra_simps)
  have "kept k secs secs" using assms(2) by (auto simp: kept_def sane_sections_def sane_section_def same_section_refl)
  then have inv: "layout_inv k secs (unat pos) ?T (length (get_ordered_segments k hs)) ?ly"
    unfolding layout_inv_def gen by (simp add: sections_placed_def ordered_segments_set len)
  have wl: "set (get_ordered_segments k hs) \<subseteq> {..<length segs}" by (simp add: ordered_segments_set len)
  consider (bad) "layout_segments k header (get_ordered_segments k hs) ?ly = Inl Layout_failed"
    | (ok) ly where "layout_segments k header (get_ordered_segments k hs) ?ly = Inr ly" "layout_inv k secs (unat pos) ?T 0 ly"
      "list_all2 (same_segment k) segs (ly_segs ly)"
      "generated ly = (\<Union>n\<in>{..<length segs}. unat ` set (ph_sections (segs ! n)))"
    using layout_segments_inv [OF assms(1,2) T(1) assms(3) wl inv, of header] assms(5) gen
    by (auto simp: ordered_segments_set len)
  then show ?thesis
  proof cases
    case bad
    then have "get_ordered_segments k hs \<noteq> []" by auto
    then have "segs \<noteq> []" using ordered_segments_set(2) [of k hs] len by auto
    with bad show ?thesis by simp
  next
    case (ok ly)
    let ?T2 = "?T + 2 * elf_bound * length secs"
    have "alone_inv k secs (unat pos) ?T2 (generated ly) (ly_segs ly) 0 ly"
      using ok(2) by (simp add: alone_inv_def layout_inv_def)
    moreover have "?T2 < 2 ^ 63" using T(2) by simp
    ultimately have fin: "alone_inv k secs (unat pos) ?T2 (generated ly) (ly_segs ly) (length secs)
        (layout_sections_without_segments k ly)"
      using layout_all_alone [OF assms(1,2)] by blast
    have "i \<in> generated ly" if "\<not> is_section_without_segment (ly_segs ly) i" for i
    proof -
      from that obtain g j where g: "g \<in> set (ly_segs ly)" "j \<in> set (ph_sections g)" "unat j = i"
        by (auto simp: is_section_without_segment_def)
      then obtain n where "n < length segs" "g = ly_segs ly ! n" using ok(3)
        by (metis in_set_conv_nth list_all2_lengthD)
      with ok(3) g have "ph_sections (segs ! n) = ph_sections g" by (auto dest: list_all2_nthD simp: same_segment_def)
      with g(2,3) have "i \<in> unat ` set (ph_sections (segs ! n))" by auto
      with \<open>n < length segs\<close> show ?thesis unfolding ok(4) by blast
    qed
    then have "{..<length secs} \<subseteq> generated ly \<union> {i. i < length secs \<and> is_section_without_segment (ly_segs ly) i}" by auto
    with fin T(2) ok(1,3) show ?thesis
      by (auto simp: alone_inv_def laid_out_def elim: sections_placed_mono)
  qed
qed

end
