(* ===== verification/Elf_Roundtrip.thy ===== *)
theory Elf_Roundtrip
  imports Elf_Layout
begin

text \<open>
  Saving and loading an ELF file: \<open>load\<close> reads back the sections that \<open>save\<close> wrote; and the layout
  that \<open>save\<close> refuses, a section that has grown over the next one of its segment.
\<close>

section \<open>The file\<close>

text \<open>
  A file in memory that \<open>save\<close> can write and \<open>load\<close> can read: a 64-bit header, tables of the usual
  entry sizes, numbers below the bounds, and names that are those of the string table.
\<close>

definition saveable :: "elfio \<Rightarrow> bool" where
  "saveable r \<longleftrightarrow>
     (let k = el_kind r; h = el_header r
      in is64 k \<and> length h = 64 \<and> take 4 h = [0x7F, 0x45, 0x4C, 0x46] \<and> h ! 4 = ELFCLASS64
       \<and> (h ! 5 = ELFDATA2LSB \<or> h ! 5 = ELFDATA2MSB) \<and> k = setup_kind (h ! 4) (h ! 5)
       \<and> get_half k h e_ehsize = 64 \<and> get_half k h e_phentsize = 56 \<and> get_half k h e_shentsize = 64
       \<and> sane_sections k (el_sections r) \<and> length (el_segments r) < 2 ^ 16
       \<and> (\<forall>j<length (el_segments r). sane_segment k (el_sections r) (el_segments r ! j) \<and> ph_index (el_segments r ! j) = word_of_nat j)
       \<and> (\<forall>s\<in>set (el_sections r). sh_title s = file_names k h (el_sections r) s))"

text \<open>Everything that is read from a section, except its place in the file.\<close>

definition reads_as :: "elf_kind \<Rightarrow> elf_sec \<Rightarrow> elf_sec \<Rightarrow> bool" where
  "reads_as k s t \<longleftrightarrow> set_wide k sh_offset 0 (sh_header t) = set_wide k sh_offset 0 (sh_header s)
     \<and> sec_contents k t = sec_contents k s \<and> sh_title t = sh_title s"

lemma same_section_reads: "same_section k s t \<Longrightarrow> reads_as k s t"
  using same_section_contents(3) [of k s t] same_section_getters(7) [of k s t]
  by (auto simp: reads_as_def same_section_def set_sec_offset_def dest: arg_cong [where f = sh_header])

definition saved_header :: "elfio \<Rightarrow> u64 \<Rightarrow> bytes" where
  "saved_header r shoff =
     (let k = el_kind r;
          header = set_half k e_phnum (word_of_nat (length (el_segments r))) (el_header r);
          header = set_wide k e_phoff (if el_segments r \<noteq> [] then ucast (get_half k header e_ehsize) else 0) header
      in set_wide k e_shoff shoff (set_half k e_shnum (word_of_nat (length (el_sections r))) header))"

lemma saved_header_fields:
  assumes "saveable r"
  defines "k \<equiv> el_kind r"
  shows "length (saved_header r x) = 64" "get_half k (saved_header r x) f = get_half k (el_header r) f
      \<or> f \<notin> {e_ehsize, e_phentsize, e_shentsize, e_shstrndx}"
    "get_half k (saved_header r x) e_phnum = word_of_nat (length (el_segments r))"
    "get_half k (saved_header r x) e_shnum = word_of_nat (length (el_sections r))"
    "get_wide k (saved_header r x) e_phoff = (if el_segments r \<noteq> [] then 64 else 0)"
    "get_wide k (saved_header r x) e_shoff = x" "set_wide k e_shoff y (saved_header r x) = saved_header r y"
    "take 32 (saved_header r x) = take 32 (el_header r)"
proof -
  from assms have h: "is64 k" "length (el_header r) = 64" "get_half k (el_header r) e_ehsize = 64"
    unfolding k_def saveable_def Let_def by blast+
  note fields = ehdr_fields field_pos_def wide_size_def h
  have piece32: "piece (set_half k g y b) 0 32 = piece b 0 32" if "length b = 64" "g \<in> {e_phnum, e_shnum}" for g y b
    using that by (intro piece_set_other) (auto simp: fields)
  have piece32': "piece (set_wide k g y b) 0 32 = piece b 0 32" if "length b = 64" "g \<in> {e_phoff, e_shoff}" for g y b
    using that by (intro piece_set_other) (auto simp: fields)
  have half: "get_half k (set_half k g y b) f = get_half k b f"
    if "length b = 64" "g \<in> {e_phnum, e_shnum}" "f \<in> {e_ehsize, e_phentsize, e_shentsize, e_shstrndx, e_phnum, e_shnum}" "f \<noteq> g" for f g y b
    using that by (intro get_cong piece_set_other) (auto simp: fields)
  have half': "get_half k (set_wide k g y b) f = get_half k b f"
    if "length b = 64" "g \<in> {e_phoff, e_shoff}" "f \<in> {e_ehsize, e_phentsize, e_shentsize, e_shstrndx, e_phnum, e_shnum}" for f g y b
    using that by (intro get_cong piece_set_other) (auto simp: fields)
  have wide: "get_wide k (set_half k g y b) f = get_wide k b f"
    if "length b = 64" "g \<in> {e_phnum, e_shnum}" "f \<in> {e_phoff, e_shoff}" for f g y b
    using that by (intro get_cong piece_set_other) (auto simp: fields)
  have wide': "get_wide k (set_wide k e_shoff y b) e_phoff = get_wide k b e_phoff" if "length b = 64" for y b
    using that by (intro get_cong piece_set_other) (auto simp: fields)
  have len: "length (set_half k g y b) = 64" if "length b = 64" "g \<in> {e_phnum, e_shnum}" for g y b
    using that by (subst length_set) (auto simp: fields)
  have len': "length (set_wide k g y b) = 64" if "length b = 64" "g \<in> {e_phoff, e_shoff}" for g y b
    using that by (subst length_set) (auto simp: fields)
  have same: "get_half k (set_half k g y b) g = y" if "length b = 64" "g \<in> {e_phnum, e_shnum}" for g y b
    using that by (subst get_set_same) (auto simp: fields)
  have same': "get_wide k (set_wide k g y b) g = y" if "length b = 64" "g \<in> {e_phoff, e_shoff}" for g y b
    using that by (subst get_set_same) (auto simp: fields)
  have ne: "e_phnum \<noteq> e_shnum" "e_ehsize \<noteq> e_phnum" "e_phentsize \<noteq> e_phnum" "e_shentsize \<noteq> e_phnum" "e_shstrndx \<noteq> e_phnum"
    "e_ehsize \<noteq> e_shnum" "e_phentsize \<noteq> e_shnum" "e_shentsize \<noteq> e_shnum" "e_shstrndx \<noteq> e_shnum" by (simp_all add: ehdr_fields)
  note rules = len len' half half' wide wide' same same' ne ne [symmetric] h(2,3)
  have def: "saved_header r y = set_wide k e_shoff y (set_half k e_shnum (word_of_nat (length (el_sections r)))
      (set_wide k e_phoff (if el_segments r \<noteq> [] then 64 else 0)
        (set_half k e_phnum (word_of_nat (length (el_segments r))) (el_header r))))" for y
    unfolding saved_header_def Let_def k_def [symmetric] by (simp add: rules)
  show "length (saved_header r x) = 64" unfolding def by (simp add: rules)
  show "get_half k (saved_header r x) f = get_half k (el_header r) f
      \<or> f \<notin> {e_ehsize, e_phentsize, e_shentsize, e_shstrndx}" unfolding def by (auto simp: rules)
  show "get_half k (saved_header r x) e_phnum = word_of_nat (length (el_segments r))" unfolding def by (simp add: rules)
  show "get_half k (saved_header r x) e_shnum = word_of_nat (length (el_sections r))" unfolding def by (simp add: rules)
  show "get_wide k (saved_header r x) e_phoff = (if el_segments r \<noteq> [] then 64 else 0)" unfolding def by (simp add: rules)
  show "get_wide k (saved_header r x) e_shoff = x" unfolding def by (simp add: rules)
  show "set_wide k e_shoff y (saved_header r x) = saved_header r y"
    unfolding def by (rule set_set) (simp add: rules, simp add: fields)
  have "piece (saved_header r x) 0 32 = piece (el_header r) 0 32" unfolding def by (simp add: rules piece32 piece32')
  then show "take 32 (saved_header r x) = take 32 (el_header r)" by (simp add: piece_def)
qed

lemma section_table_pos_bounds:
  assumes "unat p < 2 ^ 62"
  shows "unat p \<le> unat (section_table_pos p)" "unat (section_table_pos p) \<le> unat p + 3"
proof -
  have "unat ((4 - p mod 4) mod 4) < 4" by (simp add: unat_mod)
  moreover from this assms have "unat (section_table_pos p) = unat p + unat ((4 - p mod 4) mod 4)"
    unfolding section_table_pos_def by (intro unat_add_u64) simp
  ultimately show "unat p \<le> unat (section_table_pos p)" "unat (section_table_pos p) \<le> unat p + 3" by simp_all
qed

text \<open>The table entries of sections and segments.\<close>

lemma table_entry:
  assumes "unat x < 2 ^ 63" "i < 2 ^ 16" "unat (e :: u16) \<le> 64"
  shows "unat (x + ucast e * ucast (word_of_nat i :: u16) :: u64) = unat x + unat e * i"
proof -
  have i: "unat (ucast (word_of_nat i :: u16) :: u64) = i"
    using assms(2) by (simp add: unsigned_ucast_eq unsigned_of_nat take_bit_nat_eq_self)
  have e: "unat (ucast e :: u64) = unat e" using assms(3) by (simp add: unsigned_ucast_eq take_bit_nat_eq_self)
  have le: "unat e * i \<le> 64 * 2 ^ 16" using assms(2,3) by (intro mult_le_mono) simp_all
  then have m: "unat (ucast e * ucast (word_of_nat i :: u16) :: u64) = unat e * i"
    by (subst unat_mult_lem [THEN iffD1]) (simp_all add: i e)
  show ?thesis using assms(1) le by (subst unat_add_u64) (simp_all add: m)
qed

text \<open>All that is written, in order.\<close>

definition all_writes :: "elf_kind \<Rightarrow> bytes \<Rightarrow> elf_sec list \<Rightarrow> elf_seg list \<Rightarrow> (nat \<times> bytes) list" where
  "all_writes k header secs segs =
     (0, header) # concat (map (section_writes k header) secs) @ concat (map (segment_writes k header) segs)"

lemma sorted_wrt_three:
  assumes "sorted_wrt P xs" "sorted_wrt P ys" "\<And>a. a \<in> set xs \<Longrightarrow> P z a" "\<And>b. b \<in> set ys \<Longrightarrow> P z b"
    and "\<And>a b. a \<in> set xs \<Longrightarrow> b \<in> set ys \<Longrightarrow> P a b"
  shows "sorted_wrt P (z # xs @ ys)"
  using assms by (auto simp: sorted_wrt_append)

lemma all_writes_clear:
  assumes "is64 k" "length header = 64" "lo = 64 + 56 * length segs" "length secs < 2 ^ 16"
    and "\<forall>i<length secs. length (sh_header (secs ! i)) = 64 \<and> has_data k (secs ! i)
      \<and> unat (section_pos k header (secs ! i)) = unat x + 64 * i"
    and "sections_placed k lo hi secs {..<length secs}" "lo \<le> hi" "hi \<le> unat x"
    and "\<forall>j<length segs. \<exists>h. segment_writes k header (segs ! j) = [(64 + 56 * j, h)] \<and> length h = 56"
  shows "sorted_wrt clear_of (all_writes k header secs segs)"
proof -
  have sec: "section_writes k header (secs ! i) = (unat x + 64 * i, sh_header (secs ! i))
      # (if occupies k (secs ! i) then [(unat (sec_offset_of k (secs ! i)), sec_contents k (secs ! i))] else [])" if "i < length secs" for i
    using assms(5) that by (simp add: section_writes_def)
  have data: "lo \<le> unat (sec_offset_of k (secs ! i))" "unat (sec_offset_of k (secs ! i)) + length (sec_contents k (secs ! i)) \<le> hi"
    if "i < length secs" "occupies k (secs ! i)" for i
    using assms(5,6) that by (auto simp: sections_placed_def length_sec_contents)
  have apart: "clear_of (unat (sec_offset_of k (secs ! i)), sec_contents k (secs ! i)) (unat (sec_offset_of k (secs ! j)), sec_contents k (secs ! j))"
    if "i < length secs" "j < length secs" "i \<noteq> j" "occupies k (secs ! i)" "occupies k (secs ! j)" for i j
    using assms(5,6) that by (simp add: sections_placed_def clear_of_def length_sec_contents)
  have x: "sorted_wrt clear_of (concat (map (section_writes k header) secs))"
  proof (rule sorted_wrt_concat)
    fix s assume "s \<in> set secs"
    then obtain i where i: "i < length secs" "s = secs ! i" by (auto simp: in_set_conv_nth)
    then show "sorted_wrt clear_of (section_writes k header s)"
      using data [of i] assms(8) by (auto simp: sec clear_of_def)
  next
    show "sorted_wrt (\<lambda>x y. \<forall>a\<in>set (section_writes k header x). \<forall>b\<in>set (section_writes k header y). clear_of a b) secs"
      unfolding sorted_wrt_iff_nth_less
    proof (intro allI impI ballI)
      fix i j a b
      assume ij: "i < j" "j < length secs" and a: "a \<in> set (section_writes k header (secs ! i))"
        and b: "b \<in> set (section_writes k header (secs ! j))"
      then have "i < length secs" "i \<noteq> j" by simp_all
      then consider "a = (unat x + 64 * i, sh_header (secs ! i))" "b = (unat x + 64 * j, sh_header (secs ! j))"
        | "a = (unat x + 64 * i, sh_header (secs ! i))" "b = (unat (sec_offset_of k (secs ! j)), sec_contents k (secs ! j))" "occupies k (secs ! j)"
        | "a = (unat (sec_offset_of k (secs ! i)), sec_contents k (secs ! i))" "occupies k (secs ! i)" "b = (unat x + 64 * j, sh_header (secs ! j))"
        | "a = (unat (sec_offset_of k (secs ! i)), sec_contents k (secs ! i))" "occupies k (secs ! i)"
          "b = (unat (sec_offset_of k (secs ! j)), sec_contents k (secs ! j))" "occupies k (secs ! j)"
        using a b ij sec [of i] sec [of j] by (auto split: if_splits)
      then show "clear_of a b"
      proof cases
        case 1
        then show ?thesis using assms(5) ij by (simp add: clear_of_def)
      next
        case 2
        then show ?thesis using data [of j] ij assms(8) by (simp add: clear_of_def)
      next
        case 3
        then show ?thesis using data [of i] ij assms(8) by (simp add: clear_of_def)
      next
        case 4
        then show ?thesis using apart [of i j] ij by simp
      qed
    qed
  qed
  have y: "sorted_wrt clear_of (concat (map (segment_writes k header) segs))"
  proof (rule sorted_wrt_concat)
    fix g assume "g \<in> set segs"
    with assms(9) show "sorted_wrt clear_of (segment_writes k header g)" by (auto simp: in_set_conv_nth)
  next
    show "sorted_wrt (\<lambda>x y. \<forall>a\<in>set (segment_writes k header x). \<forall>b\<in>set (segment_writes k header y). clear_of a b) segs"
      unfolding sorted_wrt_iff_nth_less
    proof (intro allI impI ballI)
      fix i j a b
      assume ij: "i < j" "j < length segs" and ab: "a \<in> set (segment_writes k header (segs ! i))"
        "b \<in> set (segment_writes k header (segs ! j))"
      then have "i < length segs" by simp
      with assms(9) obtain h where h: "segment_writes k header (segs ! i) = [(64 + 56 * i, h)]" "length h = 56" by blast
      from assms(9) ij(2) obtain h' where "segment_writes k header (segs ! j) = [(64 + 56 * j, h')]" by blast
      with h ab ij(1) show "clear_of a b" by (simp add: clear_of_def)
    qed
  qed
  have S: "64 \<le> fst a \<and> lo \<le> fst a" if "a \<in> set (concat (map (section_writes k header) secs))" for a
  proof -
    from that obtain s where "s \<in> set secs" "a \<in> set (section_writes k header s)" by auto
    then obtain i where i: "i < length secs" "a \<in> set (section_writes k header (secs ! i))"
      by (metis in_set_conv_nth)
    then have "lo \<le> fst a" using data [of i] assms(7,8) by (auto simp: sec split: if_splits)
    then show ?thesis using assms(3) by simp
  qed
  have G: "64 \<le> fst b \<and> fst b + length (snd b) \<le> lo" if "b \<in> set (concat (map (segment_writes k header) segs))" for b
  proof -
    from that obtain g where "g \<in> set segs" "b \<in> set (segment_writes k header g)" by auto
    then obtain j where j: "j < length segs" "b \<in> set (segment_writes k header (segs ! j))"
      by (metis in_set_conv_nth)
    with assms(9) obtain h where "b = (64 + 56 * j, h)" "length h = 56" by force
    then show ?thesis using j(1) assms(3) by simp
  qed
  have first: "clear_of (0, header) a" if "64 \<le> fst a" for a using that assms(2) by (simp add: clear_of_def)
  show ?thesis
    unfolding all_writes_def
  proof (rule sorted_wrt_three [OF x y])
    show "clear_of (0, header) a" if "a \<in> set (concat (map (section_writes k header) secs))" for a
      using first S [OF that] by blast
    show "clear_of (0, header) b" if "b \<in> set (concat (map (segment_writes k header) segs))" for b
      using first G [OF that] by blast
    show "clear_of a b" if "a \<in> set (concat (map (section_writes k header) secs))"
      "b \<in> set (concat (map (segment_writes k header) segs))" for a b
      using S [OF that(1)] G [OF that(2)] unfolding clear_of_def by linarith
  qed
qed

lemma save_unfold:
  assumes "saveable r"
  defines "k \<equiv> el_kind r"
  shows "save r = rbind (calc_segment_alignment k (el_sections r) (el_segments r)) (\<lambda>segs.
     rbind (layout_segments k (saved_header r 0) (get_ordered_segments k segs)
       \<lparr>ly_pos = 64 + ucast (56 :: u16) * ucast (word_of_nat (length (el_segments r)) :: u16), ly_secs = el_sections r,
         ly_segs = segs, ly_generated = replicate (length (el_sections r)) False\<rparr>) (\<lambda>ly.
     let ly = layout_sections_without_segments k ly; header = saved_header r (section_table_pos (ly_pos ly))
     in rbind (save_sections k header (ly_secs ly) (write_file 0 header [])) (\<lambda>(secs, file).
        Inr (\<lparr>el_kind = k, el_header = header, el_sections = secs, el_segments = ly_segs ly\<rparr>,
             fold (save_segment k header) (ly_segs ly) file))))"
proof -
  note f = saved_header_fields [OF assms(1), folded k_def]
  have sizes: "get_half k (saved_header r 0) e_ehsize = 64" "get_half k (saved_header r 0) e_phentsize = 56"
    using f(2) [of 0 e_ehsize] f(2) [of 0 e_phentsize] assms(1) by (auto simp: saveable_def Let_def k_def)
  have h: "set_wide k e_shoff 0 (set_half k e_shnum (word_of_nat (length (el_sections r)))
        (set_wide k e_phoff (if el_segments r \<noteq> []
            then ucast (get_half k (set_half k e_phnum (word_of_nat (length (el_segments r))) (el_header r)) e_ehsize) else 0)
          (set_half k e_phnum (word_of_nat (length (el_segments r))) (el_header r)))) = saved_header r 0"
    by (simp add: saved_header_def Let_def k_def)
  show ?thesis
    unfolding save_def k_def [symmetric] Let_def h sizes f(3,7) by simp
qed

lemma file_names_same:
  assumes "get_half k h e_shstrndx = get_half k h' e_shstrndx" "length xs = length ys"
    and "\<forall>i<length xs. sec_contents k (ys ! i) = sec_contents k (xs ! i)"
    and "get_word k (sh_header t) sh_name = get_word k (sh_header s) sh_name"
  shows "file_names k h' ys t = file_names k h xs s"
  using assms by (auto simp: file_names_def section_name_def section_at_def Let_def)

text \<open>The places of the tables in the file.\<close>

lemma saveable_facts:
  assumes "saveable r"
  shows "is64 (el_kind r)" "length (el_header r) = 64" "take 4 (el_header r) = [0x7F, 0x45, 0x4C, 0x46]"
    "el_header r ! 4 = ELFCLASS64" "el_header r ! 5 = ELFDATA2LSB \<or> el_header r ! 5 = ELFDATA2MSB"
    "el_kind r = setup_kind (el_header r ! 4) (el_header r ! 5)" "get_half (el_kind r) (el_header r) e_phentsize = 56"
    "get_half (el_kind r) (el_header r) e_shentsize = 64" "sane_sections (el_kind r) (el_sections r)"
    "length (el_segments r) < 2 ^ 16"
    "\<forall>j<length (el_segments r). sane_segment (el_kind r) (el_sections r) (el_segments r ! j) \<and> ph_index (el_segments r ! j) = word_of_nat j"
    "\<forall>s\<in>set (el_sections r). sh_title s = file_names (el_kind r) (el_header r) (el_sections r) s"
    "length (el_sections r) < 2 ^ 16"
  using assms unfolding saveable_def Let_def sane_sections_def by blast+

definition layout_header :: "elfio \<Rightarrow> layout \<Rightarrow> bytes" where
  "layout_header r ly = saved_header r (section_table_pos (ly_pos ly))"

lemma layout_header_fields:
  fixes r :: elfio and ly :: layout
  assumes "saveable r"
  defines "k \<equiv> el_kind r" and "h \<equiv> layout_header r ly"
  shows "length h = 64" "take 4 h = [0x7F, 0x45, 0x4C, 0x46]" "h ! 4 = el_header r ! 4" "h ! 5 = el_header r ! 5"
    "get_half k h e_phentsize = 56" "get_half k h e_shentsize = 64" "get_half k h e_shstrndx = get_half k (el_header r) e_shstrndx"
    "get_half k h e_shnum = word_of_nat (length (el_sections r))"
    "el_segments r \<noteq> [] \<Longrightarrow> get_wide k h e_phoff = 64" "get_wide k h e_shoff = section_table_pos (ly_pos ly)"
proof -
  note r = saveable_facts [OF assms(1), folded k_def]
  note f = saved_header_fields [OF assms(1), of "section_table_pos (ly_pos ly)", folded layout_header_def, folded k_def, folded h_def]
  show "length h = 64" by (rule f(1))
  have "take 4 (take 32 h) = take 4 (take 32 (el_header r))" "take 32 h ! 4 = take 32 (el_header r) ! 4"
    "take 32 h ! 5 = take 32 (el_header r) ! 5" by (simp_all only: f(8))
  then show "take 4 h = [0x7F, 0x45, 0x4C, 0x46]" "h ! 4 = el_header r ! 4" "h ! 5 = el_header r ! 5"
    using r(3) by simp_all
  show "get_half k h e_phentsize = 56" "get_half k h e_shentsize = 64" "get_half k h e_shstrndx = get_half k (el_header r) e_shstrndx"
    using f(2) [of e_phentsize] f(2) [of e_shentsize] f(2) [of e_shstrndx] r(7,8) by auto
  show "get_half k h e_shnum = word_of_nat (length (el_sections r))" "get_wide k h e_shoff = section_table_pos (ly_pos ly)" by (rule f)+
  show "el_segments r \<noteq> [] \<Longrightarrow> get_wide k h e_phoff = 64" using f(5) by simp
qed

lemma laid_out_places:
  fixes r :: elfio and ly :: layout
  assumes "saveable r" "laid_out (el_kind r) (el_sections r) (el_segments r) (64 + 56 * length (el_segments r)) ly"
  defines "k \<equiv> el_kind r" and "h \<equiv> layout_header r ly"
  shows "\<And>i. i < length (el_sections r) \<Longrightarrow> same_section k (el_sections r ! i) (ly_secs ly ! i) \<and> length (sh_header (ly_secs ly ! i)) = 64
      \<and> has_data k (ly_secs ly ! i) \<and> unat (section_pos k h (ly_secs ly ! i)) = unat (section_table_pos (ly_pos ly)) + 64 * i"
    "\<And>j. j < length (el_segments r) \<Longrightarrow> \<exists>g. segment_writes k h (ly_segs ly ! j) = [(64 + 56 * j, g)] \<and> length g = 56"
    "length (ly_secs ly) = length (el_sections r)" "length (ly_segs ly) = length (el_segments r)"
proof -
  note r = saveable_facts [OF assms(1), folded k_def] and f = layout_header_fields [OF assms(1), folded k_def, of ly, folded h_def]
  from assms(2) have ly: "kept k (el_sections r) (ly_secs ly)" "list_all2 (same_segment k) (el_segments r) (ly_segs ly)"
    "unat (ly_pos ly) < 2 ^ 62" by (simp_all add: laid_out_def k_def)
  show "length (ly_secs ly) = length (el_sections r)" "length (ly_segs ly) = length (el_segments r)"
    using ly(1,2) by (auto simp: kept_def list_all2_lengthD)
  have X: "unat (section_table_pos (ly_pos ly)) < 2 ^ 63" using section_table_pos_bounds(2) [OF ly(3)] ly(3) by simp
  fix i assume i: "i < length (el_sections r)"
  with table_entry [OF X, of i 64] sane_at [OF r(9) ly(1) i] r(1,13)
  show "same_section k (el_sections r ! i) (ly_secs ly ! i) \<and> length (sh_header (ly_secs ly ! i)) = 64
      \<and> has_data k (ly_secs ly ! i) \<and> unat (section_pos k h (ly_secs ly ! i)) = unat (section_table_pos (ly_pos ly)) + 64 * i"
    by (simp add: section_pos_def f(6,10) sane_section_def shdr_size_def)
next
  note r = saveable_facts [OF assms(1), folded k_def] and f = layout_header_fields [OF assms(1), folded k_def, of ly, folded h_def]
  fix j assume j: "j < length (el_segments r)"
  with assms(2) have g: "same_segment k (el_segments r ! j) (ly_segs ly ! j)"
    by (auto simp: laid_out_def k_def dest: list_all2_nthD)
  have idx: "ph_index (ly_segs ly ! j) = word_of_nat j" using g j r(11) by (simp add: same_segment_def)
  have len: "length (set_wide k p_offset x (ph_header (ly_segs ly ! j))) = 56" for x
    using g r(1) by (simp add: same_segment_def phdr_size_def p_offset_def field_pos_def wide_size_def)
  have "unat (64 + ucast (56 :: u16) * ucast (word_of_nat j :: u16) :: u64) = 64 + 56 * j"
    using table_entry [of 64 j 56] j r(10) by simp
  moreover have "get_wide k h e_phoff = 64" using j by (intro f(9)) auto
  ultimately show "\<exists>g. segment_writes k h (ly_segs ly ! j) = [(64 + 56 * j, g)] \<and> length g = 56"
    by (simp add: segment_writes_def f(5) idx len)
qed

lemma in_all_writes:
  assumes "(p, b) \<in> set (all_writes k h secs segs)"
  obtains "p = 0" "b = h" | i where "i < length secs" "p = unat (section_pos k h (secs ! i))" "b = sh_header (secs ! i)"
    | i where "i < length secs" "occupies k (secs ! i)" "p = unat (sec_offset_of k (secs ! i))" "b = sec_contents k (secs ! i)"
    | j where "j < length segs" "(p, b) \<in> set (segment_writes k h (segs ! j))"
proof -
  from assms consider "p = 0" "b = h" | s where "s \<in> set secs" "(p, b) \<in> set (section_writes k h s)"
    | g where "g \<in> set segs" "(p, b) \<in> set (segment_writes k h g)" by (auto simp: all_writes_def)
  then show ?thesis
  proof cases
    case (2 s)
    then obtain i where "i < length secs" "s = secs ! i" by (metis in_set_conv_nth)
    with 2 that(2,3) show ?thesis by (auto simp: section_writes_def split: if_splits)
  next
    case (3 g)
    then obtain j where "j < length segs" "g = segs ! j" by (metis in_set_conv_nth)
    with 3 that(4) show ?thesis by blast
  qed (rule that(1))
qed

lemma laid_out_file:
  fixes r :: elfio and ly :: layout
  assumes "saveable r" "laid_out (el_kind r) (el_sections r) (el_segments r) (64 + 56 * length (el_segments r)) ly"
  defines "k \<equiv> el_kind r" and "h \<equiv> layout_header r ly"
  defines "out \<equiv> fill (all_writes k h (ly_secs ly) (ly_segs ly)) []"
  shows "length out < 2 ^ 64" "\<And>p b. (p, b) \<in> set (all_writes k h (ly_secs ly) (ly_segs ly)) \<Longrightarrow>
      p + length b \<le> length out \<and> piece out p (length b) = b"
proof -
  note r = saveable_facts [OF assms(1), folded k_def] and f = layout_header_fields [OF assms(1), folded k_def, of ly, folded h_def]
    and pl = laid_out_places [OF assms(1,2), folded k_def, folded h_def]
  from assms(2) have ly: "64 + 56 * length (el_segments r) \<le> unat (ly_pos ly)" "unat (ly_pos ly) < 2 ^ 62"
    "sections_placed k (64 + 56 * length (el_segments r)) (unat (ly_pos ly)) (ly_secs ly) {..<length (el_sections r)}"
    by (simp_all add: laid_out_def k_def)
  note X = section_table_pos_bounds [OF ly(2)]
  have "sorted_wrt clear_of (all_writes k h (ly_secs ly) (ly_segs ly))"
    by (rule all_writes_clear [OF r(1) f(1) refl _ _ _ _ X(1)]) (use pl r(13) ly in simp_all)
  then show "p + length b \<le> length out \<and> piece out p (length b) = b"
    if "(p, b) \<in> set (all_writes k h (ly_secs ly) (ly_segs ly))" for p b
    unfolding out_def using that by (rule fill_pieces)
  have "p + length b \<le> 2 ^ 63" if "(p, b) \<in> set (all_writes k h (ly_secs ly) (ly_segs ly))" for p b
    using that
  proof (cases rule: in_all_writes)
    case 1
    then show ?thesis using f(1) by simp
  next
    case (2 i)
    then show ?thesis using pl(1) [of i] pl(3) X(2) ly(2) r(13) by simp
  next
    case (3 i)
    then show ?thesis using pl(1) [of i] pl(3) ly(2,3) by (auto simp: sections_placed_def length_sec_contents)
  next
    case (4 j)
    then obtain g where "p = 64 + 56 * j" "length b = 56" using pl(2) [of j] pl(4) by auto
    then show ?thesis using 4(1) pl(4) r(10) by simp
  qed
  then have "length out \<le> 2 ^ 63" unfolding out_def by (intro length_fill) auto
  then show "length out < 2 ^ 64" by simp
qed

text \<open>A section of the file, as \<open>load\<close> finds it.\<close>

lemma laid_out_section:
  fixes r :: elfio and ly :: layout
  assumes "saveable r" "laid_out (el_kind r) (el_sections r) (el_segments r) (64 + 56 * length (el_segments r)) ly"
    and j: "j < length (el_sections r)"
  defines "k \<equiv> el_kind r" and "h \<equiv> layout_header r ly"
  defines "out \<equiv> fill (all_writes k h (ly_secs ly) (ly_segs ly)) []"
  shows "section_in k out (unat (section_table_pos (ly_pos ly)) + j * 64) (sh_header (ly_secs ly ! j))
    \<and> data_in k out (sh_header (ly_secs ly ! j)) = sec_contents k (ly_secs ly ! j)"
proof -
  let ?s = "ly_secs ly ! j" and ?c = "header_sec k (sh_header (ly_secs ly ! j))" and ?X = "unat (section_table_pos (ly_pos ly))"
  note is64 = saveable_facts(1) [OF assms(1), folded k_def]
    and pl = laid_out_places(1) [OF assms(1,2) j, folded k_def, folded h_def] laid_out_places(3) [OF assms(1,2)]
    and written = laid_out_file(2) [OF assms(1,2), folded k_def, folded h_def, folded out_def]
  have eq: "occupies k ?c = occupies k ?s" "sec_offset_of k ?c = sec_offset_of k ?s" "sec_size_of k ?c = sec_size_of k ?s"
    by (rule getters_cong; simp add: header_sec_def)+
  have writes: "set (section_writes k h ?s) \<subseteq> set (all_writes k h (ly_secs ly) (ly_segs ly))"
    using j pl(2) by (auto simp: all_writes_def)
  have "(?X + 64 * j, sh_header ?s) \<in> set (section_writes k h ?s)" using pl by (simp add: section_writes_def)
  with writes have "(?X + 64 * j, sh_header ?s) \<in> set (all_writes k h (ly_secs ly) (ly_segs ly))" by blast
  from written [OF this] have header: "?X + 64 * j + 64 \<le> length out" "piece out (?X + 64 * j) 64 = sh_header ?s"
    using pl(1) by simp_all
  have data: "unat (sec_offset_of k ?s) + unat (sec_size_of k ?s) \<le> length out
      \<and> piece out (unat (sec_offset_of k ?s)) (unat (sec_size_of k ?s)) = sec_contents k ?s
      \<and> 64 \<le> unat (sec_offset_of k ?s) \<and> unat (sec_offset_of k ?s) < 2 ^ 63" if "occupies k ?s"
  proof -
    have "(unat (sec_offset_of k ?s), sec_contents k ?s) \<in> set (section_writes k h ?s)" using that by (simp add: section_writes_def)
    with writes have "(unat (sec_offset_of k ?s), sec_contents k ?s) \<in> set (all_writes k h (ly_secs ly) (ly_segs ly))" by blast
    from written [OF this] length_sec_contents [of k ?s] pl assms(2) j that show ?thesis
      by (auto simp: sections_placed_def laid_out_def k_def)
  qed
  have "sec_contents k ?s = []" if "\<not> occupies k ?s" using that by (simp add: sec_contents_def)
  with data header pl is64 show ?thesis
    by (auto simp: section_in_def data_in_def eq shdr_size_def mult.commute)
qed

lemma laid_out_loads:
  fixes r :: elfio and ly :: layout
  assumes "saveable r" "laid_out (el_kind r) (el_sections r) (el_segments r) (64 + 56 * length (el_segments r)) ly"
  defines "k \<equiv> el_kind r" and "h \<equiv> layout_header r ly"
  defines "out \<equiv> fill (all_writes k h (ly_secs ly) (ly_segs ly)) []"
  shows "\<exists>r2. load u v (open_stream memory out) = (True, r2) \<and> el_kind r2 = k
    \<and> list_all2 (reads_as k) (el_sections r) (el_sections r2)"
proof -
  let ?n = "length (el_sections r)" and ?secs = "ly_secs ly"
  note r = saveable_facts [OF assms(1), folded k_def] and f = layout_header_fields [OF assms(1), folded k_def, of ly, folded h_def]
    and pl = laid_out_places(1) [OF assms(1,2), folded k_def, folded h_def]
    and written = laid_out_file [OF assms(1,2), folded k_def, folded h_def, folded out_def]
    and sec = laid_out_section [OF assms(1,2), folded k_def, folded h_def, folded out_def]
  have "(0, h) \<in> set (all_writes k h ?secs (ly_segs ly))" by (simp add: all_writes_def)
  from written(2) [OF this] f(1) have head: "64 \<le> length out" "piece out 0 64 = h" by simp_all
  have "unat (section_table_pos (ly_pos ly)) < 2 ^ 63"
    using section_table_pos_bounds(2) [of "ly_pos ly"] assms(2) by (simp add: laid_out_def)
  moreover have "unat (get_half k h e_shnum) = ?n" "unat (get_half k h e_shentsize) = 64"
    using r(13) by (simp_all add: f(6,8) unsigned_of_nat take_bit_nat_eq_self)
  ultimately obtain r2 where r2: "load u v (open_stream memory out) = (True, r2)" "el_kind r2 = k" "length (el_sections r2) = ?n"
      "\<forall>j<?n. sh_header (el_sections r2 ! j) = sh_header (?secs ! j) \<and> sec_contents k (el_sections r2 ! j) = data_in k out (sh_header (?secs ! j))
         \<and> sh_title (el_sections r2 ! j) = file_names k h (el_sections r2) (el_sections r2 ! j)"
    using load_in [OF r(1) written(1) head(2,1) f(2), where start = "unat (section_table_pos (ly_pos ly))" and e = 64 and n = ?n
        and hs = "\<lambda>j. sh_header (?secs ! j)" and u = u and v = v and m = memory] sec r(4,5,6) f(3,4,10)
    by auto
  have cont: "sec_contents k (el_sections r2 ! j) = sec_contents k (el_sections r ! j)" if "j < ?n" for j
    using r2(4) sec [OF that] that same_section_contents(3) pl [OF that] by simp
  have "reads_as k (el_sections r ! j) (el_sections r2 ! j)" if j: "j < ?n" for j
  proof -
    have same: "same_section k (el_sections r ! j) (?secs ! j)" using pl [OF j] by blast
    have "set_wide k sh_offset 0 (sh_header (?secs ! j)) = set_wide k sh_offset 0 (sh_header (el_sections r ! j))"
      using same_section_reads [OF same] by (simp add: reads_as_def)
    moreover have "get_word k (sh_header (el_sections r2 ! j)) sh_name = get_word k (sh_header (el_sections r ! j)) sh_name"
      using r2(4) j same_section_getters(10) [OF same] by simp
    then have "file_names k h (el_sections r2) (el_sections r2 ! j) = file_names k (el_header r) (el_sections r) (el_sections r ! j)"
      by (intro file_names_same) (simp_all add: f(7) r2(3) cont)
    ultimately show ?thesis using r2(4) j cont [OF j] r(12) by (simp add: reads_as_def)
  qed
  then show ?thesis using r2(1-3) by (auto simp: list_all2_conv_all_nth)
qed

section \<open>The round trip\<close>

lemma save_loads_back:
  assumes "saveable r"
  shows "case save r of
      Inl e \<Rightarrow> e = Layout_failed \<and> el_segments r \<noteq> []
    | Inr (r', out) \<Rightarrow> (\<exists>r2. load u v (open_stream memory out) = (True, r2) \<and> el_kind r2 = el_kind r
         \<and> list_all2 (reads_as (el_kind r)) (el_sections r) (el_sections r2))"
proof -
  let ?k = "el_kind r" and ?m = "length (el_segments r)" and ?secs = "el_sections r"
  let ?pos = "64 + ucast (56 :: u16) * ucast (word_of_nat ?m :: u16) :: u64"
  note r = saveable_facts [OF assms]
  have pos: "unat ?pos = 64 + 56 * ?m" using table_entry [of 64 ?m 56] r(10) by simp
  have sane: "\<forall>g\<in>set (el_segments r). sane_segment ?k ?secs g" using r(11) by (metis in_set_conv_nth)
  from calc_segment_alignment_same [OF r(1,9) sane] obtain hs
    where hs: "calc_segment_alignment ?k ?secs (el_segments r) = Inr hs" "list_all2 (same_segment ?k) (el_segments r) hs" by blast
  let ?run = "layout_segments ?k (saved_header r 0) (get_ordered_segments ?k hs)
    \<lparr>ly_pos = ?pos, ly_secs = ?secs, ly_segs = hs, ly_generated = replicate (length ?secs) False\<rparr>"
  have "unat ?pos < 2 ^ 32" using pos r(10) by simp
  from layout_result [OF r(1,9) sane r(10) hs(2) this, of "saved_header r 0"]
  consider "?run = Inl Layout_failed" "el_segments r \<noteq> []"
    | ly where "?run = Inr ly" "laid_out ?k ?secs (el_segments r) (64 + 56 * ?m) (layout_sections_without_segments ?k ly)"
    unfolding pos by blast
  then show ?thesis
  proof cases
    case 1
    then show ?thesis by (simp add: save_unfold [OF assms] hs(1))
  next
    case (2 ly)
    let ?ly = "layout_sections_without_segments ?k ly"
    let ?h = "layout_header r ?ly"
    have "length (sh_header (ly_secs ?ly ! i)) = shdr_size ?k \<and> has_data ?k (ly_secs ?ly ! i)" if "i < length ?secs" for i
      using laid_out_places(1) [OF assms 2(2) that] r(1) by (simp add: shdr_size_def)
    then have "\<forall>s\<in>set (ly_secs ?ly). length (sh_header s) = shdr_size ?k \<and> has_data ?k s"
      using laid_out_places(3) [OF assms 2(2)] by (metis in_set_conv_nth)
    then have secs: "save_sections ?k ?h (ly_secs ?ly) (write_file 0 ?h [])
        = Inr (ly_secs ?ly, fill (concat (map (section_writes ?k ?h) (ly_secs ?ly))) (write_file 0 ?h []))"
      by (rule save_sections_writes [OF r(1)])
    have "fold (save_segment ?k ?h) (ly_segs ?ly) (fill (concat (map (section_writes ?k ?h) (ly_secs ?ly))) (write_file 0 ?h []))
        = fill (all_writes ?k ?h (ly_secs ?ly) (ly_segs ?ly)) []"
      unfolding save_segments_writes write_file_fill by (simp add: all_writes_def)
    then have "\<exists>r'. save r = Inr (r', fill (all_writes ?k ?h (ly_secs ?ly) (ly_segs ?ly)) [])"
      unfolding save_unfold [OF assms] hs(1) rbind_Inr 2(1) Let_def layout_header_def [symmetric] secs prod.case by simp
    then show ?thesis using laid_out_loads [OF assms 2(2), of u v memory] by auto
  qed
qed

text \<open>
  C26: Saving an ELF file and loading what was written gives back its sections: for every 64-bit file
  of either byte order with numbers below the bounds, \<open>save\<close> either refuses the layout of the
  segments, before anything is written, or writes a file from which \<open>load\<close> reads the same number of
  sections, in the same order, with the same names and bytes and with headers that differ in
  nothing but the offset.
\<close>

theorem save_then_load:
  assumes "saveable r"
  shows "case save r of
      Inl e \<Rightarrow> e = Layout_failed \<and> el_segments r \<noteq> []
    | Inr (r', out) \<Rightarrow> (\<exists>r2. load u v (open_stream memory out) = (True, r2) \<and> el_kind r2 = el_kind r
         \<and> list_all2 (reads_as (el_kind r)) (el_sections r) (el_sections r2))"
  using assms by (rule save_loads_back)

section \<open>A layout that is refused\<close>

lemma layout_sections_of_append:
  "layout_sections_of k g start (xs @ ys) s = rbind (layout_sections_of k g start xs s) (layout_sections_of k g start ys)"
proof (induction xs arbitrary: s)
  case (Cons x xs)
  then show ?case by (cases "layout_section k g start x s") simp_all
qed simp

lemma section_gap_occupied:
  assumes "occupies k s" "is_address_set s"
  shows "section_gap k g start False s pos fs =
    (if sec_address_of k s - seg_address_of k g < pos - start then Inl Layout_failed
     else Inr (sec_address_of k s - seg_address_of k g - (pos - start)))"
  using assms by (simp add: section_gap_def occupies_def Let_def)

lemma layout_section_occupied:
  assumes "unat i < length (ly_secs ly)" "occupies k s" "is_address_set s" "s = ly_secs ly ! unat i" "\<not> ly_generated ly ! unat i"
  shows "layout_section k g start i (ly, mem, fs) = Inl Layout_failed
    \<or> (\<exists>mem' fs'. layout_section k g start i (ly, mem, fs) =
         Inr (ly\<lparr>ly_pos := start + (sec_address_of k s - seg_address_of k g) + sec_size_of k s,
             ly_secs := (ly_secs ly)[unat i := if sh_index s \<noteq> 0
               then set_sec_offset k (start + (sec_address_of k s - seg_address_of k g)) s else s],
             ly_generated := (ly_generated ly)[unat i := True]\<rparr>, mem', fs'))"
proof -
  have s: "sec_type_of k s \<noteq> SHT_NULL" "sec_type_of k s \<noteq> SHT_NOBITS" using assms(2) by (simp_all add: occupies_def)
  have pos: "ly_pos ly + (sec_address_of k s - seg_address_of k g - (ly_pos ly - start))
      = start + (sec_address_of k s - seg_address_of k g)" by simp
  show ?thesis
    using assms(1,5) unfolding layout_section_def prod.case Let_def assms(4) [symmetric]
    by (simp add: section_gap_occupied [OF assms(2,3)] s assms(3) pos)
qed

lemma overlap_refused:
  assumes "unat i < length (ly_secs ly)" "unat j < length (ly_secs ly)" "i \<noteq> j"
    and "\<not> ly_generated ly ! unat i" "\<not> ly_generated ly ! unat j"
    and "s = ly_secs ly ! unat i" "t = ly_secs ly ! unat j" "occupies k s" "occupies k t" "is_address_set s" "is_address_set t"
    and "sec_address_of k t - seg_address_of k g < sec_address_of k s - seg_address_of k g + sec_size_of k s"
  shows "layout_sections_of k g start (i # j # js) (ly, mem, fs) = Inl Layout_failed"
proof -
  have ne: "unat i \<noteq> unat j" using assms(3) by (simp add: word_unat_eq_iff)
  consider "layout_section k g start i (ly, mem, fs) = Inl Layout_failed"
    | ly' mem' fs' where "layout_section k g start i (ly, mem, fs) = Inr (ly', mem', fs')"
      "ly_pos ly' = start + (sec_address_of k s - seg_address_of k g) + sec_size_of k s"
      "ly_secs ly' ! unat j = t" "\<not> ly_generated ly' ! unat j" "length (ly_secs ly') = length (ly_secs ly)"
    using layout_section_occupied [OF assms(1,8,10,6,4), of g start mem fs] ne assms(5,7) by auto
  then show ?thesis
  proof cases
    case (2 ly' mem' fs')
    have "\<not> length (ly_secs ly') \<le> unat j" "sec_type_of k t \<noteq> SHT_NULL" using 2(5) assms(2,9) by (simp_all add: occupies_def)
    moreover have "ly_pos ly' - start = sec_address_of k s - seg_address_of k g + sec_size_of k s" by (simp add: 2(2))
    then have "section_gap k g start False t (ly_pos ly') fs' = Inl Layout_failed"
      using assms(12) by (simp only: section_gap_occupied [OF assms(9,11)] if_True)
    ultimately have "layout_section k g start j (ly', mem', fs') = Inl Layout_failed"
      using 2(3,4) by (simp add: layout_section_def Let_def)
    then show ?thesis by (simp add: 2(1))
  qed simp
qed


section \<open>A sample\<close>

text \<open>
  A file of one segment that holds the sections \<open>js\<close> of three: the empty one, one of code and the
  names, at the address \<open>a\<close>.
\<close>

definition sample_kind :: elf_kind where "sample_kind = \<lparr>is64 = True, need_conversion = False\<rparr>"

definition sample_section :: "u16 \<Rightarrow> u32 \<Rightarrow> u32 \<Rightarrow> u64 \<Rightarrow> u64 \<Rightarrow> bytes \<Rightarrow> string \<Rightarrow> elf_sec" where
  "sample_section i name type flags addr data title = (create_section sample_kind i)
     \<lparr>sh_header := set_wide sample_kind sh_addralign 4 (set_wide sample_kind sh_addr addr
        (set_wide sample_kind sh_flags flags (set_wide sample_kind sh_size (word_of_nat (length data))
        (set_word sample_kind sh_type type (set_word sample_kind sh_name name (replicate 64 0)))))),
      sh_title := title, sh_data := (if data = [] then None else Some (data @ [0])), is_address_set := True\<rparr>"

abbreviation sample_null :: elf_sec where "sample_null \<equiv> sample_section 0 0 0 0 0 [] []"
abbreviation sample_code :: elf_sec where "sample_code \<equiv> sample_section 1 1 1 2 0x100 [1, 2, 3] ''.t''"
abbreviation sample_strings :: "u64 \<Rightarrow> elf_sec" where
  "sample_strings a \<equiv> sample_section 2 4 3 2 a [0, 46, 116, 0, 46, 115, 0] ''.s''"

definition sample_segment :: "u16 list \<Rightarrow> elf_seg" where
  "sample_segment js = \<lparr>ph_header = set_wide sample_kind p_align 16 (set_wide sample_kind p_vaddr 0x100
       (set_word sample_kind p_type 1 (replicate 56 0))), ph_index = 0, ph_data = None, ph_sections = js,
     ph_stream_size = 0, is_offset_set = False\<rparr>"

definition sample_header :: bytes where
  "sample_header = set_half sample_kind e_shstrndx 2 (set_half sample_kind e_shentsize 64 (set_half sample_kind e_phentsize 56
     (set_half sample_kind e_ehsize 64 ([0x7F, 0x45, 0x4C, 0x46, 2, 1] @ replicate 58 0))))"

definition sample_file :: "u16 list \<Rightarrow> u64 \<Rightarrow> elfio" where
  "sample_file js a = \<lparr>el_kind = sample_kind,
     el_header = sample_header,
     el_sections = [sample_null, sample_code, sample_strings a], el_segments = [sample_segment js]\<rparr>"

lemma sample_section_fields:
  "length (sh_header sample_null) = 64" "length (sh_header sample_code) = 64"
  "sec_type_of sample_kind sample_null = 0" "sec_type_of sample_kind sample_code = 1"
  "sec_size_of sample_kind sample_null = 0" "sec_size_of sample_kind sample_code = 3"
  "sec_align_of sample_kind sample_null = 4" "sec_align_of sample_kind sample_code = 4"
  "sec_address_of sample_kind sample_code = 0x100" "sec_flags_of sample_kind sample_code = 2"
  by code_simp+

lemma sample_strings_at:
  assumes "a \<in> {0, 0x102}"
  shows "length (sh_header (sample_strings a)) = 64" "sec_type_of sample_kind (sample_strings a) = 3"
    "sec_size_of sample_kind (sample_strings a) = 7" "sec_align_of sample_kind (sample_strings a) = 4"
    "sec_address_of sample_kind (sample_strings a) = a"
proof -
  have "\<forall>a\<in>set [0, 0x102]. length (sh_header (sample_strings a)) = 64 \<and> sec_type_of sample_kind (sample_strings a) = 3
      \<and> sec_size_of sample_kind (sample_strings a) = 7 \<and> sec_align_of sample_kind (sample_strings a) = 4
      \<and> sec_address_of sample_kind (sample_strings a) = a" by code_simp
  with assms show "length (sh_header (sample_strings a)) = 64" "sec_type_of sample_kind (sample_strings a) = 3"
    "sec_size_of sample_kind (sample_strings a) = 7" "sec_align_of sample_kind (sample_strings a) = 4"
    "sec_address_of sample_kind (sample_strings a) = a" by auto
qed

lemma sample_names:
  "a \<in> {0, 0x102} \<Longrightarrow> \<forall>s\<in>set (el_sections (sample_file [] a)).
     sh_title s = file_names sample_kind (sample_header) (el_sections (sample_file [] a)) s"
proof -
  have "\<forall>a\<in>set [0, 0x102]. \<forall>s\<in>set (el_sections (sample_file [] a)).
     sh_title s = file_names sample_kind (sample_header) (el_sections (sample_file [] a)) s" by code_simp
  then show "a \<in> {0, 0x102} \<Longrightarrow> \<forall>s\<in>set (el_sections (sample_file [] a)).
     sh_title s = file_names sample_kind (sample_header) (el_sections (sample_file [] a)) s" by auto
qed

lemma sample_header_fields:
  "length (sample_header) = 64" "take 4 (sample_header) = [0x7F, 0x45, 0x4C, 0x46]"
  "sample_header ! 4 = 2" "sample_header ! 5 = 1"
  "get_half sample_kind (sample_header) e_ehsize = 64"
  "get_half sample_kind (sample_header) e_phentsize = 56"
  "get_half sample_kind (sample_header) e_shentsize = 64"
  by code_simp+

lemma sample_segment_fields:
  "length (ph_header (sample_segment [])) = 56" "seg_align_of sample_kind (sample_segment []) = 16"
  "seg_address_of sample_kind (sample_segment []) = 0x100" "seg_type_of sample_kind (sample_segment []) = 1"
  "seg_memory_size_of sample_kind (sample_segment []) = 0"
  by code_simp+

lemma sample_segment_at:
  "length (ph_header (sample_segment js)) = 56" "seg_align_of sample_kind (sample_segment js) = 16"
  "seg_address_of sample_kind (sample_segment js) = 0x100" "seg_type_of sample_kind (sample_segment js) = 1"
  "seg_memory_size_of sample_kind (sample_segment js) = 0"
  using sample_segment_fields by (simp_all add: sample_segment_def seg_getters)

lemma sample_parts:
  "el_kind (sample_file js a) = sample_kind" "is64 sample_kind" "setup_kind 2 1 = sample_kind"
  "el_sections (sample_file js a) = [sample_null, sample_code, sample_strings a]"
  "el_segments (sample_file js a) = [sample_segment js]" "el_header (sample_file js a) = sample_header"
  "ph_sections (sample_segment js) = js" "\<not> is_offset_set (sample_segment js)" "ph_index (sample_segment js) = 0"
  "is_address_set (sample_section i n t f b d s)" "sh_index (sample_section i n t f b d s) = i"
  "sh_data (sample_section i n t f b d s) = (if d = [] then None else Some (d @ [0]))"
  by (simp_all add: sample_file_def sample_kind_def setup_kind_def ELFCLASS64_def ELFDATA2LSB_def sample_segment_def
      sample_section_def create_section_def)

lemma sample_saveable:
  assumes "(js, a) \<in> {([1], 0), ([1, 2], 0x102)}"
  shows "saveable (sample_file js a)"
proof -
  have a: "a \<in> {0, 0x102}" using assms by auto
  note at = sample_strings_at [OF a]
  have sane: "sane_section sample_kind 0 sample_null" "sane_section sample_kind 1 sample_code"
    "sane_section sample_kind 2 (sample_strings a)" "\<not> occupies sample_kind sample_null"
    by (simp_all add: sane_section_def sample_section_fields at sample_parts shdr_size_def elf_bound_def has_data_def occupies_def)
  have "i = 0 \<or> i = 1 \<or> i = 2" if "i < 3" for i :: nat using that by arith
  with sane have "sane_section sample_kind i ([sample_null, sample_code, sample_strings a] ! i)" if "i < 3" for i
    using that by fastforce
  then have "sane_sections sample_kind [sample_null, sample_code, sample_strings a]"
    using sane(4) by (simp add: sane_sections_def)
  moreover have "sane_segment sample_kind [sample_null, sample_code, sample_strings a] (sample_segment js)"
    using assms at by (auto simp: sane_segment_def sample_segment_at sample_section_fields sample_parts phdr_size_def elf_bound_def)
  ultimately show ?thesis
    using sample_names [OF a] by (simp add: saveable_def Let_def sample_parts sample_header_fields ELFCLASS64_def ELFDATA2LSB_def)
qed

lemma save_sections_error: "save_sections k h secs f \<noteq> Inl Layout_failed"
proof (induction secs arbitrary: f)
  case (Cons s secs)
  have "save_section k h s f \<noteq> Inl Layout_failed" by (auto simp: save_section_def Let_def split: option.split)
  then show ?case using Cons by (auto simp: rbind_eq_Inl)
qed simp

lemma sample_layout: "save (sample_file [1] 0) \<noteq> Inl Layout_failed"
proof -
  have saveable: "saveable (sample_file [1] 0)" by (rule sample_saveable) simp
  let ?secs = "[sample_null, sample_code, sample_strings 0]" and ?segs = "[sample_segment [1]]"
  have ord: "get_ordered_segments sample_kind ?segs = [0]"
    by (simp add: get_ordered_segments_def front_segments_def front_step_def order_segments.simps(2))
  have al: "calc_segment_alignment sample_kind ?secs ?segs = Inr ?segs"
    by (simp add: sample_parts sample_section_fields sample_segment_at Let_def)
  have "\<exists>ly. layout_segments sample_kind h [0] \<lparr>ly_pos = 64 + ucast (56 :: u16) * ucast (word_of_nat 1 :: u16), ly_secs = ?secs,
      ly_segs = ?segs, ly_generated = replicate 3 False\<rparr> = Inr ly" for h
    by (simp add: layout_segment_def segment_start_def layout_section_def section_gap_def Let_def sample_parts sample_section_fields
       sample_segment_at PT_PHDR_def SHT_NULL_def SHT_NOBITS_def numeral_3_eq_3)
  then obtain ly where "layout_segments sample_kind (saved_header (sample_file [1] 0) 0) [0]
      \<lparr>ly_pos = 64 + ucast (56 :: u16) * ucast (word_of_nat 1 :: u16), ly_secs = ?secs,
      ly_segs = ?segs, ly_generated = replicate 3 False\<rparr> = Inr ly" by blast
  then show ?thesis
    using save_sections_error by (auto simp: save_unfold [OF saveable] sample_parts al ord Let_def numeral_3_eq_3 rbind_eq_Inl
        simp del: calc_segment_alignment.simps layout_segments.simps)
qed

lemma save_then_load_witness:
  "\<exists>r' out r2. save (sample_file [1] 0) = Inr (r', out)
     \<and> load (\<lambda>_ _. 0) (\<lambda>_ _. 0) (open_stream True out) = (True, r2)
     \<and> list_all2 (reads_as sample_kind) (el_sections (sample_file [1] 0)) (el_sections r2)"
  using save_then_load [OF sample_saveable, of "[1]" 0 "\<lambda>_ _. 0" "\<lambda>_ _. 0" True] sample_layout
  by (cases "save (sample_file [1] 0)") (auto simp: sample_parts)


end
