(* ===== verification/Elf_Edit.thy ===== *)
theory Elf_Edit
  imports Elf_Roundtrip
begin

text \<open>
  Editing the data of a section and saving the file, as the binary instrumentation does with the
  text of a code object and with its kernel descriptors.
\<close>

section \<open>Setting the size\<close>

lemma set_size_getters:
  assumes "length (sh_header s) = shdr_size k" "is64 k"
  shows "length (sh_header (set_sec_size k n s)) = shdr_size k"
    "sec_type_of k (set_sec_size k n s) = sec_type_of k s" "sec_flags_of k (set_sec_size k n s) = sec_flags_of k s"
    "sec_address_of k (set_sec_size k n s) = sec_address_of k s" "sec_offset_of k (set_sec_size k n s) = sec_offset_of k s"
    "sec_align_of k (set_sec_size k n s) = sec_align_of k s" "sec_size_of k (set_sec_size k n s) = n"
    "get_word k (sh_header (set_sec_size k n s)) sh_name = get_word k (sh_header s) sh_name"
proof -
  have pos: "field_pos k sh_size + wide_size k \<le> length (sh_header s)" using assms by (simp add: elf_fields)
  show "length (sh_header (set_sec_size k n s)) = shdr_size k" using assms(1) pos by (simp add: set_sec_size_def)
  show "sec_size_of k (set_sec_size k n s) = n" using assms(2) pos by (simp add: set_sec_size_def sec_size_of_def)
  have other: "piece (set_wide k sh_size n (sh_header s)) p m = piece (sh_header s) p m" if "p + m \<le> 32 \<or> 40 \<le> p" for p m
    using that assms(2) by (intro piece_set_other(3) [OF pos]) (auto simp: elf_fields)
  show "sec_type_of k (set_sec_size k n s) = sec_type_of k s" "sec_flags_of k (set_sec_size k n s) = sec_flags_of k s"
    "sec_address_of k (set_sec_size k n s) = sec_address_of k s" "sec_offset_of k (set_sec_size k n s) = sec_offset_of k s"
    "sec_align_of k (set_sec_size k n s) = sec_align_of k s"
    "get_word k (sh_header (set_sec_size k n s)) sh_name = get_word k (sh_header s) sh_name"
    using assms(2) by (simp_all add: set_sec_size_def sec_getters get_word_def get_wide_def other field_pos_def
        sh_type_def sh_flags_def sh_addr_def sh_offset_def sh_addralign_def sh_name_def)
qed

section \<open>Setting the data\<close>

lemma set_data_facts:
  assumes "length (sh_header s) = shdr_size k" "is64 k" "occupies k s" "raw \<noteq> []" "length raw < 2 ^ 32"
  shows "length (sh_header (set_data k raw s)) = shdr_size k" "occupies k (set_data k raw s)" "sec_contents k (set_data k raw s) = raw"
    "sec_size_of k (set_data k raw s) = word_of_nat (length raw)" "unat (sec_size_of k (set_data k raw s)) = length raw"
    "sec_align_of k (set_data k raw s) = sec_align_of k s" "sec_address_of k (set_data k raw s) = sec_address_of k s"
    "has_data k (set_data k raw s)" "sh_index (set_data k raw s) = sh_index s" "is_address_set (set_data k raw s) = is_address_set s"
    "sh_title (set_data k raw s) = sh_title s" "get_word k (sh_header (set_data k raw s)) sh_name = get_word k (sh_header s) sh_name"
    "sec_type_of k (set_data k raw s) = sec_type_of k s"
proof -
  let ?n = "word_of_nat (length raw) :: u32"
  have n: "unat ?n = length raw" using assms(5) by (simp add: unsigned_of_nat take_bit_nat_eq_self)
  moreover have "length raw < 2 ^ 64" using assms(5) by simp
  ultimately have wide: "(ucast ?n :: u64) = word_of_nat (length raw)" by (simp add: word_unat_eq_iff unat_of_nat_u64)
  define t where "t = s\<lparr>sh_data := Some raw, data_size := ?n\<rparr>"
  have t: "length (sh_header t) = shdr_size k" "sec_type_of k t = sec_type_of k s" "sec_align_of k t = sec_align_of k s"
      "sec_address_of k t = sec_address_of k s" using assms(1) by (simp_all add: t_def sec_getters)
  have set: "set_data k raw s = (set_sec_size k (word_of_nat (length raw)) t)\<lparr>sh_stream_size := word_of_nat (length raw)\<rparr>"
    using assms(3) by (simp add: set_data_def occupies_def Let_def t_def wide)
  note g = set_size_getters [OF t(1) assms(2), of "word_of_nat (length raw)"]
  have h: "sh_header (set_data k raw s) = sh_header (set_sec_size k (word_of_nat (length raw)) t)" by (simp add: set)
  show "length (sh_header (set_data k raw s)) = shdr_size k" using g(1) h by simp
  show size: "sec_size_of k (set_data k raw s) = word_of_nat (length raw)" using g(7) h by (simp add: sec_size_of_def)
  show u: "unat (sec_size_of k (set_data k raw s)) = length raw"
    unfolding size wide [symmetric] unat_ucast_u64 by (rule n)
  show ty: "sec_type_of k (set_data k raw s) = sec_type_of k s" using g(2) t(2) h by (simp add: sec_type_of_def)
  show occ: "occupies k (set_data k raw s)"
    using assms(3,4) u ty unat_pos [of "sec_size_of k (set_data k raw s)"] by (simp add: occupies_def)
  have data: "sh_data (set_data k raw s) = Some raw" by (simp add: set set_sec_size_def t_def)
  show "sec_contents k (set_data k raw s) = raw" using occ data u by (simp add: sec_contents_def)
  show "has_data k (set_data k raw s)" using data u by (simp add: has_data_def)
  show "sec_align_of k (set_data k raw s) = sec_align_of k s" using g(6) t(3) h by (simp add: sec_align_of_def)
  show "sec_address_of k (set_data k raw s) = sec_address_of k s" using g(4) t(4) h by (simp add: sec_address_of_def)
  show "get_word k (sh_header (set_data k raw s)) sh_name = get_word k (sh_header s) sh_name" using g(8) h by (simp add: t_def)
  show "sh_index (set_data k raw s) = sh_index s" "is_address_set (set_data k raw s) = is_address_set s"
    "sh_title (set_data k raw s) = sh_title s" by (simp_all add: set set_sec_size_def t_def)
qed

text \<open>Files that differ in the data of sections that have bytes and do not hold the names.\<close>

definition edited :: "elf_kind \<Rightarrow> elf_sec \<Rightarrow> elf_sec \<Rightarrow> bool" where
  "edited k s t \<longleftrightarrow> (\<exists>raw. occupies k s \<and> raw \<noteq> [] \<and> length raw < 2 ^ 32 \<and> t = set_data k raw s)"

lemma edited_facts:
  assumes "edited k s t" "is64 k" "sane_section k i s"
  shows "sane_section k i t" "occupies k t" "sec_address_of k t = sec_address_of k s" "sh_title t = sh_title s"
    "get_word k (sh_header t) sh_name = get_word k (sh_header s) sh_name"
proof -
  from assms(1) obtain raw where raw: "occupies k s" "raw \<noteq> []" "length raw < 2 ^ 32" "t = set_data k raw s"
    by (auto simp: edited_def)
  have len: "length (sh_header s) = shdr_size k" using assms(3) by (simp add: sane_section_def)
  note set = set_data_facts [OF len assms(2) raw(1-3)]
  have "length raw < elf_bound" using raw(3) by (simp add: elf_bound_def)
  then show "sane_section k i t" using assms(3) by (simp add: raw(4) sane_section_def set(1-3,5-10))
  show "occupies k t" "sec_address_of k t = sec_address_of k s" "sh_title t = sh_title s"
    "get_word k (sh_header t) sh_name = get_word k (sh_header s) sh_name" by (simp_all add: raw(4) set)
qed

lemma edits_saveable:
  assumes "saveable r" "length ys = length (el_sections r)"
    and "\<forall>i<length ys. ys ! i = el_sections r ! i \<or> edited (el_kind r) (el_sections r ! i) (ys ! i)
      \<and> unat (get_half (el_kind r) (el_header r) e_shstrndx) \<noteq> i"
  shows "saveable (r\<lparr>el_sections := ys\<rparr>)"
proof -
  let ?k = "el_kind r" and ?secs = "el_sections r" and ?h = "el_header r"
  note r = saveable_facts [OF assms(1)]
  have sane: "sane_section ?k i (?secs ! i)" if "i < length ys" for i
    using r(9) assms(2) that by (simp add: sane_sections_def)
  have at: "sane_section ?k i (ys ! i)" "occupies ?k (ys ! i) = occupies ?k (?secs ! i)"
      "sec_address_of ?k (ys ! i) = sec_address_of ?k (?secs ! i)" "sh_title (ys ! i) = sh_title (?secs ! i)"
      "get_word ?k (sh_header (ys ! i)) sh_name = get_word ?k (sh_header (?secs ! i)) sh_name" if "i < length ys" for i
  proof -
    from assms(3) that consider "ys ! i = ?secs ! i" | "edited ?k (?secs ! i) (ys ! i)" by blast
    then have "sane_section ?k i (ys ! i) \<and> occupies ?k (ys ! i) = occupies ?k (?secs ! i)
      \<and> sec_address_of ?k (ys ! i) = sec_address_of ?k (?secs ! i) \<and> sh_title (ys ! i) = sh_title (?secs ! i)
      \<and> get_word ?k (sh_header (ys ! i)) sh_name = get_word ?k (sh_header (?secs ! i)) sh_name"
    proof cases
      case 2
      then have "occupies ?k (?secs ! i)" by (auto simp: edited_def)
      with edited_facts [OF 2 r(1) sane [OF that]] show ?thesis by simp
    qed (use sane [OF that] in simp)
    then show "sane_section ?k i (ys ! i)" "occupies ?k (ys ! i) = occupies ?k (?secs ! i)"
      "sec_address_of ?k (ys ! i) = sec_address_of ?k (?secs ! i)" "sh_title (ys ! i) = sh_title (?secs ! i)"
      "get_word ?k (sh_header (ys ! i)) sh_name = get_word ?k (sh_header (?secs ! i)) sh_name" by simp_all
  qed
  have secs: "sane_sections ?k ys"
    using r(9) at(1) at(2) [of 0] assms(2) by (cases ys; cases ?secs) (auto simp: sane_sections_def)
  have segs: "sane_segment ?k ys g" if "sane_segment ?k ?secs g" for g
    using that at(2,3) assms(2) by (simp add: sane_segment_def)
  have strings: "section_at ys (unat (get_half ?k ?h e_shstrndx)) = section_at ?secs (unat (get_half ?k ?h e_shstrndx))"
    using assms(2,3) by (auto simp: section_at_def)
  have "sh_title (ys ! i) = file_names ?k ?h ys (ys ! i)" if "i < length ys" for i
  proof -
    have "?secs ! i \<in> set ?secs" using that assms(2) by simp
    then have "sh_title (?secs ! i) = file_names ?k ?h ?secs (?secs ! i)" using r(12) by blast
    moreover have "file_names ?k ?h ys (ys ! i) = file_names ?k ?h ?secs (?secs ! i)"
      unfolding file_names_def strings section_name_def Let_def at(5) [OF that] ..
    ultimately show ?thesis using at(4) [OF that] by simp
  qed
  then have "\<forall>t\<in>set ys. sh_title t = file_names ?k ?h ys t" by (metis in_set_conv_nth)
  then show ?thesis
    using assms(1) secs segs by (auto simp: saveable_def Let_def)
qed

text \<open>New data in one section.\<close>

definition edit_section :: "nat \<Rightarrow> bytes \<Rightarrow> elfio \<Rightarrow> elfio" where
  "edit_section i raw r = r\<lparr>el_sections := (el_sections r)[i := set_data (el_kind r) raw (el_sections r ! i)]\<rparr>"

lemma edit_saveable:
  assumes "saveable r" "i < length (el_sections r)" "occupies (el_kind r) (el_sections r ! i)" "raw \<noteq> []" "length raw < 2 ^ 32"
    and "unat (get_half (el_kind r) (el_header r) e_shstrndx) \<noteq> i"
  shows "saveable (edit_section i raw r)"
  unfolding edit_section_def
proof (rule edits_saveable [OF assms(1)])
  have "edited (el_kind r) (el_sections r ! i) (set_data (el_kind r) raw (el_sections r ! i))"
    using assms(3-5) by (auto simp: edited_def)
  then show "\<forall>j<length ((el_sections r)[i := set_data (el_kind r) raw (el_sections r ! i)]).
      (el_sections r)[i := set_data (el_kind r) raw (el_sections r ! i)] ! j = el_sections r ! j
      \<or> edited (el_kind r) (el_sections r ! j) ((el_sections r)[i := set_data (el_kind r) raw (el_sections r ! i)] ! j)
        \<and> unat (get_half (el_kind r) (el_header r) e_shstrndx) \<noteq> j"
    using assms(2,6) by (auto simp: nth_list_update)
qed simp

text \<open>
  C27: New data in a section reach the file: after \<open>set_data\<close> on a section that has bytes and does
  not hold the names, \<open>save\<close> either refuses the layout, or writes a file from which \<open>load\<close> reads
  the new bytes in this section, of any length up to 4 GiB, and reads every other section as it was.
\<close>

theorem edit_then_reload:
  assumes "saveable r" "i < length (el_sections r)" "occupies (el_kind r) (el_sections r ! i)" "raw \<noteq> []" "length raw < 2 ^ 32"
    and "unat (get_half (el_kind r) (el_header r) e_shstrndx) \<noteq> i"
  shows "case save (edit_section i raw r) of
      Inl e \<Rightarrow> e = Layout_failed \<and> el_segments r \<noteq> []
    | Inr (r', out) \<Rightarrow> (\<exists>r2. load u v (open_stream memory out) = (True, r2) \<and> length (el_sections r2) = length (el_sections r)
         \<and> sec_contents (el_kind r) (el_sections r2 ! i) = raw \<and> sh_title (el_sections r2 ! i) = sh_title (el_sections r ! i)
         \<and> (\<forall>j\<in>{..<length (el_sections r)} - {i}. reads_as (el_kind r) (el_sections r ! j) (el_sections r2 ! j)))"
proof -
  have len: "length (sh_header (el_sections r ! i)) = shdr_size (el_kind r)"
    using saveable_facts(9) [OF assms(1)] assms(2) by (simp add: sane_sections_def sane_section_def)
  note set = set_data_facts [OF len saveable_facts(1) [OF assms(1)] assms(3-5)]
  have same: "el_kind (edit_section i raw r) = el_kind r" "el_segments (edit_section i raw r) = el_segments r"
    "el_sections (edit_section i raw r) = (el_sections r)[i := set_data (el_kind r) raw (el_sections r ! i)]"
    by (simp_all add: edit_section_def)
  have at: "length ys = length (el_sections r) \<and> sec_contents (el_kind r) (ys ! i) = raw \<and> sh_title (ys ! i) = sh_title (el_sections r ! i)
      \<and> (\<forall>j\<in>{..<length (el_sections r)} - {i}. reads_as (el_kind r) (el_sections r ! j) (ys ! j))"
    if "list_all2 (reads_as (el_kind r)) ((el_sections r)[i := set_data (el_kind r) raw (el_sections r ! i)]) ys" for ys
  proof -
    have "reads_as (el_kind r) (set_data (el_kind r) raw (el_sections r ! i)) (ys ! i)"
      using list_all2_nthD [OF that, of i] assms(2) by simp
    moreover have "reads_as (el_kind r) (el_sections r ! j) (ys ! j)" if "j < length (el_sections r)" "j \<noteq> i" for j
      using list_all2_nthD [OF \<open>list_all2 _ _ _\<close>, of j] that by simp
    ultimately show ?thesis using list_all2_lengthD [OF that] by (auto simp: reads_as_def set)
  qed
  show ?thesis
    using save_loads_back [OF edit_saveable [OF assms], of u v memory] at unfolding same
    by (fastforce split: sum.splits prod.splits)
qed

lemma edit_then_reload_witness:
  "case save (edit_section 1 [7, 8, 9, 10, 11] (sample_file [1] 0)) of
      Inl e \<Rightarrow> e = Layout_failed
    | Inr (r', out) \<Rightarrow> (\<exists>r2. load (\<lambda>_ _. 0) (\<lambda>_ _. 0) (open_stream True out) = (True, r2)
         \<and> sec_contents sample_kind (el_sections r2 ! 1) = [7, 8, 9, 10, 11] \<and> sh_title (el_sections r2 ! 1) = ''.t'')"
proof -
  have "saveable (sample_file [1] 0)" by (rule sample_saveable) simp
  moreover have "get_half sample_kind sample_header e_shstrndx = 2" by code_simp
  moreover have "occupies sample_kind sample_code" by (simp add: occupies_def sample_section_fields SHT_NULL_def SHT_NOBITS_def)
  moreover have "sh_title sample_code = ''.t''" by (simp add: sample_section_def)
  ultimately show ?thesis
    using edit_then_reload [of "sample_file [1] 0" 1 "[7, 8, 9, 10, 11]" "\<lambda>_ _. 0" "\<lambda>_ _. 0" True]
    by (auto simp: sample_parts split: sum.splits prod.splits)
qed

end
