(* ===== verification/Elf_Typed.thy ===== *)
theory Elf_Typed
  imports Elf_Layout
begin

text \<open>
  What every file that \<open>load\<close> accepts has, whatever its bytes: headers of the size of their
  structures, arrays as large as their headers say and closed by a zero byte, and segments whose
  sections are indices of the table in rising order, on which the order of the segments relies.
\<close>

section \<open>Well-typed files\<close>

text \<open>The array of \<open>n\<close> bytes of a section or segment, closed by a zero byte when it is not empty.\<close>

definition typed_array :: "nat \<Rightarrow> bytes option \<Rightarrow> bool" where
  "typed_array n d \<longleftrightarrow> (case d of None \<Rightarrow> True | Some b \<Rightarrow> length b = n + 1 \<and> (n \<noteq> 0 \<longrightarrow> last b = 0))"

definition typed_section :: "elf_kind \<Rightarrow> nat \<Rightarrow> elf_sec \<Rightarrow> bool" where
  "typed_section k i s \<longleftrightarrow> length (sh_header s) = shdr_size k \<and> unat (sh_index s) = i \<and> is_address_set s
     \<and> typed_array (unat (sec_size_of k s)) (sh_data s)"

definition typed_segment :: "elf_kind \<Rightarrow> nat \<Rightarrow> nat \<Rightarrow> elf_seg \<Rightarrow> bool" where
  "typed_segment k n j g \<longleftrightarrow> length (ph_header g) = phdr_size k \<and> unat (ph_index g) = j \<and> is_offset_set g
     \<and> typed_array (unat (seg_file_size_of k g)) (ph_data g)
     \<and> sorted_wrt (<) (ph_sections g) \<and> (\<forall>i\<in>set (ph_sections g). unat i < n)"

definition typed_elfio :: "elfio \<Rightarrow> bool" where
  "typed_elfio r \<longleftrightarrow>
     length (el_header r) = ehdr_size (el_kind r)
     \<and> length (el_sections r) = unat (get_half (el_kind r) (el_header r) e_shnum)
     \<and> length (el_segments r) = unat (get_half (el_kind r) (el_header r) e_phnum)
     \<and> (\<forall>i<length (el_sections r). typed_section (el_kind r) i (el_sections r ! i))
     \<and> (\<forall>j<length (el_segments r). typed_segment (el_kind r) (length (el_sections r)) j (el_segments r ! j))"

lemma read_at_length:
  assumes "read_at s pos n = (got, s')"
  shows "length got \<le> n"
  using assms by (auto simp: read_at_def sread_def Let_def split: if_splits)

lemma length_fill_from [simp]: "length got \<le> length buffer \<Longrightarrow> length (fill_from got buffer) = length buffer"
  by (simp add: fill_from_def)

lemma set_address_typed:
  assumes "length (sh_header s) = shdr_size k"
  shows "length (sh_header (set_sec_address k a s)) = shdr_size k" "sec_size_of k (set_sec_address k a s) = sec_size_of k s"
proof -
  have pos: "field_pos k sh_addr + wide_size k \<le> length (sh_header s)" using assms by (auto simp: elf_fields)
  then show "length (sh_header (set_sec_address k a s)) = shdr_size k" using assms by (simp add: set_sec_address_def)
  have "piece (set_wide k sh_addr a (sh_header s)) (field_pos k sh_size) (wide_size k)
      = piece (sh_header s) (field_pos k sh_size) (wide_size k)"
    by (rule piece_set_other(3) [OF pos]) (auto simp: elf_fields)
  then have "get_wide k (set_wide k sh_addr a (sh_header s)) sh_size = get_wide k (sh_header s) sh_size" by (rule get_cong(3))
  then show "sec_size_of k (set_sec_address k a s) = sec_size_of k s" by (simp add: sec_size_of_def set_sec_address_def)
qed

lemma load_section_typed:
  assumes "load_section k u s pos sec = (t, s')" "sh_data sec = None"
  shows "length (sh_header t) = shdr_size k" "typed_array (unat (sec_size_of k t)) (sh_data t)"
proof -
  obtain got s1 where got: "read_at s pos (shdr_size k) = (got, s1)" by fastforce
  define c where "c = sec\<lparr>sh_stream_size := stream_end s, sh_header := fill_from got (replicate (shdr_size k) 0)\<rparr>"
  define n where "n = unat (sec_size_of k c)"
  obtain got2 s2 where got2: "read_at s1 (sint (sec_offset_of k c)) n = (got2, s2)" by fastforce
  define b where "b = fill_from got2 (map u [0..<n])"
  have c: "length (sh_header c) = shdr_size k" "sh_data c = None" "length b = n"
    using read_at_length [OF got] read_at_length [OF got2] assms(2) by (simp_all add: c_def b_def)
  have size: "sec_size_of k (c\<lparr>sh_data := d, data_size := m\<rparr>) = sec_size_of k c" for d m
    by (rule getters_cong) simp
  have "load_section k u s pos sec = (if sh_data c = None \<and> sec_type_of k c \<noteq> SHT_NULL \<and> sec_type_of k c \<noteq> SHT_NOBITS
        \<and> sec_size_of k c < sh_stream_size c
      then if sec_size_of k c \<noteq> 0 then (c\<lparr>sh_data := Some (b @ [0]), data_size := ucast (sec_size_of k c)\<rparr>, s2)
           else (c\<lparr>sh_data := Some [u 0], data_size := 0\<rparr>, s1)
      else (c, s1))"
    unfolding load_section_def Let_def got prod.case c_def [simplified] by (simp add: c_def [symmetric] n_def [symmetric] b_def got2)
  then consider "t = c" | "t = c\<lparr>sh_data := Some [u 0], data_size := 0\<rparr>" "n = 0"
    | m where "t = c\<lparr>sh_data := Some (b @ [0]), data_size := m\<rparr>"
    using assms(1) by (auto simp: n_def split: if_splits)
  then have "length (sh_header t) = shdr_size k \<and> typed_array (unat (sec_size_of k t)) (sh_data t)"
    using c by cases (simp_all add: typed_array_def size n_def)
  then show "length (sh_header t) = shdr_size k" "typed_array (unat (sec_size_of k t)) (sh_data t)" by simp_all
qed

lemma load_section_list_typed:
  assumes "load_section_list k u off ent i n s = (secs, s')" "i + n \<le> 2 ^ 16"
  shows "length secs = n \<and> (\<forall>j<n. typed_section k (i + j) (secs ! j))"
  using assms
proof (induction n arbitrary: i s secs s')
  case (Suc n)
  obtain t s1 where t: "load_section k (u i) s (sint off + int i * uint ent) (create_section k (word_of_nat i)) = (t, s1)" by fastforce
  obtain secs2 s2 where secs2: "load_section_list k u off ent (Suc i) n s1 = (secs2, s2)" by fastforce
  let ?t = "set_sec_address k (sec_address_of k t) (t\<lparr>sh_index := word_of_nat i\<rparr>)"
  have secs: "secs = ?t # secs2" using Suc.prems(1) t secs2 by simp
  note typed = load_section_typed [OF t]
  have head: "length (sh_header (t\<lparr>sh_index := word_of_nat i\<rparr>)) = shdr_size k" "sec_size_of k (t\<lparr>sh_index := word_of_nat i\<rparr>) = sec_size_of k t"
    using typed(1) by (simp_all add: create_section_def sec_size_of_def)
  have "unat (word_of_nat i :: u16) = i" using Suc.prems(2) by (simp add: unsigned_of_nat take_bit_nat_eq_self)
  then have "typed_section k i ?t"
    using typed(2) set_address_typed [OF head(1)] head(2)
    by (simp add: typed_section_def create_section_def) (simp add: set_sec_address_def)
  with Suc.IH [OF secs2] Suc.prems(2) show ?case by (auto simp: secs nth_Cons split: nat.splits)
qed simp

lemma load_sections_typed:
  assumes "load_sections k u header s = (secs, s')"
  shows "length secs = unat (get_half k header e_shnum) \<and> (\<forall>j<length secs. typed_section k j (secs ! j))"
proof -
  let ?n = "unat (get_half k header e_shnum)"
  obtain secs0 s0 where l: "load_section_list k u (get_wide k header e_shoff) (get_half k header e_shentsize) 0 ?n s = (secs0, s0)"
    by fastforce
  have "0 + ?n \<le> 2 ^ 16" using unsigned_less [of "get_half k header e_shnum", where ?'a = nat] by simp
  note typed = load_section_list_typed [OF l this]
  have name: "typed_section k j (name_section k x t) = typed_section k j t" for j x t
  proof -
    have "sec_size_of k (t\<lparr>sh_title := n\<rparr>) = sec_size_of k t" for n by (rule getters_cong) simp
    then show ?thesis by (auto simp: name_section_def typed_section_def split: option.split)
  qed
  show ?thesis using assms typed by (auto simp: load_sections_def l name Let_def split: if_splits)
qed

lemma load_segment_typed:
  assumes "load_segment k u s pos i = (g, s')"
  shows "length (ph_header g) = phdr_size k" "ph_index g = i" "is_offset_set g"
    "typed_array (unat (seg_file_size_of k g)) (ph_data g)"
proof -
  obtain got s1 where got: "read_at s pos (phdr_size k) = (got, s1)" by fastforce
  let ?g = "\<lparr>ph_header = fill_from got (replicate (phdr_size k) 0), ph_index = i, ph_data = None,
            ph_sections = [], ph_stream_size = stream_end s, is_offset_set = True\<rparr>"
  obtain got2 s2 where got2: "read_at s1 (sint (seg_offset_of k ?g)) (unat (seg_file_size_of k ?g)) = (got2, s2)" by fastforce
  have len: "length (fill_from got (replicate (phdr_size k) 0)) = phdr_size k"
    using read_at_length [OF got] by simp
  have "length (fill_from got2 (map u [0..<unat (seg_file_size_of k ?g)])) = unat (seg_file_size_of k ?g)"
    using read_at_length [OF got2] by simp
  then have "g = ?g \<or> (\<exists>b. g = ?g\<lparr>ph_data := Some (b @ [0])\<rparr> \<and> length b = unat (seg_file_size_of k ?g))"
    using assms by (simp add: load_segment_def Let_def got got2 split: if_splits) blast+
  then consider "g = ?g" | b where "g = ?g\<lparr>ph_data := Some (b @ [0])\<rparr>" "length b = unat (seg_file_size_of k ?g)" by blast
  then have "length (ph_header g) = phdr_size k \<and> ph_index g = i \<and> is_offset_set g
      \<and> typed_array (unat (seg_file_size_of k g)) (ph_data g)"
    using len by cases (simp_all add: typed_array_def seg_file_size_of_def)
  then show "length (ph_header g) = phdr_size k" "ph_index g = i" "is_offset_set g"
    "typed_array (unat (seg_file_size_of k g)) (ph_data g)" by simp_all
qed

lemma section_indices_sorted:
  assumes "\<forall>i<length secs. typed_section k i (secs ! i)"
  shows "sorted_wrt (<) (map sh_index (filter P secs)) \<and> (\<forall>i\<in>set (map sh_index (filter P secs)). unat i < length secs)"
proof -
  have "sorted_wrt (\<lambda>s t. sh_index s < sh_index t) secs"
    using assms by (auto simp: sorted_wrt_iff_nth_less typed_section_def word_less_nat_alt)
  then have "sorted_wrt (\<lambda>s t. sh_index s < sh_index t) (filter P secs)" by (rule sorted_wrt_filter)
  moreover have "\<forall>s\<in>set secs. unat (sh_index s) < length secs"
    using assms by (auto simp: typed_section_def in_set_conv_nth)
  ultimately show ?thesis by (auto simp: sorted_wrt_map)
qed

lemma load_segment_list_typed:
  assumes "load_segment_list k u secs off ent i n s = (segs, s')" "i + n \<le> 2 ^ 16" "\<forall>i<length secs. typed_section k i (secs ! i)"
  shows "length segs = n \<and> (\<forall>j<n. typed_segment k (length secs) (i + j) (segs ! j))"
  using assms(1,2)
proof (induction n arbitrary: i s segs s')
  case (Suc n)
  obtain g s1 where g: "load_segment k (u i) s (sint off + int i * uint ent) (word_of_nat i) = (g, s1)" by fastforce
  obtain segs2 s2 where segs2: "load_segment_list k u secs off ent (Suc i) n s1 = (segs2, s2)" by fastforce
  have segs: "segs = g\<lparr>ph_sections := map sh_index (filter (in_segment k g) secs)\<rparr> # segs2" using Suc.prems(1) g segs2 by simp
  have "unat (word_of_nat i :: u16) = i" using Suc.prems(2) by (simp add: unsigned_of_nat take_bit_nat_eq_self)
  then have "typed_segment k (length secs) i (g\<lparr>ph_sections := map sh_index (filter (in_segment k g) secs)\<rparr>)"
    using load_segment_typed [OF g] section_indices_sorted [OF assms(3), of "in_segment k g"]
    by (simp add: typed_segment_def seg_file_size_of_def)
  with Suc.IH [OF segs2] Suc.prems(2) show ?case by (auto simp: segs nth_Cons split: nat.splits)
qed simp

lemma load_typed:
  "(\<exists>k. load u v s = (False, no_file k)) \<or> (\<exists>r. load u v s = (True, r) \<and> typed_elfio r)"
proof -
  obtain id s1 where id: "read_at s 0 16 = (id, s1)" by fastforce
  define k where "k = setup_kind (id ! 4) (id ! 5)"
  obtain header s2 where header: "read_at s1 0 (ehdr_size k) = (header, s2)" by fastforce
  obtain secs s3 where secs: "load_sections k u header s2 = (secs, s3)" by fastforce
  obtain segs s4 where segs: "load_segment_list k v secs (get_wide k header e_phoff) (get_half k header e_phentsize) 0
      (unat (get_half k header e_phnum)) s3 = (segs, s4)" by fastforce
  note typed = load_sections_typed [OF secs]
  have "0 + unat (get_half k header e_phnum) \<le> 2 ^ 16" using unsigned_less [of "get_half k header e_phnum", where ?'a = nat] by simp
  from load_segment_list_typed [OF segs this] typed
  have "typed_elfio \<lparr>el_kind = k, el_header = header, el_sections = secs, el_segments = segs\<rparr>" if "length header = ehdr_size k"
    using that by (simp add: typed_elfio_def)
  then show ?thesis unfolding load_def Let_def id prod.case k_def [symmetric] header secs segs by auto
qed

text \<open>
  C28: Loading gives a well-typed file, whatever the bytes it reads, also truncated or malicious
  ones: \<open>load\<close> returns false and no sections, or as many sections and segments as the header counts,
  each with a header of the size of its structure, its position as index, and a data array that is
  missing or holds as many bytes as its header says and a zero byte behind them; the sections of a
  segment are indices of the section table in rising order.
\<close>

theorem load_well_typed:
  "(\<exists>k. load u v s = (False, no_file k)) \<or> (\<exists>r. load u v s = (True, r) \<and> typed_elfio r)"
  by (rule load_typed)

section \<open>The order of the segments\<close>

lemma std_includes_set:
  assumes "sorted_wrt (<) xs" "sorted_wrt (<) ys"
  shows "std_includes xs ys \<longleftrightarrow> set ys \<subseteq> set xs"
  using assms
proof (induction xs ys rule: std_includes.induct)
  case (3 x xs y ys)
  then show ?case by (cases "y < x"; cases "x < y") (auto dest: order.strict_trans)
qed simp_all

lemma is_subsequence_of_set:
  assumes "sorted_wrt (<) (ph_sections g)" "sorted_wrt (<) (ph_sections h)"
  shows "is_subsequence_of g h \<longleftrightarrow> set (ph_sections g) \<subset> set (ph_sections h)"
proof -
  have "distinct (ph_sections g)" "distinct (ph_sections h)" using assms by (simp_all add: strict_sorted_iff)
  then have "length (ph_sections g) = card (set (ph_sections g))" "length (ph_sections h) = card (set (ph_sections h))"
    by (simp_all add: distinct_card)
  then show ?thesis
    using std_includes_set [OF assms(2,1)] psubset_card_mono [of "set (ph_sections h)" "set (ph_sections g)"]
    by (auto simp: is_subsequence_of_def)
qed

lemma order_segments_sorted: "sorted_wrt (\<lambda>i j. \<not> is_subsequence_of (segs ! i) (segs ! j)) (order_segments segs wl)"
proof (induction segs wl rule: order_segments.induct)
  case (2 segs i wl)
  then show ?case
    by (cases "\<exists>j\<in>set wl. is_subsequence_of (segs ! i) (segs ! j)") (simp_all add: order_segments.simps(2) set_order_segments)
qed simp

text \<open>
  C29: The order in which the segments of a loaded file are laid out: every segment once, and none
  before a segment that has all its sections and more. The worklist of \<open>get_ordered_segments\<close>
  always comes to this end, and \<open>std::includes\<close>, which wants sorted ranges, gets them.
\<close>

theorem segments_ordered:
  "(\<exists>k. load u v s = (False, no_file k))
   \<or> (\<exists>r. load u v s = (True, r)
        \<and> distinct (get_ordered_segments (el_kind r) (el_segments r))
        \<and> set (get_ordered_segments (el_kind r) (el_segments r)) = {..<length (el_segments r)}
        \<and> sorted_wrt (\<lambda>i j. \<not> set (ph_sections (el_segments r ! i)) \<subset> set (ph_sections (el_segments r ! j)))
            (get_ordered_segments (el_kind r) (el_segments r)))"
proof -
  have "distinct (get_ordered_segments (el_kind r) (el_segments r))" for r
    using ordered_segments_set [of "el_kind r" "el_segments r"] by (intro card_distinct) simp
  moreover have "sorted_wrt (\<lambda>i j. \<not> set (ph_sections (el_segments r ! i)) \<subset> set (ph_sections (el_segments r ! j)))
      (get_ordered_segments (el_kind r) (el_segments r))" if "typed_elfio r" for r
  proof (rule sorted_wrt_mono_rel [rotated])
    show "sorted_wrt (\<lambda>i j. \<not> is_subsequence_of (el_segments r ! i) (el_segments r ! j)) (get_ordered_segments (el_kind r) (el_segments r))"
      unfolding get_ordered_segments_def by (rule order_segments_sorted)
  next
    fix i j assume "i \<in> set (get_ordered_segments (el_kind r) (el_segments r))" "j \<in> set (get_ordered_segments (el_kind r) (el_segments r))"
      "\<not> is_subsequence_of (el_segments r ! i) (el_segments r ! j)"
    with that show "\<not> set (ph_sections (el_segments r ! i)) \<subset> set (ph_sections (el_segments r ! j))"
      by (simp add: ordered_segments_set typed_elfio_def typed_segment_def is_subsequence_of_set)
  qed
  ultimately show ?thesis using load_typed [of u v s] by (auto simp: ordered_segments_set)
qed

end
