(* ===== verification/Elf_Instrument.thy ===== *)
theory Elf_Instrument
  imports Elf_Edit Elf_Typed Instrument
begin

text \<open>
  The instrumentation of a code object with the model of the ELF library in the place of the
  parameters \<open>br_load\<close> and \<open>br_save\<close>: from the bytes of the image to the bytes of the file.
\<close>

section \<open>Editing keeps the sections\<close>

text \<open>The edits change no more of a section than its data, which do not shrink, and leave an empty section empty.\<close>

definition edited_from :: "elf_section \<Rightarrow> elf_section \<Rightarrow> bool" where
  "edited_from x y \<longleftrightarrow> y = x\<lparr>sec_data := sec_data y\<rparr> \<and> length (sec_data x) \<le> length (sec_data y)
     \<and> (sec_data x = [] \<longrightarrow> sec_data y = [])"

lemma edited_from_refl [simp]: "edited_from x x"
  by (simp add: edited_from_def)

lemma edited_from_trans: "edited_from x y \<Longrightarrow> edited_from y z \<Longrightarrow> edited_from x z"
  unfolding edited_from_def
  by (metis dual_order.trans section_data.update_convs(2) elf_section.surjective section_data.surjective)

lemma edits_refl [simp]: "list_all2 edited_from xs xs"
  by (simp add: list.rel_refl)

lemma edits_trans: "list_all2 edited_from xs ys \<Longrightarrow> list_all2 edited_from ys zs \<Longrightarrow> list_all2 edited_from xs zs"
  by (rule list_all2_trans [OF edited_from_trans])

lemma edit_one: "edited_from (xs ! i) y \<Longrightarrow> list_all2 edited_from xs (xs[i := y])"
  by (cases "i < length xs") (auto simp: list_all2_conv_all_nth nth_list_update list_update_beyond)

lemma for_loop_preserves:
  assumes "for_loop i n f s = Inr s'" "P s" "\<And>j s s'. f j s = Inr s' \<Longrightarrow> P s \<Longrightarrow> P s'"
  shows "P s'"
  using assms(1,2)
proof (induction n arbitrary: i s)
  case (Suc n)
  then show ?case using assms(3) by (auto simp: rbind_eq_Inr)
qed simp

text \<open>A descriptor that the loop over the fields reads is inside the section, and the resource word in it.\<close>

lemma kd_loop_inside:
  assumes "kd_loop raw idx f kd = Some (Inr (f', kd'))" "idx < 64"
  shows "64 \<le> length raw"
proof -
  have "idx < 64 \<longrightarrow> (\<exists>x. Inr (f', kd') = (Inr x :: binint_error + nat \<times> bytes)) \<longrightarrow> 64 \<le> length raw"
  proof (rule kd_loop.raw_induct [where P = "\<lambda>raw idx f kd r. idx < 64 \<longrightarrow> (\<exists>x. r = Inr x) \<longrightarrow> 64 \<le> length raw", OF _ assms(1)])
    fix loop raw idx f kd r
    assume IH: "\<And>raw idx f kd r. loop raw idx f kd = Some r \<Longrightarrow> idx < 64 \<longrightarrow> (\<exists>x. r = Inr x) \<longrightarrow> 64 \<le> length raw"
      and run: "(if idx < 64 then (case map_of kd_fields idx of None \<Rightarrow> loop raw idx f kd
        | Some n \<Rightarrow> (case readToKd raw 64 idx n kd of Inl err \<Rightarrow> Some (Inl err)
            | Inr kd \<Rightarrow> loop raw (idx + n) (if idx = 48 then idx else f) kd)) else Some (Inr (f, kd))) = Some r"
    show "idx < 64 \<longrightarrow> (\<exists>x. r = Inr x) \<longrightarrow> 64 \<le> length raw"
    proof (intro impI)
      assume idx: "idx < 64" and r: "\<exists>x. r = Inr x"
      show "64 \<le> length raw"
      proof (cases "map_of kd_fields idx")
        case None
        with run idx r IH show ?thesis by auto
      next
        case (Some n)
        show ?thesis
        proof (cases "readToKd raw 64 idx n kd")
          case (Inl err)
          with Some run idx r show ?thesis by auto
        next
          case (Inr kd2)
          then have "loop raw (idx + n) (if idx = 48 then idx else f) kd2 = Some r" "idx + n \<le> length raw"
            using Some run idx by (auto simp: readToKd_def split: if_splits)
          with IH [of raw "idx + n"] r show ?thesis by (cases "idx + n < 64") auto
        qed
      qed
    qed
  qed
  with assms(2) show ?thesis by blast
qed

lemma editKernelDescriptor_edits:
  assumes "editKernelDescriptor uninit xs addr i n = Inr (regs, ys)" "length uninit = 64"
  shows "list_all2 edited_from xs ys"
proof -
  let ?x = "xs ! i" and ?o = "unat (addr - sec_address (xs ! i))"
  have o: "?o \<le> length (sec_data ?x)" using assms(1) by (auto simp: editKernelDescriptor_def Let_def split: if_splits)
  obtain f kd where run: "kd_loop (drop ?o (sec_data ?x)) 0 0 uninit = Some (Inr (f, kd))"
    using assms(1) by (auto simp: editKernelDescriptor_def Let_def split: if_splits option.splits sum.splits prod.splits)
  from kd_loop_inside [OF this] have len: "?o + 64 \<le> length (sec_data ?x)" using o by simp
  then have f: "f = 48" using run kd_loop_reads [of "drop ?o (sec_data ?x)" uninit] assms(2) by simp
  obtain w :: u32 where ys: "ys = xs[i := ?x\<lparr>sec_data := take (?o + 48) (sec_data ?x) @ le_bytes 4 w @ drop (?o + 48 + 4) (sec_data ?x)\<rparr>]"
    using assms(1) run f by (auto simp: editKernelDescriptor_def Let_def split: if_splits)
  have "edited_from ?x (?x\<lparr>sec_data := take (?o + 48) (sec_data ?x) @ le_bytes 4 w @ drop (?o + 48 + 4) (sec_data ?x)\<rparr>)"
    using len by (auto simp: edited_from_def)
  then show ?thesis unfolding ys by (rule edit_one)
qed

lemma edit_descriptors_edits:
  assumes "edit_descriptors uninit syms (regs, xs) = Inr (regs', ys)" "length uninit = 64"
  shows "list_all2 edited_from xs ys"
  using assms(1)
proof (induction syms arbitrary: regs xs)
  case (Cons s syms)
  obtain name addr i where s: "s = (name, addr, i)" by (cases s)
  from Cons.prems obtain regs2 zs where step: "(if contains name ''.kd'' then editKernelDescriptor uninit xs addr i 16 else Inr (regs, xs)) = Inr (regs2, zs)"
    and rest: "edit_descriptors uninit syms (regs2, zs) = Inr (regs', ys)" by (auto simp: s rbind_eq_Inr)
  from step have "list_all2 edited_from xs zs"
    using editKernelDescriptor_edits [OF _ assms(2)] by (auto split: if_splits)
  with Cons.IH [OF rest] show ?case by (blast intro: edits_trans)
qed simp

lemma edit_symbols_edits:
  assumes "edit_symbols br uninit i (regs, xs) = Inr (regs', ys)" "length uninit = 64"
  shows "list_all2 edited_from xs ys"
  using assms edit_descriptors_edits by (auto simp: edit_symbols_def split: if_splits)

text \<open>The text grows by what is appended to it; patches keep the length of the old part.\<close>

lemma store_at_length: "store_at txt off src = Inr out \<Longrightarrow> length out = length txt \<and> length src \<le> length txt"
  by (auto simp: store_at_def split: if_splits)

lemma addInstrumentation_length:
  assumes "addInstrumentation psec txt base instr code = Inr (psec', txt')"
  shows "length txt' = length txt \<and> length psec \<le> length psec' \<and> txt \<noteq> []"
  using assms by (auto simp: addInstrumentation_def Let_def rbind_eq_Inr dest!: store_at_length split: if_splits)

lemma instrument_one_length:
  assumes "instrument_one app a b bs regs is i (psec, txt) = Inr (psec', txt')"
  shows "length txt' = length txt \<and> length psec \<le> length psec' \<and> (txt = [] \<longrightarrow> psec' = psec)"
  using assms by (auto simp: instrument_one_def Let_def rbind_eq_Inr dest!: addInstrumentation_length split: if_splits)

lemma instrument_text_length:
  assumes "instrument_text app a b bs regs decode psec = Inr out"
  shows "length psec \<le> length out \<and> (psec = [] \<longrightarrow> out = [])"
proof -
  let ?is = "get_instructions decode psec"
  obtain p t where run: "for_loop 0 (length ?is) (instrument_one app a b bs regs ?is) (psec, psec) = Inr (p, t)"
    and out: "out = t @ drop (length t) p" "length t \<le> length p"
    using assms by (auto simp: instrument_text_def Let_def rbind_eq_Inr split: if_splits prod.splits)
  have "length (snd (p, t)) = length psec \<and> (psec = [] \<longrightarrow> fst (p, t) = [])"
    using run
  proof (rule for_loop_preserves)
    fix j s s' assume step: "instrument_one app a b bs regs ?is j s = Inr s'"
      and inv: "length (snd s) = length psec \<and> (psec = [] \<longrightarrow> fst s = [])"
    have "instrument_one app a b bs regs ?is j (fst s, snd s) = Inr (fst s', snd s')" using step by simp
    from instrument_one_length [OF this] inv show "length (snd s') = length psec \<and> (psec = [] \<longrightarrow> fst s' = [])" by auto
  qed simp
  with out show ?thesis by auto
qed

lemma instrument_section_edits:
  assumes "instrument_section app a b regs br i xs = Inr ys"
  shows "list_all2 edited_from xs ys"
proof (cases "sec_name (xs ! i) = ''.text''")
  case True
  with assms obtain d where d: "instrument_text app a b (word_of_nat BUFFER_SIZE) regs (br_decode br) (sec_data (xs ! i)) = Inr d"
    "ys = xs[i := (xs ! i)\<lparr>sec_data := d\<rparr>]" by (auto simp: instrument_section_def Let_def rbind_eq_Inr)
  from instrument_text_length [OF d(1)] have "edited_from (xs ! i) ((xs ! i)\<lparr>sec_data := d\<rparr>)" by (simp add: edited_from_def)
  then show ?thesis unfolding d(2) by (rule edit_one)
next
  case False
  then show ?thesis using assms by (simp add: instrument_section_def Let_def)
qed

text \<open>All the edits of a code object.\<close>

definition object_edits :: "hipt_app \<Rightarrow> bytes \<Rightarrow> u32 \<Rightarrow> 'w binint_runtime \<Rightarrow> u64 \<Rightarrow> u64 \<Rightarrow> elf_section list
    \<Rightarrow> binint_error + elf_section list" where
  "object_edits app uninit uninit_regs br atomics buffer sections =
     rbind (for_loop 0 (length sections) (edit_symbols br uninit) (uninit_regs, sections)) (\<lambda>(regsUsed, sections).
     for_loop 0 (length sections) (instrument_section app atomics buffer regsUsed br) sections)"

lemma object_edits_edits:
  assumes "object_edits app uninit regs br a b xs = Inr ys" "length uninit = 64"
  shows "list_all2 edited_from xs ys"
proof -
  from assms(1) obtain regs' zs where zs: "for_loop 0 (length xs) (edit_symbols br uninit) (regs, xs) = Inr (regs', zs)"
    and ys: "for_loop 0 (length zs) (instrument_section app a b regs' br) zs = Inr ys"
    by (auto simp: object_edits_def rbind_eq_Inr)
  have "list_all2 edited_from xs (snd (regs', zs))"
    using zs
  proof (rule for_loop_preserves)
    fix j s s' assume step: "edit_symbols br uninit j s = Inr s'" and inv: "list_all2 edited_from xs (snd s)"
    have "edit_symbols br uninit j (fst s, snd s) = Inr (fst s', snd s')" using step by simp
    from edits_trans [OF inv edit_symbols_edits [OF this assms(2)]] show "list_all2 edited_from xs (snd s')" .
  qed simp
  moreover have "list_all2 edited_from zs ys"
    using ys by (rule for_loop_preserves) (auto intro: edits_trans instrument_section_edits)
  ultimately show ?thesis using edits_trans by simp
qed

section \<open>Sections as the instrumentation sees them\<close>

definition section_of :: "elf_kind \<Rightarrow> elf_sec \<Rightarrow> elf_section" where
  "section_of k s = \<lparr>sec_type = sec_type_of k s, sec_data = sec_contents k s, sec_name = sh_title s, sec_address = sec_address_of k s\<rparr>"

definition sections_of :: "elfio \<Rightarrow> elf_section list" where
  "sections_of r = map (section_of (el_kind r)) (el_sections r)"

text \<open>\<open>set_data\<close> was called on the sections whose data differ.\<close>

definition write_back :: "elfio \<Rightarrow> elf_section list \<Rightarrow> elfio" where
  "write_back r sections = r\<lparr>el_sections := map2 (\<lambda>s x. if sec_data x = sec_contents (el_kind r) s then s
      else set_data (el_kind r) (sec_data x) s) (el_sections r) sections\<rparr>"

text \<open>
  The file that \<open>save\<close> leaves: it is opened first, so that it is empty when the layout is refused.
\<close>

definition object_file :: "elfio \<Rightarrow> bytes" where
  "object_file r = (case save r of Inl e \<Rightarrow> [] | Inr (r', out) \<Rightarrow> out)"

definition read_object :: "(nat \<Rightarrow> nat \<Rightarrow> u8) \<Rightarrow> (nat \<Rightarrow> nat \<Rightarrow> u8) \<Rightarrow> bytes \<Rightarrow> elfio" where
  "read_object u v img = snd (load u v (open_stream True img))"

text \<open>The runtime with the ELF library as it is; the world has the files.\<close>

definition elf_runtime :: "(nat \<Rightarrow> nat \<Rightarrow> u8) \<Rightarrow> (nat \<Rightarrow> nat \<Rightarrow> u8) \<Rightarrow> bytes \<Rightarrow> 'w binint_runtime
    \<Rightarrow> ((string \<Rightarrow> bytes option) \<times> 'w) binint_runtime" where
  "elf_runtime u v img br = \<lparr>br_load = (\<lambda>i. sections_of (read_object u v i)), br_symbols = br_symbols br, br_decode = br_decode br,
     br_malloc = (\<lambda>n (fs, w). let (p, w) = br_malloc br n w in (p, fs, w)),
     br_copy_to = (\<lambda>p b (fs, w). let (r, w) = br_copy_to br p b w in (r, fs, w)),
     br_save = (\<lambda>filename sections (fs, w). (fs(filename \<mapsto> object_file (write_back (read_object u v img) sections)), w))\<rparr>"

lemma binint_result:
  assumes "binintSetupForFatBin app uninit regs (elf_runtime u v img br) img filename (fs, w) = Inr (a, b, fs', w')"
  shows "\<exists>ys. object_edits app uninit regs (elf_runtime u v img br) a b (sections_of (read_object u v img)) = Inr ys
    \<and> fs' = fs(filename \<mapsto> object_file (write_back (read_object u v img) ys))"
  using assms
  by (auto simp: binintSetupForFatBin_def object_edits_def elf_runtime_def Let_def rbind_eq_Inr split: prod.splits if_splits)

section \<open>From the image to the file\<close>

lemma reads_as_section_of:
  assumes "reads_as k s t" "length (sh_header s) = shdr_size k" "length (sh_header t) = shdr_size k"
  shows "section_of k t = section_of k s"
proof -
  have "set_wide k sh_offset 0 (sh_header t) = set_wide k sh_offset 0 (sh_header s)"
    using assms(1) by (simp add: reads_as_def)
  then have eq: "sh_header (set_sec_offset k 0 t) = sh_header (set_sec_offset k 0 s)" by (simp add: set_sec_offset_def)
  have "sec_type_of k t = sec_type_of k s" "sec_address_of k t = sec_address_of k s"
    using getters_cong(1,5) [OF eq, of k] set_offset_getters(2,4) [OF assms(2)] set_offset_getters(2,4) [OF assms(3)] by auto
  then show ?thesis using assms(1) by (simp add: section_of_def reads_as_def)
qed

lemma write_back_section:
  assumes "edited_from (section_of k s) x" "length (sh_header s) = shdr_size k" "is64 k" "length (sec_data x) < 2 ^ 32"
    and "t = (if sec_data x = sec_contents k s then s else set_data k (sec_data x) s)"
  shows "section_of k t = x" "t = s \<or> edited k s t \<and> x \<noteq> section_of k s"
proof -
  have x: "x = (section_of k s)\<lparr>sec_data := sec_data x\<rparr>" "sec_contents k s = [] \<Longrightarrow> sec_data x = []"
    "length (sec_contents k s) \<le> length (sec_data x)"
    using assms(1) by (simp_all add: edited_from_def section_of_def)
  have "section_of k t = x \<and> (t = s \<or> edited k s t \<and> x \<noteq> section_of k s)"
  proof (cases "sec_data x = sec_contents k s")
    case True
    then show ?thesis using x(1) assms(5) by (simp add: section_of_def)
  next
    case False
    with x(2) have ne: "sec_contents k s \<noteq> []" by auto
    then have occ: "occupies k s" by (auto simp: sec_contents_def split: if_splits)
    have raw: "sec_data x \<noteq> []" using x(3) ne by auto
    note set = set_data_facts [OF assms(2,3) occ raw assms(4)]
    have "x \<noteq> section_of k s" using False by (auto simp: section_of_def)
    moreover have "section_of k (set_data k (sec_data x) s) = (section_of k s)\<lparr>sec_data := sec_data x\<rparr>"
      by (simp add: section_of_def set)
    ultimately show ?thesis using x(1) False occ raw assms(4,5) by (auto simp: edited_def)
  qed
  then show "section_of k t = x" "t = s \<or> edited k s t \<and> x \<noteq> section_of k s" by blast+
qed

lemma write_back_ok:
  assumes "saveable r" "list_all2 edited_from (sections_of r) ys" "\<forall>x\<in>set ys. length (sec_data x) < 2 ^ 32"
    and "i = unat (get_half (el_kind r) (el_header r) e_shstrndx)" "i < length ys \<Longrightarrow> ys ! i = sections_of r ! i"
  shows "saveable (write_back r ys) \<and> sections_of (write_back r ys) = ys"
proof -
  let ?k = "el_kind r" and ?secs = "el_sections r"
  let ?t = "\<lambda>s x. if sec_data x = sec_contents ?k s then s else set_data ?k (sec_data x) s"
  note r = saveable_facts [OF assms(1)]
  have len: "length ys = length ?secs" using list_all2_lengthD [OF assms(2)] by (simp add: sections_of_def)
  have at: "section_of ?k (?t (?secs ! j) (ys ! j)) = ys ! j"
      "?t (?secs ! j) (ys ! j) = ?secs ! j \<or> edited ?k (?secs ! j) (?t (?secs ! j) (ys ! j)) \<and> ys ! j \<noteq> section_of ?k (?secs ! j)"
    if "j < length ys" for j
  proof -
    have "edited_from (section_of ?k (?secs ! j)) (ys ! j)"
      using list_all2_nthD [OF assms(2), of j] that len by (simp add: sections_of_def)
    moreover have "length (sh_header (?secs ! j)) = shdr_size ?k"
      using r(9) that len by (simp add: sane_sections_def sane_section_def)
    ultimately show "section_of ?k (?t (?secs ! j) (ys ! j)) = ys ! j"
      "?t (?secs ! j) (ys ! j) = ?secs ! j \<or> edited ?k (?secs ! j) (?t (?secs ! j) (ys ! j)) \<and> ys ! j \<noteq> section_of ?k (?secs ! j)"
      using write_back_section [OF _ _ r(1) _ refl, of "?secs ! j" "ys ! j"] assms(3) that by auto
  qed
  let ?zs = "map2 ?t ?secs ys"
  have "saveable (r\<lparr>el_sections := ?zs\<rparr>)"
  proof (rule edits_saveable [OF assms(1)])
    show "length ?zs = length ?secs" using len by simp
    show "\<forall>j<length ?zs. ?zs ! j = ?secs ! j \<or> edited ?k (?secs ! j) (?zs ! j)
        \<and> unat (get_half ?k (el_header r) e_shstrndx) \<noteq> j"
    proof (intro allI impI)
      fix j assume "j < length ?zs"
      then have j: "j < length ys" using len by simp
      have "ys ! j = section_of ?k (?secs ! j)" if "i = j" using assms(5) that j len by (simp add: sections_of_def)
      with at(2) [OF j] assms(4) j len
      show "?zs ! j = ?secs ! j \<or> edited ?k (?secs ! j) (?zs ! j) \<and> unat (get_half ?k (el_header r) e_shstrndx) \<noteq> j"
        by (simp only: nth_map length_zip nth_zip len min.idem prod.case) blast
    qed
  qed
  moreover have "map (section_of ?k) ?zs = ys"
    using at(1) len by (intro nth_equalityI) simp_all
  ultimately show ?thesis by (simp add: write_back_def sections_of_def)
qed

lemma object_file_reads:
  assumes "saveable r"
  shows "object_file r = [] \<and> el_segments r \<noteq> []
    \<or> fst (load u v (open_stream memory (object_file r))) \<and> sections_of (snd (load u v (open_stream memory (object_file r)))) = sections_of r"
proof (cases "save r")
  case (Inl e)
  then show ?thesis using save_loads_back [OF assms, of u v memory] by (simp add: object_file_def)
next
  case (Inr p)
  obtain r' out where p: "p = (r', out)" by (cases p)
  with Inr save_loads_back [OF assms, of u v memory] obtain r2 where r2: "load u v (open_stream memory out) = (True, r2)"
    "el_kind r2 = el_kind r" "list_all2 (reads_as (el_kind r)) (el_sections r) (el_sections r2)" by auto
  have typed: "typed_elfio r2" using load_typed [of u v "open_stream memory out"] r2(1) by auto
  have "section_of (el_kind r) (el_sections r2 ! i) = section_of (el_kind r) (el_sections r ! i)" if i: "i < length (el_sections r)" for i
  proof (rule reads_as_section_of)
    show "reads_as (el_kind r) (el_sections r ! i) (el_sections r2 ! i)" by (rule list_all2_nthD [OF r2(3) i])
    show "length (sh_header (el_sections r ! i)) = shdr_size (el_kind r)"
      using saveable_facts(9) [OF assms] i by (simp add: sane_sections_def sane_section_def)
    show "length (sh_header (el_sections r2 ! i)) = shdr_size (el_kind r)"
      using typed i list_all2_lengthD [OF r2(3)] by (simp add: typed_elfio_def typed_section_def r2(2))
  qed
  then have "sections_of r2 = sections_of r"
    using list_all2_lengthD [OF r2(3)] by (auto simp: sections_of_def r2(2) intro: nth_equalityI)
  then show ?thesis using r2(1) by (simp add: object_file_def Inr p)
qed

text \<open>
  C25: Instrumenting a code object, from file to file: when \<open>binintSetupForFatBin\<close> returns on the image
  of a code object, it has written one file; either the ELF library refused the layout and the
  file is empty, or loading the file gives exactly the sections that the edits of the kernel
  descriptors and of the text made of those of the image, with nothing lost between \<open>set_data\<close>,
  \<open>save\<close> and \<open>load\<close>.
\<close>

theorem instrumented_file:
  assumes "binintSetupForFatBin app uninit regs (elf_runtime u v img br) img filename (fs, w) = Inr (a, b, fs', w')"
    and "object_edits app uninit regs (elf_runtime u v img br) a b (sections_of (read_object u v img)) = Inr ys"
    and "saveable (read_object u v img)" "length uninit = 64" "\<forall>x\<in>set ys. length (sec_data x) < 2 ^ 32"
    and "i = unat (get_half (el_kind (read_object u v img)) (el_header (read_object u v img)) e_shstrndx)"
    and "i < length ys \<Longrightarrow> ys ! i = sections_of (read_object u v img) ! i"
  shows "\<exists>out. fs' = fs(filename \<mapsto> out)
    \<and> (out = [] \<and> el_segments (read_object u v img) \<noteq> []
       \<or> fst (load u' v' (open_stream memory out)) \<and> sections_of (snd (load u' v' (open_stream memory out))) = ys)"
proof -
  let ?r = "read_object u v img"
  have "fs' = fs(filename \<mapsto> object_file (write_back ?r ys))" using binint_result [OF assms(1)] assms(2) by auto
  moreover have "saveable (write_back ?r ys)" "sections_of (write_back ?r ys) = ys"
    using write_back_ok [OF assms(3) object_edits_edits [OF assms(2,4)] assms(5,6,7)] by blast+
  moreover have "el_segments (write_back ?r ys) = el_segments ?r" by (simp add: write_back_def)
  ultimately show ?thesis using object_file_reads [of "write_back ?r ys" u' v' memory] by auto
qed

section \<open>A sample\<close>

text \<open>An image with a text section of three instructions and no segments.\<close>

definition object_strings :: bytes where
  "object_strings = [0, 46, 116, 101, 120, 116, 0, 46, 115, 0]"

definition object_image :: bytes where
  "object_image = set_half sample_kind e_shnum 3 (set_wide sample_kind e_shoff 96 sample_header)
     @ sample_text @ object_strings @ [0, 0] @ sh_header sample_null
     @ set_wide sample_kind sh_offset 64 (sh_header (sample_section 1 1 1 6 0x100 sample_text []))
     @ set_wide sample_kind sh_offset 84 (sh_header (sample_section 2 7 3 0 0 object_strings []))"

abbreviation object_reader :: elfio where
  "object_reader \<equiv> read_object (\<lambda>_ _. 0) (\<lambda>_ _. 0) object_image"

text \<open>What is needed of the file that was read.\<close>

definition object_header :: "elfio \<Rightarrow> elf_kind \<times> nat \<times> bytes \<times> u8 \<times> u8 \<times> u16 list \<times> bool" where
  "object_header r = (let k = el_kind r; h = el_header r in
     (k, length h, take 4 h, h ! 4, h ! 5, map (get_half k h) [e_ehsize, e_phentsize, e_shentsize, e_shstrndx], el_segments r = []))"

definition object_table :: "elfio \<Rightarrow> (nat \<times> u16 \<times> bool \<times> u64 \<times> u64 \<times> nat option \<times> bool) list" where
  "object_table r = (let k = el_kind r in map (\<lambda>s. (length (sh_header s), sh_index s, is_address_set s, sec_size_of k s, sec_align_of k s,
     map_option length (sh_data s), sh_title s = file_names k (el_header r) (el_sections r) s)) (el_sections r))"

lemma object_load:
  "case load (\<lambda>_ _. 0) (\<lambda>_ _. 0) (open_stream True object_image) of (ok, r) \<Rightarrow>
     object_header r = (sample_kind, 64, [0x7F, 0x45, 0x4C, 0x46], 2, 1, [64, 56, 64, 2], True)
     \<and> object_table r = [(64, 0, True, 0, 4, None, True), (64, 1, True, 20, 4, Some 21, True), (64, 2, True, 10, 4, Some 11, True)]
     \<and> sections_of r = [\<lparr>sec_type = 0, sec_data = [], sec_name = [], sec_address = 0\<rparr>,
       \<lparr>sec_type = 1, sec_data = sample_text, sec_name = ''.text'', sec_address = 0x100\<rparr>,
       \<lparr>sec_type = 3, sec_data = object_strings, sec_name = ''.s'', sec_address = 0\<rparr>]"
  by code_simp

lemma object_facts:
  "object_header object_reader = (sample_kind, 64, [0x7F, 0x45, 0x4C, 0x46], 2, 1, [64, 56, 64, 2], True)"
  "object_table object_reader = [(64, 0, True, 0, 4, None, True), (64, 1, True, 20, 4, Some 21, True), (64, 2, True, 10, 4, Some 11, True)]"
  "sections_of object_reader = [\<lparr>sec_type = 0, sec_data = [], sec_name = [], sec_address = 0\<rparr>,
     \<lparr>sec_type = 1, sec_data = sample_text, sec_name = ''.text'', sec_address = 0x100\<rparr>,
     \<lparr>sec_type = 3, sec_data = object_strings, sec_name = ''.s'', sec_address = 0\<rparr>]"
  using object_load by (auto simp: read_object_def)

lemma object_fields:
  "el_kind object_reader = sample_kind" "el_segments object_reader = []" "length (el_header object_reader) = 64"
  "take 4 (el_header object_reader) = [0x7F, 0x45, 0x4C, 0x46]" "el_header object_reader ! 4 = 2" "el_header object_reader ! 5 = 1"
  "get_half sample_kind (el_header object_reader) e_ehsize = 64" "get_half sample_kind (el_header object_reader) e_phentsize = 56"
  "get_half sample_kind (el_header object_reader) e_shentsize = 64" "get_half sample_kind (el_header object_reader) e_shstrndx = 2"
  "length (el_sections object_reader) = 3"
  using object_facts(1,2) by (auto simp: object_header_def object_table_def Let_def dest: arg_cong [where f = length])

lemma object_saveable: "saveable object_reader"
proof -
  let ?k = sample_kind and ?secs = "el_sections object_reader"
  have row: "object_table object_reader ! i = (length (sh_header (?secs ! i)), sh_index (?secs ! i), is_address_set (?secs ! i),
      sec_size_of ?k (?secs ! i), sec_align_of ?k (?secs ! i), map_option length (sh_data (?secs ! i)),
      sh_title (?secs ! i) = file_names ?k (el_header object_reader) ?secs (?secs ! i))" if "i < 3" for i
    using that by (simp add: object_table_def object_fields)
  have null: "sec_type_of ?k (?secs ! 0) = 0"
    using arg_cong [OF object_facts(3), of "\<lambda>xs. sec_type (xs ! 0)"] by (simp add: sections_of_def object_fields section_of_def)
  have "sane_section ?k i (?secs ! i) \<and> sh_title (?secs ! i) = file_names ?k (el_header object_reader) ?secs (?secs ! i)"
    if "i < 3" for i
  proof -
    from that consider "i = 0" | "i = 1" | "i = 2" by arith
    then show ?thesis
    proof cases
      case 1
      then show ?thesis using row [of 0] null
        by (simp add: object_facts(2) sane_section_def shdr_size_def sample_parts elf_bound_def has_data_def occupies_def SHT_NULL_def)
    next
      case 2
      then show ?thesis using row [of 1]
        by (cases "sh_data (?secs ! 1)") (auto simp: object_facts(2) sane_section_def shdr_size_def sample_parts elf_bound_def has_data_def)
    next
      case 3
      then show ?thesis using row [of 2]
        by (cases "sh_data (?secs ! 2)") (auto simp: object_facts(2) sane_section_def shdr_size_def sample_parts elf_bound_def has_data_def)
    qed
  qed
  then have "\<forall>i<3. sane_section ?k i (?secs ! i)" "\<forall>s\<in>set ?secs. sh_title s = file_names ?k (el_header object_reader) ?secs s"
    using object_fields(11) by (simp_all add: all_set_conv_all_nth)
  moreover from this(1) have "sane_sections ?k ?secs"
    using null by (simp add: sane_sections_def object_fields occupies_def SHT_NULL_def)
  ultimately show ?thesis
    by (simp add: saveable_def Let_def object_fields sample_parts ELFCLASS64_def ELFDATA2LSB_def)
qed

definition object_runtime :: "unit binint_runtime" where
  "object_runtime = \<lparr>br_load = (\<lambda>_. []), br_symbols = (\<lambda>_ _. []), br_decode = sample_decode,
     br_malloc = (\<lambda>n w. (if n = 4 then 0x1000 else 0x2000, w)), br_copy_to = (\<lambda>_ _ w. (0, w)), br_save = (\<lambda>_ _ w. w)\<rparr>"

definition object_text :: bytes where
  "object_text = detour_text sample_text 8 8 (insn_ptr (create_s_branch (word_of_nat 8) (word_of_nat 20) None))
     @ get_injected_instructions HIPT_APP_INSTRCOUNT 0x1000 0x2000 (word_of_nat BUFFER_SIZE) 0 24 @ piece sample_text 8 8
     @ insn_ptr (create_s_branch (word_of_nat (20 + 204 + 8)) (word_of_nat (8 + 4)) None)"

lemma object_instrumented:
  "instrument_text HIPT_APP_INSTRCOUNT 0x1000 0x2000 (word_of_nat BUFFER_SIZE) 24 sample_decode sample_text = Inr object_text"
  "length object_text < 2 ^ 32"
proof -
  have third: "2 < length (get_instructions sample_decode sample_text)" "get_instructions sample_decode sample_text ! 2
      = \<lparr>cdna = ''GLOBAL_LOAD'', instr_size = 8, instr_offset = 8, instr_data = piece sample_text 8 8\<rparr>"
    by (simp_all add: get_instructions_def sample_decode_def sample_text_def piece_def numeral_2_eq_2)
  have len: "length sample_text = 20" by (simp add: sample_text_def)
  show "instrument_text HIPT_APP_INSTRCOUNT 0x1000 0x2000 (word_of_nat BUFFER_SIZE) 24 sample_decode sample_text = Inr object_text"
    unfolding object_text_def using instrument_text_ok [OF third, of 8 8] by (simp add: len)
  show "length object_text < 2 ^ 32" by (simp add: object_text_def detour_text_def length_injected piece_def len)
qed

abbreviation object_result :: "elf_section list" where
  "object_result \<equiv> [\<lparr>sec_type = 0, sec_data = [], sec_name = [], sec_address = 0\<rparr>,
     \<lparr>sec_type = 1, sec_data = object_text, sec_name = ''.text'', sec_address = 0x100\<rparr>,
     \<lparr>sec_type = 3, sec_data = object_strings, sec_name = ''.s'', sec_address = 0\<rparr>]"

abbreviation object_runtime_elf :: "((string \<Rightarrow> bytes option) \<times> unit) binint_runtime" where
  "object_runtime_elf \<equiv> elf_runtime (\<lambda>_ _. 0) (\<lambda>_ _. 0) object_image object_runtime"

lemma object_edited:
  "object_edits HIPT_APP_INSTRCOUNT (replicate 64 0) 24 object_runtime_elf 0x1000 0x2000 (sections_of object_reader) = Inr object_result"
proof -
  have decode: "br_decode object_runtime_elf = sample_decode" by (simp add: elf_runtime_def object_runtime_def)
  show ?thesis
    by (simp add: object_facts(3) object_edits_def edit_symbols_def SHT_SYMTAB_def instrument_section_def decode object_instrumented(1))
qed

lemma binint_run:
  assumes "br_malloc br 4 w = (a, w1)" "br_malloc br (8 * word_of_nat BUFFER_SIZE) w1 = (b, w2)"
    and "br_copy_to br a (replicate 4 0) w2 = (0, w3)" "br_copy_to br b (replicate (8 * BUFFER_SIZE) 0) w3 = (0, w4)"
    and "a \<noteq> 0" "b \<noteq> 0" "object_edits app uninit regs br a b (br_load br img) = Inr ys"
  shows "binintSetupForFatBin app uninit regs br img filename w = Inr (a, b, br_save br filename ys w4)"
  using assms by (auto simp: binintSetupForFatBin_def object_edits_def Let_def rbind_eq_Inr)

lemma object_run:
  "binintSetupForFatBin HIPT_APP_INSTRCOUNT (replicate 64 0) 24 object_runtime_elf object_image ''f'' (\<lambda>_. None, ())
     = Inr (0x1000, 0x2000, [''f'' \<mapsto> object_file (write_back object_reader object_result)], ())"
proof -
  have buffer: "8 * word_of_nat BUFFER_SIZE \<noteq> (4 :: u64)" by (simp add: BUFFER_SIZE_def)
  have load: "br_load object_runtime_elf object_image = sections_of object_reader" by (simp add: elf_runtime_def)
  have save: "br_save object_runtime_elf ''f'' object_result (\<lambda>_. None, ())
      = ([''f'' \<mapsto> object_file (write_back object_reader object_result)], ())" by (simp add: elf_runtime_def)
  show ?thesis
    unfolding save [symmetric]
    by (rule binint_run [where ?w1.0 = "(\<lambda>_. None, ())" and ?w2.0 = "(\<lambda>_. None, ())" and ?w3.0 = "(\<lambda>_. None, ())"])
      (use object_edited buffer in \<open>simp_all add: load\<close>, simp_all add: elf_runtime_def object_runtime_def)
qed

lemma instrumented_file_witness:
  "\<exists>out. [''f'' \<mapsto> object_file (write_back object_reader object_result)] = [''f'' \<mapsto> out]
     \<and> fst (load (\<lambda>_ _. 0) (\<lambda>_ _. 0) (open_stream False out))
     \<and> sections_of (snd (load (\<lambda>_ _. 0) (\<lambda>_ _. 0) (open_stream False out))) = object_result"
proof -
  have "\<forall>x\<in>set object_result. length (sec_data x) < 2 ^ 32" using object_instrumented(2) by (simp add: object_strings_def)
  then show ?thesis
    using instrumented_file [OF object_run object_edited object_saveable _ _ refl, of "\<lambda>_ _. 0" "\<lambda>_ _. 0" False]
    by (simp only: object_fields object_facts(3)) simp
qed

end
