(* ===== verification/Spec2Isabelle.thy ===== *)
theory Spec2Isabelle
  imports Atomic_Queue Hash_Table Insn_Factory Instrument Msgpack_Roundtrip Msgpack_Skip Arg_Metadata Xxhash Capture Writer_Thread Replay_Read
    Replay_Step Launch Elf_Instrument
begin

text \<open>
  hiptracer records the HIP calls of an application and replays them without it. A library that
  is loaded before the application wraps the HIP functions (\<^verbatim>\<open>hip/hip.cpp\<close>, \<^verbatim>\<open>hip/hip-fatbin.cpp\<close>);
  each wrapper calls the real function and pushes an event on a queue. A thread takes the events
  from the queue and stores them in a SQLite database and in files of host data. The replay
  program (\<^verbatim>\<open>replay/replay.cpp\<close>) reads them back and issues the calls again, with the captured
  pointers translated to the ones it allocates itself. Both sides need the layout of the arguments
  of each kernel, which they read from MessagePack metadata in the notes of the code objects
  (\<^verbatim>\<open>include/elf.h\<close>, \<^verbatim>\<open>include/msgpuck.h\<close>), with XXH64 hashes as keys on the capturing side. When
  asked to, the tracer loads a code object with the ELF library (\<^verbatim>\<open>include/elfio\<close>), adds a detour
  to its text and saves it as a file, from which the kernel is loaded.

  \<^bold>\<open>Theories.\<close> In the order of their dependencies:
    \<^item> \<open>HT_Prelude\<close>: integers of fixed width, bytes in memory, errors as sums (\<open>rbind\<close>), counted
      loops (\<open>for_loop\<close>), decimal numbers, and the lemmas about them.
    \<^item> \<open>Msgpack_Hints\<close>, \<open>Msgpack_Codec\<close>: the tables of \<^verbatim>\<open>hip/hints.c\<close> and the encoders and decoders
      of \<^verbatim>\<open>msgpuck.h\<close>. \<open>Msgpack_Roundtrip\<close>: decoding undoes encoding, encodings are the shortest.
      \<open>Msgpack_Skip\<close>: \<open>mp_next\<close> and \<open>mp_check\<close>; both terminate, never read outside the
      buffer once checked, and accept the same buffers.
    \<^item> \<open>Xxhash\<close>: one-shot and streaming XXH64 and their equality.
    \<^item> \<open>Flat_Hash_Map\<close>, \<open>Hash_Table\<close>: the open-addressing table of \<^verbatim>\<open>include/flat_hash_map.hpp\<close>; its
      invariant, and that storing and looking up is that of a finite map.
    \<^item> \<open>Atomic_Queue\<close>: the ring buffer \<^verbatim>\<open>AtomicQueue2\<close> of \<^verbatim>\<open>include/atomic_queue\<close>; operations that do
      not overlap answer as a bounded list does.
    \<^item> \<open>Insn_Factory\<close>, \<open>Instrument\<close>: the instruction encoders of \<^verbatim>\<open>include/InsnFactory.h\<close> and the
      patching of kernel descriptors and text sections in \<^verbatim>\<open>hip/hip-fatbin.cpp\<close>; what the patched
      section executes, and where its branches lead.
    \<^item> \<open>Elf_File\<close>, \<open>Elf_Save\<close>: the ELF library of \<^verbatim>\<open>include/elfio\<close>: headers as the bytes of their
      structures with getters and setters for both classes and byte orders, \<open>load\<close> from a stream,
      the symbol and string tables, and \<open>save\<close> with the order and layout of segments and sections.
      \<open>Elf_Pieces\<close>: which bytes at which places \<open>load\<close> reads and \<open>save\<close> writes. \<open>Elf_Layout\<close>: the
      invariant of the layout, no two sections overlap. \<open>Elf_Roundtrip\<close>: loading what was saved
      gives the sections back, and the layout that is refused. \<open>Elf_Edit\<close>: the same after
      \<open>set_data\<close>. \<open>Elf_Typed\<close>: what \<open>load\<close> guarantees for every input, and the order of segments.
      \<open>Elf_Instrument\<close>: the instrumentation on top of it, from the image to the file.
    \<^item> \<open>Trace_Types\<close>: the events of \<^verbatim>\<open>include/trace.h\<close>.
    \<^item> \<open>Sqlite_Store\<close>: binding of parameters, column access and integer conversion of \<^verbatim>\<open>sqlite3.c\<close>
      over tables with an integer primary key.
    \<^item> \<open>Event_Writer\<close>: \<open>insert_*\<close> and the loop body of \<open>prepare_events\<close>: every event of the
      queue becomes exactly one row, in order.
    \<^item> \<open>Arg_Info\<close>, \<open>Arg_Metadata\<close>: \<open>getArgInfo\<close>, \<open>oldGetArgInfo\<close> and the note sections; both
      build exactly the tables that the metadata describe.
    \<^item> \<open>Capture\<close>: the wrappers and \<open>pushback_event\<close>; tracing does not change what the application
      sees, and records every call once with consecutive numbers.
    \<^item> \<open>Launch\<close>: registration of fat binaries and launches; the packed arguments.
    \<^item> \<open>Writer_Thread\<close>: the interleaving of the application, the writer thread and the destructor
      of the tracer, as a step relation with its invariant.
    \<^item> \<open>Replay_Read\<close>: \<open>get_malloc\<close>, \<open>get_free\<close>, \<open>get_memcpy\<close>, \<open>get_launch\<close> and the loading loops,
      against what the writer stored. \<open>Replay_Step\<close>: \<open>step_event\<close> and the command loop; replaying
      the stored trace is executing the captured events.
  This theory holds the properties that span components.

  \<^bold>\<open>Conventions.\<close> Machine integers are words of their width. A pointer is a 64-bit word, 0 the null
  pointer. The real HIP library, the device and the memory of the application are parameters: the
  records \<open>hip_runtime\<close>, \<open>module_runtime\<close> and \<open>replay_runtime\<close> of functions on an unknown world. An
  uninitialised variable is an argument of the definition that reads it (\<open>ev\<close>, \<open>fresh\<close>,
  \<open>uninit\<close>, \<open>stack\<close>). A read or write outside a buffer, a failing assertion and an exception are
  values of an error type.

  \<^bold>\<open>Bounds and fuel.\<close> \<open>mp_next_loop\<close> and \<open>mp_check_loop\<close> recurse on the bytes that are left, which
  each step shortens; \<open>process_section\<close> on the distance to the end of the section. \<open>emplace\<close> of the
  hash table has fuel for the nesting of \<open>grow\<close>: every level doubles the table, so that 61 is enough
  for every table that fits \<open>2 ^ 60\<close> entries, and \<open>hash_table_is_map\<close> excludes running out of it.
  \<open>kd_loop\<close> is a partial function, as its source loops for ever at an offset that is no field; it
  is proved to return from 0. \<open>hipStreamCreateWithFlags\<close> is one because it never returns. The end
  of the program takes at most two steps for each queued event and seven more (\<open>exit_drains\<close>).
  \<open>order_segments\<close> ends because a largest segment comes to the front of the worklist after finitely
  many rotations. \<open>elf_bound\<close>, \<open>2 ^ 40\<close>, bounds every size, alignment and distance in a file that is
  saved: with fewer than \<open>2 ^ 16\<close> sections and segments no position reaches \<open>2 ^ 62\<close>.

  \<^bold>\<open>Idealisations.\<close> The steps of \<open>Writer_Thread\<close> are sequentially consistent, and the queue is the list
  of its elements, which \<open>queue_refines_list\<close> justifies for operations that do not overlap. The
  tables of kernel arguments are finite maps, as \<open>hash_table_is_map\<close> shows. In \<open>Replay_Read\<close> an
  event holds the string that its name points to; in the code that pointer dangles when the vector
  of names grows. The SQL text is represented by its table and column names, and the statements
  always parse. An output file accepts every byte, and an allocation not larger than the input
  succeeds; a string read from a table of strings ends at the end of the array at the latest.

  \<^bold>\<open>Not modelled.\<close> The SQL compiler, the pager and the B-tree of SQLite; the vendored libraries for
  processes and options, which the program only calls; the command line front end and the
  progress bar, which only start processes and print; the Dyninst decoder, which is not in the
  repository; the parts of the ELF library that create files, sections and symbols or read
  relocations, dynamic sections, arrays and versions, which the program does not use.
\<close>

section \<open>From capture to replay\<close>



section \<open>Pointers from launch to launch\<close>

text \<open>
  A launch whose arguments \<open>args\<close> lie in memory as the metadata \<open>infos\<close> of the kernel say: every
  argument has a place of its own in the packed buffer, and the buffer arguments are pointers.
\<close>

definition launchable :: "(u64 \<Rightarrow> nat \<Rightarrow> bytes) \<Rightarrow> ArgInfo list \<Rightarrow> u64 list \<Rightarrow> bool" where
  "launchable read infos args \<longleftrightarrow>
     (let ls = map size_offset_of infos; bs = map2 (arg_bytes read) ls args
      in length infos = length args \<and> length infos < 2 ^ 63 \<and> packed_size ls \<le> 0x7FFFFFFFFFFFFFFF
       \<and> (\<forall>i<length ls. unat (so_offset (ls ! i)) + length (bs ! i) \<le> unat (packed_size ls))
       \<and> disjoint_pieces ls bs
       \<and> (\<forall>i<length infos. is_buffer (infos ! i) \<longrightarrow> info_size (infos ! i) = 8 \<and> length (bs ! i) = 8))"

lemma stored_layout:
  assumes "inj_on key_hash (insert k (arg_key k ` {0..<length infos}))" "length infos < 2 ^ 63"
  shows "kernel_layout (store_kernel k infos t) k (map size_offset_of infos)"
proof -
  have "inj_on (\<lambda>j. key_hash (arg_key k j)) {0..<0 + length infos}"
    using assms(1) by (auto simp: inj_on_def)
  moreover have "key_hash (arg_key k i) \<noteq> key_hash k" if "i < length infos" for i
    using inj_onD [OF assms(1), of "arg_key k i" k] that by auto
  ultimately show ?thesis
    using store_args_at [of k 0 infos] assms(2)
    by (auto simp: kernel_layout_def num_args_of_def store_kernel_def unat_length)
qed

lemma buffers_fit:
  assumes "length bs = length infos" "disjoint_pieces (map size_offset_of infos) bs"
    and "\<forall>i<length infos. unat (info_offset (infos ! i)) + length (bs ! i) \<le> n"
    and "\<forall>i<length infos. is_buffer (infos ! i) \<longrightarrow> info_size (infos ! i) = 8 \<and> length (bs ! i) = 8"
  shows "buffers_ok infos n"
proof -
  have "is_buffer (infos ! i) \<Longrightarrow> is_buffer (infos ! j) \<Longrightarrow> apart (infos ! i) (infos ! j)"
    if "i < j" "j < length infos" for i j
    using disjoint_piecesD [OF assms(2), of i j] that assms(4) by (auto simp: apart_def size_offset_of_def)
  then have "sorted_wrt (\<lambda>x y. is_buffer x \<and> is_buffer y \<longrightarrow> apart x y) infos"
    by (auto simp: sorted_wrt_iff_nth_less)
  from sorted_wrt_filter [OF this, of is_buffer] have "sorted_wrt apart (filter is_buffer infos)"
    by (rule sorted_wrt_mono_rel [rotated]) simp
  moreover have "info_size x = 8 \<and> unat (info_offset x) + 8 \<le> n" if "x \<in> set (filter is_buffer infos)" for x
    using that assms(3,4) by (fastforce simp: in_set_conv_nth)
  ultimately show ?thesis by (simp add: buffers_ok_def)
qed

lemma not_inside:
  assumes "disjoint_pieces (map size_offset_of infos) bs" "length bs = length infos"
    and "\<forall>j<length infos. is_buffer (infos ! j) \<longrightarrow> length (bs ! j) = 8"
    and "i < length infos" "\<not> is_buffer (infos ! i)" "x < length (bs ! i)"
  shows "\<not> inside infos (unat (info_offset (infos ! i)) + x)"
proof
  assume "inside infos (unat (info_offset (infos ! i)) + x)"
  then obtain j where j: "j < length infos" "is_buffer (infos ! j)"
      "unat (info_offset (infos ! j)) \<le> unat (info_offset (infos ! i)) + x"
      "unat (info_offset (infos ! i)) + x < unat (info_offset (infos ! j)) + 8"
    by (auto simp: inside_def in_set_conv_nth)
  with assms(5) have "i \<noteq> j" by auto
  with disjoint_piecesD [OF assms(1), of i j] assms j show False by (auto simp: size_offset_of_def)
qed

text \<open>A piece that a translation does not touch keeps its bytes.\<close>

lemma piece_kept:
  assumes "\<forall>x<length out. \<not> inside infos x \<longrightarrow> out' ! x = out ! x" "length out' = length out"
    and "piece out off (length b) = b" "off + length b \<le> length out"
    and "\<And>x. x < length b \<Longrightarrow> \<not> inside infos (off + x)"
  shows "piece out' off (length b) = b"
proof (rule piece_eqI)
  show "off + length b \<le> length out'" using assms(2,4) by simp
  show "\<forall>x<length b. out' ! (off + x) = b ! x"
  proof (intro allI impI)
    fix x assume x: "x < length b"
    with assms(1,4,5) have "out' ! (off + x) = out ! (off + x)" by simp
    also have "\<dots> = piece out off (length b) ! x" using assms(4) x by (simp add: piece_def)
    finally show "out' ! (off + x) = b ! x" using assms(3) by simp
  qed
qed

text \<open>
  C3: from launch to launch: a launch of a kernel whose metadata were stored is packed by the
  tracer, and translating the packed bytes in replay puts at the place of every buffer argument
  the address that replay allocated for the captured one (the captured one when there is none)
  and keeps the bytes of every other argument.
\<close>

theorem launched_pointers_translated:
  assumes "inj_on key_hash (insert k (arg_key k ` {0..<length infos}))" "launchable read infos args"
  shows "\<exists>out out'. pack_args read (store_kernel k infos t) k args = Inr out
    \<and> translate_args uninit allocs infos out = Inr out' \<and> length out' = length out
    \<and> (\<forall>i<length infos.
         if is_buffer (infos ! i)
         then pointer_at out' (unat (info_offset (infos ! i)))
           = translated allocs (le_word (arg_bytes read (size_offset_of (infos ! i)) (args ! i)))
         else piece out' (unat (info_offset (infos ! i))) (length (arg_bytes read (size_offset_of (infos ! i)) (args ! i)))
           = arg_bytes read (size_offset_of (infos ! i)) (args ! i))"
proof -
  let ?ls = "map size_offset_of infos" and ?ab = "\<lambda>i. arg_bytes read (size_offset_of (infos ! i)) (args ! i)"
    and ?off = "\<lambda>i. unat (info_offset (infos ! i))"
  let ?bs = "map (\<lambda>i. arg_bytes read (?ls ! i) (args ! i)) [0..<length ?ls]"
  have off: "so_offset (size_offset_of x) = info_offset x" for x by (simp add: size_offset_of_def)
  from assms(2) have len: "length infos = length args" "length infos < 2 ^ 63" by (auto simp: launchable_def Let_def)
  have "map2 (arg_bytes read) ?ls args = ?bs" using len(1) by (intro nth_equalityI) auto
  with assms(2) have size: "packed_size ?ls \<le> 0x7FFFFFFFFFFFFFFF"
    and fits: "\<forall>i<length infos. ?off i + length (?ab i) \<le> unat (packed_size ?ls)"
    and dis: "disjoint_pieces ?ls ?bs"
    and buffers: "\<forall>i<length infos. is_buffer (infos ! i) \<longrightarrow> info_size (infos ! i) = 8 \<and> length (?ab i) = 8"
    by (simp_all add: launchable_def Let_def off len(1))
  have "length ?ls \<le> length args" using len(1) by simp
  moreover have "\<forall>i<length ?ls. unat (so_offset (?ls ! i)) + length (arg_bytes read (?ls ! i) (args ! i))
    \<le> unat (packed_size ?ls)" using fits by (simp add: off)
  ultimately obtain out where out: "pack_args read (store_kernel k infos t) k args = Inr out"
      "length out = unat (packed_size ?ls)" and places: "\<forall>i<length infos. piece out (?off i) (length (?ab i)) = ?ab i"
    using pack_args_ok [OF stored_layout [OF assms(1) len(2)] _ size _ dis, of t] by (auto simp: off)
  have ok: "buffers_ok infos (length out)"
    by (rule buffers_fit [OF _ dis]) (use fits buffers out(2) in simp_all)
  from translate_args_ok [OF ok] obtain out' where
    out': "translate_args uninit allocs infos out = Inr out'" "length out' = length out"
      "\<forall>i\<in>set (filter is_buffer infos). pointer_at out' (unat (info_offset i))
         = translated allocs (pointer_at out (unat (info_offset i)))"
      "\<forall>x<length out. \<not> inside infos x \<longrightarrow> out' ! x = out ! x" by blast
  have "pointer_at out' (?off i) = translated allocs (le_word (?ab i))" if "i < length infos" "is_buffer (infos ! i)" for i
    using that out'(3) places buffers by (auto simp: pointer_at_def piece_def)
  moreover have "piece out' (?off i) (length (?ab i)) = ?ab i" if i: "i < length infos" "\<not> is_buffer (infos ! i)" for i
    by (rule piece_kept [OF out'(4) out'(2)])
      (use places fits i out(2) buffers not_inside [OF dis _ _ i] in simp_all)
  ultimately show ?thesis using out(1) out'(1,2) by auto
qed

theorem launched_pointers_translated_witness:
  "\<exists>out out'. pack_args sample_memory (store_kernel ''k'' sample_args Map.empty) ''k'' [4096, 5000] = Inr out
    \<and> translate_args 7 [8192 \<mapsto> 0xABCD0000] sample_args out = Inr out'
    \<and> pointer_at out' 0 = 0xABCD0000 \<and> piece out' 8 4 = [7, 0, 0, 0]"
proof -
  have "arg_key ''k'' ` {0..<length sample_args} = {arg_key ''k'' 0, arg_key ''k'' (Suc 0)}"
    by (auto simp: sample_args_def less_Suc_eq)
  then have inj: "inj_on key_hash (insert ''k'' (arg_key ''k'' ` {0..<length sample_args}))"
    using sample_keys by auto
  have "launchable sample_memory sample_args [4096, 5000]"
    unfolding launchable_def Let_def sample_size_offset
    by (simp add: is_buffer_def sample_args_def packed_size_def arg_bytes_def sample_memory_def disjoint_pieces_def less_Suc_eq)
  from launched_pointers_translated [OF inj this, of Map.empty 7 "[8192 \<mapsto> 0xABCD0000]"] obtain out out' where
    "pack_args sample_memory (store_kernel ''k'' sample_args Map.empty) ''k'' [4096, 5000] = Inr out"
    "translate_args 7 [8192 \<mapsto> 0xABCD0000] sample_args out = Inr out'"
    and all: "\<forall>i<length sample_args.
         if is_buffer (sample_args ! i)
         then pointer_at out' (unat (info_offset (sample_args ! i)))
           = translated [8192 \<mapsto> 0xABCD0000] (le_word (arg_bytes sample_memory (size_offset_of (sample_args ! i)) ([4096, 5000] ! i)))
         else piece out' (unat (info_offset (sample_args ! i)))
             (length (arg_bytes sample_memory (size_offset_of (sample_args ! i)) ([4096, 5000] ! i)))
           = arg_bytes sample_memory (size_offset_of (sample_args ! i)) ([4096, 5000] ! i)"
    by (elim exE conjE) (rule that)
  moreover have "arg_bytes sample_memory (size_offset_of (sample_args ! 0)) 4096 = [0, 32, 0, 0, 0, 0, 0, 0]"
    "arg_bytes sample_memory (size_offset_of (sample_args ! 1)) 5000 = [7, 0, 0, 0]"
    by (simp_all add: sample_args_def size_offset_of_def contains_def arg_bytes_def sample_memory_def)
  moreover have "is_buffer (sample_args ! 0)" "\<not> is_buffer (sample_args ! 1)" "0 < length sample_args" "1 < length sample_args"
    "info_offset (sample_args ! 0) = 0" "info_offset (sample_args ! 1) = 8"
    by (simp_all add: sample_args_def is_buffer_def)
  moreover have "le_word [0, 32, 0, 0, 0, 0, 0, 0] = (8192 :: u64)" by (simp add: le_word_def)
  ultimately have "pointer_at out' 0 = 0xABCD0000" "piece out' 8 (Suc (Suc (Suc (Suc 0)))) = [7, 0, 0, 0]"
    using spec [OF all, of 0] spec [OF all, of 1] by (simp_all add: translated_def)
  moreover have "4 = Suc (Suc (Suc (Suc 0)))" by simp
  ultimately have "pointer_at out' 0 = 0xABCD0000" "piece out' 8 4 = [7, 0, 0, 0]" by (simp_all only:)
  then show ?thesis
    using \<open>pack_args _ _ _ _ = _\<close> \<open>translate_args _ _ _ _ = _\<close> by blast
qed

end
